(* ===== verification/Prelude.thy ===== *)
theory Prelude
  imports Main
begin

text \<open>
  What every component of the marketplace model shares: Go's \<open>int64\<close> and \<open>uint64\<close> arithmetic
  with its wrap-around written out, division that truncates toward zero, results that may be
  errors (\<open>'e + 'a\<close>), the loop that stops at the first error, and the pieces of Go's
  \<open>strings\<close> package the sources call. Strings are byte strings (\<open>char list\<close>), as in Go.
\<close>

named_theorems i64_simps \<open>wrap-around arithmetic reduced to integer arithmetic\<close>
named_theorems result_simps \<open>equations that run the error monad\<close>

subsection \<open>Machine integers\<close>

text \<open>
  A Go \<open>int64\<close> is an integer of the range below; every operation of the source that can leave
  the range is followed by \<open>wrap64\<close>, which is two's-complement truncation to 64 bits.
\<close>

abbreviation max_i64 :: int where "max_i64 \<equiv> 9223372036854775807"
abbreviation min_i64 :: int where "min_i64 \<equiv> - 9223372036854775808"

definition in_i64 :: "int \<Rightarrow> bool" where
  "in_i64 x \<longleftrightarrow> min_i64 \<le> x \<and> x \<le> max_i64"

definition wrap64 :: "int \<Rightarrow> int" where
  "wrap64 x = (x + 9223372036854775808) mod 18446744073709551616 - 9223372036854775808"

definition wrapu64 :: "int \<Rightarrow> int" where
  "wrapu64 x = x mod 18446744073709551616"

lemma wrap64_in [simp, intro]: "in_i64 (wrap64 x)"
  by (simp add: in_i64_def wrap64_def)

lemma wrap64_id [i64_simps]: "in_i64 x \<Longrightarrow> wrap64 x = x"
  by (simp add: in_i64_def wrap64_def)

lemma wrap64_cong: "\<exists>k. wrap64 x = x + k * 18446744073709551616"
proof -
  have "wrap64 x = x - 18446744073709551616 * ((x + 9223372036854775808) div 18446744073709551616)"
    by (simp add: wrap64_def minus_mult_div_eq_mod [symmetric])
  then show ?thesis
    by (intro exI [of _ "- ((x + 9223372036854775808) div 18446744073709551616)"]) simp
qed

lemma wrap64_mod [simp]: "wrap64 x mod 18446744073709551616 = x mod 18446744073709551616"
proof -
  obtain k where "wrap64 x = x + k * 18446744073709551616" using wrap64_cong by blast
  then show ?thesis using mod_mult_self1 [of x k 18446744073709551616] by (rule ssubst)
qed

lemma wrap64_eqI:
  "x mod 18446744073709551616 = y mod 18446744073709551616 \<Longrightarrow> wrap64 x = wrap64 y"
  unfolding wrap64_def by (drule mod_add_cong [OF _ refl, of _ _ _ 9223372036854775808]) (rule arg_cong)

lemma wrap64_wrap64 [simp]:
  "wrap64 (wrap64 x + y) = wrap64 (x + y)"
  "wrap64 (x + wrap64 y) = wrap64 (x + y)"
  "wrap64 (wrap64 x) = wrap64 x"
  by (rule wrap64_eqI, rule mod_add_cong [OF wrap64_mod refl],
      rule wrap64_eqI, rule mod_add_cong [OF refl wrap64_mod], simp add: wrap64_id)

lemma wrap64_add_overflow:
  assumes "in_i64 x" and "in_i64 y"
  shows "\<not> in_i64 (x + y) \<longleftrightarrow>
    (0 < x \<and> 0 < y \<and> wrap64 (x + y) < 0) \<or> (x < 0 \<and> y < 0 \<and> 0 \<le> wrap64 (x + y))"
proof -
  let ?k = "18446744073709551616 :: int"
  consider "x + y < min_i64" | "in_i64 (x + y)" | "max_i64 < x + y"
    unfolding in_i64_def by linarith
  then show ?thesis
  proof cases
    case 1
    then have "wrap64 (x + y) = wrap64 (x + y + ?k)" by (intro wrap64_eqI) simp
    moreover have "in_i64 (x + y + ?k)" using 1 assms by (simp add: in_i64_def)
    ultimately have "wrap64 (x + y) = x + y + ?k" by (simp add: wrap64_id)
    then show ?thesis using 1 assms by (auto simp: in_i64_def)
  next
    case 2
    then show ?thesis using assms by (auto simp: wrap64_id in_i64_def)
  next
    case 3
    then have "wrap64 (x + y) = wrap64 (x + y - ?k)" by (intro wrap64_eqI) simp
    moreover have "in_i64 (x + y - ?k)" using 3 assms by (simp add: in_i64_def)
    ultimately have "wrap64 (x + y) = x + y - ?k" by (simp add: wrap64_id)
    then show ?thesis using 3 assms by (auto simp: in_i64_def)
  qed
qed

text \<open>Go's \<open>/\<close> and \<open>%\<close> truncate toward zero; the most negative value divided by \<open>-1\<close> wraps.\<close>

definition trunc_div :: "int \<Rightarrow> int \<Rightarrow> int" where
  "trunc_div a b = sgn a * sgn b * (\<bar>a\<bar> div \<bar>b\<bar>)"

definition trunc_mod :: "int \<Rightarrow> int \<Rightarrow> int" where
  "trunc_mod a b = a - trunc_div a b * b"

definition go_div :: "int \<Rightarrow> int \<Rightarrow> int" where
  "go_div a b = wrap64 (trunc_div a b)"

lemma trunc_div_nonneg [simp]: "0 \<le> a \<Longrightarrow> 0 \<le> b \<Longrightarrow> trunc_div a b = a div b"
  by (auto simp: trunc_div_def sgn_if)

lemma trunc_mod_eq: "trunc_mod a b = sgn a * (\<bar>a\<bar> mod \<bar>b\<bar>)"
proof -
  let ?q = "\<bar>a\<bar> div \<bar>b\<bar>"
  have "sgn a * (\<bar>a\<bar> mod \<bar>b\<bar>) = sgn a * (\<bar>a\<bar> - \<bar>b\<bar> * ?q)"
    by (simp add: minus_mult_div_eq_mod)
  also have "\<dots> = sgn a * \<bar>a\<bar> - sgn a * (sgn b * b) * ?q"
    by (simp only: abs_sgn [of b] right_diff_distrib mult.assoc mult.commute [of b "sgn b"])
  moreover have "\<bar>a\<bar> * sgn a = a" by (simp add: abs_if sgn_if)
  ultimately show ?thesis by (simp add: trunc_mod_def trunc_div_def ac_simps)
qed

lemma abs_trunc_mod_less: "b \<noteq> 0 \<Longrightarrow> \<bar>trunc_mod a b\<bar> < \<bar>b\<bar>"
  by (auto simp: trunc_mod_eq abs_mult sgn_if)

lemma le_div_iff_int: "0 < (c::int) \<Longrightarrow> x \<le> y div c \<longleftrightarrow> x * c \<le> y"
proof
  assume c: "0 < c" and "x \<le> y div c"
  then have "x * c \<le> (y div c) * c" by simp
  also have "\<dots> \<le> y" using c by (simp add: minus_mod_eq_div_mult [symmetric])
  finally show "x * c \<le> y" .
next
  assume c: "0 < c" and "x * c \<le> y"
  then have "x * c div c \<le> y div c" by (intro zdiv_mono1)
  then show "x \<le> y div c" using c by simp
qed

lemma div_bounds: "0 < k \<Longrightarrow> k * (x div k) \<le> x" "0 < k \<Longrightarrow> x < k * (x div k) + k" for x k :: int
proof -
  assume k: "0 < k"
  have "x = k * (x div k) + x mod k" "0 \<le> x mod k" "x mod k < k" using k by simp_all
  then show "k * (x div k) \<le> x" "x < k * (x div k) + k" by linarith+
qed

subsection \<open>Results and loops\<close>

text \<open>
  A function of the source that returns \<open>(T, error)\<close> returns \<open>error + T\<close> here, and
  \<open>if err != nil { return err }\<close> is \<open>bindE\<close>. A \<open>for range\<close> loop that may return early with
  an error is \<open>foldE\<close>.
\<close>

definition bindE :: "'e + 'a \<Rightarrow> ('a \<Rightarrow> 'e + 'b) \<Rightarrow> 'e + 'b" where
  "bindE m f = (case m of Inl e \<Rightarrow> Inl e | Inr x \<Rightarrow> f x)"

lemma bindE_simps [simp, result_simps]:
  "bindE (Inl e) f = Inl e"
  "bindE (Inr x) f = f x"
  by (simp_all add: bindE_def)

lemma bindE_eq_Inr [simp]: "bindE m f = Inr y \<longleftrightarrow> (\<exists>x. m = Inr x \<and> f x = Inr y)"
  by (cases m) simp_all

lemma bindE_eq_Inl: "bindE m f = Inl e \<longleftrightarrow> m = Inl e \<or> (\<exists>x. m = Inr x \<and> f x = Inl e)"
  by (cases m) simp_all

lemma bindE_assoc: "bindE (bindE m f) g = bindE m (\<lambda>x. bindE (f x) g)"
  by (cases m) simp_all

lemma bindE_cong [fundef_cong]:
  "m = m' \<Longrightarrow> (\<And>x. m' = Inr x \<Longrightarrow> f x = f' x) \<Longrightarrow> bindE m f = bindE m' f'"
  by (cases m') simp_all

fun foldE :: "('x \<Rightarrow> 's \<Rightarrow> 'e + 's) \<Rightarrow> 'x list \<Rightarrow> 's \<Rightarrow> 'e + 's" where
  "foldE f [] s = Inr s"
| "foldE f (x # xs) s = bindE (f x s) (foldE f xs)"

lemma foldE_append: "foldE f (xs @ ys) s = bindE (foldE f xs s) (foldE f ys)"
proof (induction xs arbitrary: s)
  case (Cons x xs)
  then show ?case by (cases "f x s") simp_all
qed simp

lemma foldE_invariant:
  assumes "foldE f xs s = Inr t" and "P s"
    and "\<And>x s t. x \<in> set xs \<Longrightarrow> P s \<Longrightarrow> f x s = Inr t \<Longrightarrow> P t"
  shows "P t"
  using assms by (induction xs arbitrary: s) auto

text \<open>Loops that build a list, one result per element (\<open>append\<close> in the source).\<close>

fun mapE :: "('x \<Rightarrow> 'e + 'y) \<Rightarrow> 'x list \<Rightarrow> 'e + 'y list" where
  "mapE f [] = Inr []"
| "mapE f (x # xs) = bindE (f x) (\<lambda>y. bindE (mapE f xs) (\<lambda>ys. Inr (y # ys)))"

lemma mapE_length: "mapE f xs = Inr ys \<Longrightarrow> length ys = length xs"
  by (induction xs arbitrary: ys) auto

lemma mapE_nth: "mapE f xs = Inr ys \<Longrightarrow> i < length xs \<Longrightarrow> f (xs ! i) = Inr (ys ! i)"
  by (induction xs arbitrary: ys i) (auto simp: less_Suc_eq_0_disj)

lemma mapE_all_Inr: "(\<And>x. x \<in> set xs \<Longrightarrow> f x = Inr (g x)) \<Longrightarrow> mapE f xs = Inr (map g xs)"
  by (induction xs) auto

lemma mapE_Inr_iff: "(\<exists>ys. mapE f xs = Inr ys) \<longleftrightarrow> (\<forall>x \<in> set xs. \<exists>y. f x = Inr y)"
  by (induction xs) auto

text \<open>\<open>fmt.Errorf("...: %w", err)\<close>: an error of one component wrapped as an error of its caller.\<close>

definition wrapE :: "('e \<Rightarrow> 'f) \<Rightarrow> 'e + 'a \<Rightarrow> 'f + 'a" where
  "wrapE f m = (case m of Inl e \<Rightarrow> Inl (f e) | Inr x \<Rightarrow> Inr x)"

lemma wrapE_simps [simp, result_simps]:
  "wrapE f (Inl e) = Inl (f e)"
  "wrapE f (Inr x) = Inr x"
  by (simp_all add: wrapE_def)

lemma wrapE_eq_Inr [simp]: "wrapE f m = Inr x \<longleftrightarrow> m = Inr x"
  by (cases m) simp_all

lemma no_Inr_Inl: "\<not> (\<exists>r. x = Inr r) \<Longrightarrow> \<exists>e. x = Inl e"
  by (cases x) auto

subsection \<open>Codecs\<close>

text \<open>
  A printer and a parser of it: the parser returns what was printed. The text forms of a UUID
  and of an amount are interpretations.
\<close>

locale roundtrip =
  fixes enc :: "'a \<Rightarrow> 'b" and dec :: "'b \<Rightarrow> 'e + 'a" and ok :: "'a \<Rightarrow> bool"
  assumes dec_enc: "ok x \<Longrightarrow> dec (enc x) = Inr x"
begin

lemma enc_inject: "ok x \<Longrightarrow> ok y \<Longrightarrow> enc x = enc y \<longleftrightarrow> x = y"
  using dec_enc by (metis sum.inject(2))

lemma dec_unique: "ok x \<Longrightarrow> enc x = s \<Longrightarrow> dec s = Inr y \<Longrightarrow> y = x"
  using dec_enc by auto

end

end
