(* ===== verification/GoStrings.thy ===== *)
theory GoStrings
  imports Prelude
begin

text \<open>
  The pieces of Go's \<open>strings\<close>, \<open>strconv\<close> and \<open>unicode\<close> packages the sources call, on byte
  strings: decimal rendering and parsing of integers, \<open>TrimSpace\<close> with the UTF-8 encodings of
  every character \<open>unicode.IsSpace\<close> accepts, \<open>TrimPrefix\<close>, ASCII upper case, zero padding.
\<close>

subsection \<open>Decimal numbers\<close>

definition is_digit :: "char \<Rightarrow> bool" where
  "is_digit c \<longleftrightarrow> 48 \<le> (of_char c :: nat) \<and> (of_char c :: nat) \<le> 57"

definition digit_val :: "char \<Rightarrow> nat" where
  "digit_val c = of_char c - 48"

definition digit_char :: "nat \<Rightarrow> char" where
  "digit_char n = char_of (48 + n)"

text \<open>\<open>strconv.FormatUint(n, 10)\<close>.\<close>

fun dec_nat :: "nat \<Rightarrow> string" where
  "dec_nat n = (if n < 10 then [digit_char n] else dec_nat (n div 10) @ [digit_char (n mod 10)])"

declare dec_nat.simps [simp del]

definition parse_digits :: "string \<Rightarrow> nat" where
  "parse_digits s = foldl (\<lambda>a c. a * 10 + digit_val c) 0 s"

lemma digit_char_props [simp]:
  assumes "n < 10"
  shows "is_digit (digit_char n)" "digit_val (digit_char n) = n"
  using assms by (simp_all add: is_digit_def digit_val_def digit_char_def)

lemma dec_nat_digits: "\<forall>c \<in> set (dec_nat n). is_digit c"
  by (induction n rule: dec_nat.induct) (subst dec_nat.simps, auto)

lemma dec_nat_nonempty [simp]: "dec_nat n \<noteq> []"
  by (subst dec_nat.simps) simp

lemma parse_digits_append:
  "parse_digits (xs @ ys) = foldl (\<lambda>a c. a * 10 + digit_val c) (parse_digits xs) ys"
  by (simp add: parse_digits_def)

lemma parse_dec_nat [simp]: "parse_digits (dec_nat n) = n"
proof (induction n rule: dec_nat.induct)
  case (1 n)
  show ?case
  proof (cases "n < 10")
    case True
    then show ?thesis by (subst dec_nat.simps) (simp add: parse_digits_def)
  next
    case False
    then show ?thesis using 1 by (subst dec_nat.simps) (simp add: parse_digits_append)
  qed
qed

lemma parse_digits_zeros: "parse_digits (replicate k (CHR ''0'') @ s) = parse_digits s"
proof -
  have "foldl (\<lambda>a c. a * 10 + digit_val c) 0 (replicate k (CHR ''0'')) = 0"
    by (induction k) (simp_all add: digit_val_def)
  then show ?thesis by (simp add: parse_digits_def)
qed

text \<open>\<open>for len(s) < n { s = "0" + s }\<close>, also \<open>fmt\<close>'s \<open>%0nd\<close> on non-negative numbers.\<close>

definition pad0 :: "nat \<Rightarrow> string \<Rightarrow> string" where
  "pad0 n s = replicate (n - length s) (CHR ''0'') @ s"

lemma length_pad0 [simp]: "length (pad0 n s) = max n (length s)"
  by (simp add: pad0_def)

lemma pad0_digits: "\<forall>c \<in> set s. is_digit c \<Longrightarrow> \<forall>c \<in> set (pad0 n s). is_digit c"
  by (auto simp: pad0_def is_digit_def)

lemma parse_pad0 [simp]: "parse_digits (pad0 n s) = parse_digits s"
  by (simp add: pad0_def parse_digits_zeros)

text \<open>\<open>strconv.FormatInt(n, 10)\<close> and \<open>ParseInt\<close>/\<open>ParseUint\<close> of a string of digits.\<close>

definition dec_int :: "int \<Rightarrow> string" where
  "dec_int n = (if n < 0 then ''-'' @ dec_nat (nat (- n)) else dec_nat (nat n))"

subsection \<open>Trimming\<close>

definition ws_runes :: "string list" where
  "ws_runes = [[CHR 0x09], [CHR 0x0A], [CHR 0x0B], [CHR 0x0C], [CHR 0x0D], [CHR 0x20],
     [CHR 0xC2, CHR 0x85], [CHR 0xC2, CHR 0xA0], [CHR 0xE1, CHR 0x9A, CHR 0x80]]
   @ map (\<lambda>b. [CHR 0xE2, CHR 0x80, b])
       [CHR 0x80, CHR 0x81, CHR 0x82, CHR 0x83, CHR 0x84, CHR 0x85, CHR 0x86, CHR 0x87, CHR 0x88,
        CHR 0x89, CHR 0x8A, CHR 0xA8, CHR 0xA9, CHR 0xAF]
   @ [[CHR 0xE2, CHR 0x81, CHR 0x9F], [CHR 0xE3, CHR 0x80, CHR 0x80]]"

function trim_by :: "string list \<Rightarrow> string \<Rightarrow> string" where
  "trim_by tbl s = (case find (\<lambda>p. p \<noteq> [] \<and> take (length p) s = p) tbl of
     None \<Rightarrow> s
   | Some p \<Rightarrow> trim_by tbl (drop (length p) s))"
  by auto
termination
proof (relation "measure (\<lambda>(tbl, s). length s)")
  fix tbl :: "string list" and s p
  assume "find (\<lambda>p. p \<noteq> [] \<and> take (length p) s = p) tbl = Some p"
  then have "p \<noteq> []" "take (length p) s = p" by (auto simp: find_Some_iff)
  then have "0 < length p" "s \<noteq> []" by auto
  then show "((tbl, drop (length p) s), tbl, s) \<in> measure (\<lambda>(tbl, s). length s)" by simp
qed simp

declare trim_by.simps [simp del]

definition trim_left_space :: "string \<Rightarrow> string" where
  "trim_left_space s = trim_by ws_runes s"

definition trim_space :: "string \<Rightarrow> string" where
  "trim_space s = rev (trim_by (map rev ws_runes) (rev (trim_left_space s)))"

definition trim_prefix :: "string \<Rightarrow> string \<Rightarrow> string" where
  "trim_prefix s p = (if take (length p) s = p then drop (length p) s else s)"

text \<open>A byte that neither starts nor ends an encoded space.\<close>

definition plain :: "char \<Rightarrow> bool" where
  "plain c \<longleftrightarrow> 33 \<le> (of_char c :: nat) \<and> (of_char c :: nat) < 128"

lemma ws_first: "p \<in> set ws_runes \<Longrightarrow> p \<noteq> [] \<and> \<not> plain (hd p) \<and> \<not> plain (last p)"
  by (auto simp: ws_runes_def plain_def)

lemma trim_by_plain:
  assumes "\<forall>p \<in> set tbl. \<not> plain (hd p)" and "s = [] \<or> plain (hd s)"
  shows "trim_by tbl s = s"
proof -
  have "find (\<lambda>p. p \<noteq> [] \<and> take (length p) s = p) tbl = None"
    unfolding find_None_iff
  proof
    assume "\<exists>x. x \<in> set tbl \<and> x \<noteq> [] \<and> take (length x) s = x"
    then obtain p where p: "p \<in> set tbl" "p \<noteq> []" "take (length p) s = p" by blast
    then have "s \<noteq> []" "hd s = hd p" by (auto simp: hd_conv_nth) (metis hd_take length_greater_0_conv hd_conv_nth)
    then show False using assms p(1) by auto
  qed
  then show ?thesis by (subst trim_by.simps) simp
qed

lemma trim_space_plain:
  assumes "s \<noteq> []" and "plain (hd s)" and "plain (last s)"
  shows "trim_space s = s"
proof -
  have l: "trim_left_space s = s" unfolding trim_left_space_def
    by (rule trim_by_plain) (use ws_first assms in auto)
  have "trim_by (map rev ws_runes) (rev s) = rev s"
    by (rule trim_by_plain) (use ws_first assms in \<open>auto simp: hd_rev\<close>)
  then show ?thesis by (simp add: trim_space_def l)
qed

lemma trim_space_blank:
  assumes "s \<noteq> []" and "plain (hd s)" and "plain (last s)"
  shows "trim_space (CHR '' '' # s) = s"
proof -
  have f: "find (\<lambda>p. p \<noteq> [] \<and> take (length p) (CHR '' '' # s) = p) ws_runes = Some '' ''"
    by (simp add: ws_runes_def)
  have "trim_left_space (CHR '' '' # s) = trim_left_space s"
    unfolding trim_left_space_def by (subst trim_by.simps, subst f) simp
  then show ?thesis using trim_space_plain [OF assms] by (simp add: trim_space_def)
qed

lemma digit_plain: "is_digit c \<Longrightarrow> plain c"
  by (simp add: is_digit_def plain_def)

subsection \<open>Case\<close>

definition upper_char :: "char \<Rightarrow> char" where
  "upper_char c = (let n = (of_char c :: nat) in if 97 \<le> n \<and> n \<le> 122 then char_of (n - 32) else c)"

text \<open>
  \<open>strings.ToUpper\<close>: the ASCII letters, and the two letters outside ASCII whose capital is an ASCII
  letter (U+0131, U+017F); every other letter keeps its bytes outside ASCII.
\<close>

fun to_upper :: "string \<Rightarrow> string" where
  "to_upper [] = []"
| "to_upper [c] = [upper_char c]"
| "to_upper (c # c' # s) =
    (if (of_char c :: nat) = 196 \<and> (of_char c' :: nat) = 177 then CHR ''I'' # to_upper s
     else if (of_char c :: nat) = 197 \<and> (of_char c' :: nat) = 191 then CHR ''S'' # to_upper s
     else upper_char c # to_upper (c' # s))"

text \<open>\<open>strings.Join\<close>, \<open>strings.HasPrefix\<close>.\<close>

fun str_join :: "string \<Rightarrow> string list \<Rightarrow> string" where
  "str_join sep [] = ''''"
| "str_join sep [x] = x"
| "str_join sep (x # y # xs) = x @ sep @ str_join sep (y # xs)"

definition has_prefix :: "string \<Rightarrow> string \<Rightarrow> bool" where
  "has_prefix s p \<longleftrightarrow> take (length p) s = p"

subsection \<open>Comparison and sorting\<close>

text \<open>String comparison is bytewise.\<close>

fun str_less :: "string \<Rightarrow> string \<Rightarrow> bool" where
  "str_less s [] = False"
| "str_less [] (b # t) = True"
| "str_less (a # s) (b # t) = (if a = b then str_less s t else (of_char a :: nat) < of_char b)"

text \<open>\<open>sort.SliceStable\<close>: the stable sort of the comparison.\<close>

fun stable_insert :: "('a \<Rightarrow> 'a \<Rightarrow> bool) \<Rightarrow> 'a \<Rightarrow> 'a list \<Rightarrow> 'a list" where
  "stable_insert lt x [] = [x]"
| "stable_insert lt x (y # ys) = (if lt y x then y # stable_insert lt x ys else x # y # ys)"

definition stable_sort :: "('a \<Rightarrow> 'a \<Rightarrow> bool) \<Rightarrow> 'a list \<Rightarrow> 'a list" where
  "stable_sort lt xs = foldr (stable_insert lt) xs []"

subsection \<open>Words and case\<close>

definition lower_char :: "char \<Rightarrow> char" where
  "lower_char c = (let n = (of_char c :: nat) in if 65 \<le> n \<and> n \<le> 90 then char_of (n + 32) else c)"

text \<open>\<open>strings.ToLower\<close> on ASCII text.\<close>

definition to_lower :: "string \<Rightarrow> string" where
  "to_lower s = map lower_char s"

text \<open>\<open>strings.Fields\<close>: the maximal runs between encoded spaces.\<close>

definition space_prefix :: "string \<Rightarrow> string option" where
  "space_prefix s = find (\<lambda>p. p \<noteq> [] \<and> take (length p) s = p) ws_runes"

fun fields_from :: "nat \<Rightarrow> string \<Rightarrow> string \<Rightarrow> string list" where
  "fields_from skip word [] = (if word = [] then [] else [word])"
| "fields_from (Suc n) word (c # s) = fields_from n word s"
| "fields_from 0 word (c # s) = (case space_prefix (c # s) of
     Some p \<Rightarrow> (if word = [] then [] else [word]) @ fields_from (length p - 1) [] s
   | None \<Rightarrow> fields_from 0 (word @ [c]) s)"

definition str_fields :: "string \<Rightarrow> string list" where
  "str_fields s = fields_from 0 [] s"

text \<open>\<open>strings.Trim(s, cutset)\<close> for an ASCII cutset.\<close>

definition trim_set :: "string \<Rightarrow> string \<Rightarrow> string" where
  "trim_set cs s = rev (dropWhile (\<lambda>c. c \<in> set cs) (rev (dropWhile (\<lambda>c. c \<in> set cs) s)))"

lemma set_trim_set: "set (trim_set cs s) \<subseteq> set s"
  unfolding trim_set_def by (auto dest!: set_dropWhileD)

subsection \<open>Text columns\<close>

text \<open>PostgreSQL's \<open>length(text)\<close> counts characters: the bytes of a UTF-8 text that continue no character.\<close>

definition char_count :: "string \<Rightarrow> nat" where
  "char_count s = length (filter (\<lambda>c. \<not> (128 \<le> (of_char c :: nat) \<and> (of_char c :: nat) < 192)) s)"

end
