(* ===== verification/Money.thy ===== *)
theory Money
  imports GoStrings
begin

text \<open>
  The monetary arithmetic of \<open>internal/platform/money/money.go\<close>: an amount is a count of
  minor units in an \<open>int64\<close> with its currency, every operation refuses mixed currencies and
  overflow, ratios go through a 128-bit intermediate with an explicit rounding mode, and
  \<open>Allocate\<close> splits an amount without losing a unit. The proofs show the overflow checks are
  exact, the rounding modes are the ones their comments name, and \<open>Allocate\<close> conserves.
\<close>

record money =
  minor :: int
  cur :: string

definition INR :: string where "INR = ''INR''"
definition USD :: string where "USD = ''USD''"

definition exponents :: "(string \<times> nat) list" where
  "exponents = [(''INR'', 2), (''USD'', 2), (''EUR'', 2), (''GBP'', 2), (''AUD'', 2),
     (''SGD'', 2), (''AED'', 2), (''CAD'', 2), (''JPY'', 0)]"

datatype money_error =
    ErrCurrencyMismatch string string
  | ErrUnknownCurrency string
  | ErrOverflow
  | ErrDivideByZero
  | ErrParse string
  | ErrAllocateNoWeights
  | ErrAllocateNegativeWeight int
  | ErrSumEmpty
  | ErrUnknownRounding nat
  | PanicDiv64

text \<open>\<open>Rounding\<close> is a \<open>uint8\<close>: the four named constants, and any other value.\<close>

datatype rounding = HalfUp | HalfEven | Down | Up | OtherRounding nat

fun rounding_string :: "rounding \<Rightarrow> string" where
  "rounding_string HalfUp = ''half_up''"
| "rounding_string HalfEven = ''half_even''"
| "rounding_string Down = ''down''"
| "rounding_string Up = ''up''"
| "rounding_string (OtherRounding n) = ''unknown''"

definition Valid :: "string \<Rightarrow> bool" where
  "Valid c \<longleftrightarrow> map_of exponents c \<noteq> None"

definition Exponent :: "string \<Rightarrow> money_error + nat" where
  "Exponent c = (case map_of exponents c of
     None \<Rightarrow> Inl (ErrUnknownCurrency c)
   | Some e \<Rightarrow> Inr e)"

definition New :: "int \<Rightarrow> string \<Rightarrow> money_error + money" where
  "New v c = (if \<not> Valid c then Inl (ErrUnknownCurrency c) else Inr \<lparr>minor = v, cur = c\<rparr>)"

definition Zero :: "string \<Rightarrow> money" where
  "Zero c = \<lparr>minor = 0, cur = c\<rparr>"

definition IsZero :: "money \<Rightarrow> bool" where "IsZero m \<longleftrightarrow> minor m = 0"
definition IsNegative :: "money \<Rightarrow> bool" where "IsNegative m \<longleftrightarrow> minor m < 0"
definition IsPositive :: "money \<Rightarrow> bool" where "IsPositive m \<longleftrightarrow> minor m > 0"

definition Sign :: "money \<Rightarrow> int" where
  "Sign m = (if minor m > 0 then 1 else if minor m < 0 then -1 else 0)"

definition sameCurrency :: "money \<Rightarrow> money \<Rightarrow> money_error + unit" where
  "sameCurrency m n =
     (if cur m \<noteq> cur n then Inl (ErrCurrencyMismatch (cur m) (cur n)) else Inr ())"

definition Add :: "money \<Rightarrow> money \<Rightarrow> money_error + money" where
  "Add m n = bindE (sameCurrency m n) (\<lambda>_.
     let s = wrap64 (minor m + minor n)
     in if (minor m > 0 \<and> minor n > 0 \<and> s < 0) \<or> (minor m < 0 \<and> minor n < 0 \<and> s \<ge> 0)
        then Inl ErrOverflow
        else Inr \<lparr>minor = s, cur = cur m\<rparr>)"

definition Neg :: "money \<Rightarrow> money_error + money" where
  "Neg m = (if minor m = min_i64 then Inl ErrOverflow
            else Inr \<lparr>minor = wrap64 (- minor m), cur = cur m\<rparr>)"

definition Sub :: "money \<Rightarrow> money \<Rightarrow> money_error + money" where
  "Sub m n = bindE (sameCurrency m n) (\<lambda>_. bindE (Neg n) (\<lambda>neg. Add m neg))"

definition Abs :: "money \<Rightarrow> money_error + money" where
  "Abs m = (if minor m \<ge> 0 then Inr m else Neg m)"

definition Cmp :: "money \<Rightarrow> money \<Rightarrow> money_error + int" where
  "Cmp m n = bindE (sameCurrency m n) (\<lambda>_.
     Inr (if minor m < minor n then -1 else if minor m > minor n then 1 else 0))"

definition Equal :: "money \<Rightarrow> money \<Rightarrow> bool" where
  "Equal m n \<longleftrightarrow> cur m = cur n \<and> minor m = minor n"

subsection \<open>128-bit helpers\<close>

definition mulOverflowChecked :: "int \<Rightarrow> int \<Rightarrow> money_error + int" where
  "mulOverflowChecked a b =
     (if a = 0 \<or> b = 0 then Inr 0
      else let p = wrap64 (a * b)
           in if go_div p b \<noteq> a \<or> (a = min_i64 \<and> b = -1) \<or> (b = min_i64 \<and> a = -1)
              then Inl ErrOverflow
              else Inr p)"

definition absU64 :: "int \<Rightarrow> int \<times> bool" where
  "absU64 v = (if v < 0 then (wrapu64 (wrapu64 (- (v + 1)) + 1), True) else (wrapu64 v, False))"

text \<open>
  \<open>bits.Mul64\<close> returns the 128-bit product in two words; \<open>bits.Div64\<close> divides a 128-bit
  value by a word and panics when the quotient does not fit (\<open>None\<close>).
\<close>

definition Mul64 :: "int \<Rightarrow> int \<Rightarrow> int \<times> int" where
  "Mul64 x y = (x * y div 18446744073709551616, x * y mod 18446744073709551616)"

definition Div64 :: "int \<Rightarrow> int \<Rightarrow> int \<Rightarrow> (int \<times> int) option" where
  "Div64 hi lo y =
     (if y = 0 \<or> y \<le> hi then None
      else let n = hi * 18446744073709551616 + lo in Some (n div y, n mod y))"

definition mulDivRem :: "int \<Rightarrow> int \<Rightarrow> int \<Rightarrow> money_error + int \<times> int" where
  "mulDivRem a b den =
     (if den = 0 then Inl ErrDivideByZero
      else let (ua, n1) = absU64 a; (ub, n2) = absU64 b; (ud, n3) = absU64 den;
               neg = (n1 \<noteq> n2);
               neg = (if n3 then \<not> neg else neg);
               (hi, lo) = Mul64 ua ub
           in if hi \<ge> ud then Inl ErrOverflow
              else case Div64 hi lo ud of
                None \<Rightarrow> Inl PanicDiv64
              | Some (uq, ur) \<Rightarrow>
                  if neg then
                    (if uq > max_i64 + 1 then Inl ErrOverflow
                     else if uq = max_i64 + 1 then Inr (min_i64, wrap64 (- wrap64 ur))
                     else Inr (wrap64 (- wrap64 uq), wrap64 (- wrap64 ur)))
                  else if uq > max_i64 then Inl ErrOverflow
                  else Inr (wrap64 uq, wrap64 ur))"

definition mulDivRound :: "int \<Rightarrow> int \<Rightarrow> int \<Rightarrow> rounding \<Rightarrow> money_error + int" where
  "mulDivRound a b den mode = bindE (mulDivRem a b den) (\<lambda>(q, rem).
     if rem = 0 then Inr q
     else let resultNegative = (q < 0 \<or> (q = 0 \<and> rem < 0));
              absRem = (if rem < 0 then wrap64 (- rem) else rem);
              absDen = (if den < 0 then wrap64 (- den) else den);
              twice = wrap64 (absRem * 2)
          in bindE (case mode of
               Down \<Rightarrow> Inr False
             | Up \<Rightarrow> Inr True
             | HalfUp \<Rightarrow> Inr (twice \<ge> absDen)
             | HalfEven \<Rightarrow> Inr (if twice > absDen then True
                               else if twice < absDen then False
                               else trunc_mod q 2 \<noteq> 0)
             | OtherRounding k \<Rightarrow> Inl (ErrUnknownRounding k))
             (\<lambda>bump.
               if \<not> bump then Inr q
               else if resultNegative
                    then (if q = min_i64 then Inl ErrOverflow else Inr (q - 1))
                    else (if q = max_i64 then Inl ErrOverflow else Inr (q + 1))))"

definition MulInt :: "money \<Rightarrow> int \<Rightarrow> money_error + money" where
  "MulInt m n = bindE (mulOverflowChecked (minor m) n) (\<lambda>p. Inr \<lparr>minor = p, cur = cur m\<rparr>)"

definition MulRatio :: "money \<Rightarrow> int \<Rightarrow> int \<Rightarrow> rounding \<Rightarrow> money_error + money" where
  "MulRatio m num den mode =
     (if den = 0 then Inl ErrDivideByZero
      else bindE (mulDivRound (minor m) num den mode) (\<lambda>r. Inr \<lparr>minor = r, cur = cur m\<rparr>))"

definition ApplyBasisPoints :: "money \<Rightarrow> int \<Rightarrow> rounding \<Rightarrow> money_error + money" where
  "ApplyBasisPoints m bps mode = MulRatio m bps 10000 mode"

subsection \<open>Sum and Allocate\<close>

definition Sum :: "money list \<Rightarrow> money_error + money" where
  "Sum ms = (case ms of
     [] \<Rightarrow> Inl ErrSumEmpty
   | m0 # _ \<Rightarrow> foldE (\<lambda>m acc. Add acc m) ms \<lparr>minor = 0, cur = cur m0\<rparr>)"

definition alloc_total :: "int list \<Rightarrow> money_error + int" where
  "alloc_total weights = foldE (\<lambda>w total.
     if w < 0 then Inl (ErrAllocateNegativeWeight w)
     else if total > wrap64 (max_i64 - w) then Inl ErrOverflow
     else Inr (wrap64 (total + w))) weights 0"

text \<open>The scan for the largest remainder: \<open>best, bestRem := -1, int64(-1)\<close>, first maximum wins.\<close>

fun alloc_best :: "int list \<Rightarrow> nat \<Rightarrow> nat option \<times> int \<Rightarrow> nat option \<times> int" where
  "alloc_best [] i acc = acc"
| "alloc_best (r # rs) i (best, bestRem) =
     alloc_best rs (Suc i) (if r > bestRem then (Some i, r) else (best, bestRem))"

definition alloc_pick :: "int list \<Rightarrow> nat" where
  "alloc_pick rems = (case fst (alloc_best rems 0 (None, -1)) of None \<Rightarrow> 0 | Some b \<Rightarrow> b)"

text \<open>The loop \<open>for ; left > 0; left--\<close>; \<open>left\<close> is positive on entry, so it runs \<open>nat left\<close> times.\<close>

fun alloc_rest :: "nat \<Rightarrow> int \<Rightarrow> int list \<Rightarrow> int list \<Rightarrow> int list" where
  "alloc_rest 0 step parts rems = parts"
| "alloc_rest (Suc left) step parts rems =
     (let b = alloc_pick rems
      in alloc_rest left step (parts[b := wrap64 (parts ! b + step)]) (rems[b := -1]))"

definition Allocate :: "money \<Rightarrow> int list \<Rightarrow> money_error + money list" where
  "Allocate m weights =
     (if weights = [] then Inl ErrAllocateNoWeights
      else bindE (alloc_total weights) (\<lambda>total.
        if total = 0 then Inl ErrDivideByZero
        else bindE (mapE (\<lambda>w. mulDivRem (minor m) w total) weights) (\<lambda>qrs.
          let allocated = fold (\<lambda>qr acc. wrap64 (acc + fst qr)) qrs 0;
              left = wrap64 (minor m - allocated);
              step = (if left < 0 then -1 else 1);
              left = (if left < 0 then wrap64 (- left) else left)
          in Inr (map (\<lambda>v. \<lparr>minor = v, cur = cur m\<rparr>)
               (alloc_rest (nat left) step (map fst qrs) (map snd qrs))))))"

lemma div_le_dividend_abs: "0 \<le> x \<Longrightarrow> 0 \<le> (y::int) \<Longrightarrow> x div y \<le> x"
  by (cases "y = 0") (auto intro: order_trans [OF zdiv_mono2 [of x 1 y]])

lemma div_halves: "2 \<le> y \<Longrightarrow> 0 \<le> (x::int) \<Longrightarrow> x div y \<le> x div 2"
  by (rule zdiv_mono2) auto

subsection \<open>Overflow checks are exact\<close>

definition money_ok :: "money \<Rightarrow> bool" where
  "money_ok m \<longleftrightarrow> in_i64 (minor m)"

lemma Add_exact:
  assumes "money_ok m" and "money_ok n" and "cur m = cur n"
  shows "Add m n = (if in_i64 (minor m + minor n)
    then Inr \<lparr>minor = minor m + minor n, cur = cur m\<rparr> else Inl ErrOverflow)"
  using assms wrap64_add_overflow [of "minor m" "minor n"]
  by (auto simp: Add_def sameCurrency_def money_ok_def Let_def wrap64_id)

lemma Add_Inr_iff:
  assumes "money_ok m" and "money_ok n"
  shows "Add m n = Inr r \<longleftrightarrow> cur m = cur n \<and> in_i64 (minor m + minor n)
    \<and> r = \<lparr>minor = minor m + minor n, cur = cur m\<rparr>"
proof (cases "cur m = cur n")
  case True
  then show ?thesis using assms by (auto simp: Add_exact)
qed (simp add: Add_def sameCurrency_def)

lemma Add_mismatch: "cur m \<noteq> cur n \<Longrightarrow> Add m n = Inl (ErrCurrencyMismatch (cur m) (cur n))"
  by (simp add: Add_def sameCurrency_def)

lemma Neg_exact:
  assumes "money_ok m"
  shows "Neg m = (if in_i64 (- minor m)
    then Inr \<lparr>minor = - minor m, cur = cur m\<rparr> else Inl ErrOverflow)"
  using assms by (auto simp: Neg_def money_ok_def in_i64_def wrap64_id)

lemma Sub_exact:
  assumes "money_ok m" and "money_ok n" and "cur m = cur n"
  shows "Sub m n = (if minor n \<noteq> min_i64 \<and> in_i64 (minor m - minor n)
    then Inr \<lparr>minor = minor m - minor n, cur = cur m\<rparr> else Inl ErrOverflow)"
proof (cases "minor n = min_i64")
  case False
  then have "in_i64 (- minor n)" using assms by (auto simp: money_ok_def in_i64_def)
  then show ?thesis using assms False
    by (simp add: Sub_def sameCurrency_def Neg_exact Add_exact money_ok_def)
qed (use assms in \<open>simp add: Sub_def sameCurrency_def Neg_def\<close>)

lemma Sub_Inr_iff:
  assumes "money_ok m" and "money_ok n"
  shows "Sub m n = Inr r \<longleftrightarrow> cur m = cur n \<and> minor n \<noteq> min_i64 \<and> in_i64 (minor m - minor n)
    \<and> r = \<lparr>minor = minor m - minor n, cur = cur m\<rparr>"
proof (cases "cur m = cur n")
  case True
  then show ?thesis using assms by (auto simp: Sub_exact)
qed (simp add: Sub_def sameCurrency_def)

lemma Abs_exact:
  assumes "money_ok m"
  shows "Abs m = (if in_i64 \<bar>minor m\<bar> then Inr \<lparr>minor = \<bar>minor m\<bar>, cur = cur m\<rparr> else Inl ErrOverflow)"
  using assms by (auto simp: Abs_def Neg_exact money_ok_def in_i64_def)

lemma mulOverflowChecked_exact:
  assumes a: "in_i64 a" and b: "in_i64 b"
  shows "mulOverflowChecked a b = (if in_i64 (a * b) then Inr (a * b) else Inl ErrOverflow)"
proof (cases "a = 0 \<or> b = 0")
  case True
  then show ?thesis by (auto simp: mulOverflowChecked_def in_i64_def)
next
  case nz: False
  let ?p = "wrap64 (a * b)"
  show ?thesis
  proof (cases "in_i64 (a * b)")
    case True
    have "trunc_div (a * b) b = a" using nz
      by (simp add: trunc_div_def abs_mult sgn_mult mult.assoc sgn_mult_abs)
    then have "go_div ?p b = a" using True a by (simp add: go_div_def wrap64_id)
    moreover have "\<not> (a = min_i64 \<and> b = -1)" "\<not> (b = min_i64 \<and> a = -1)"
      using True by (auto simp: in_i64_def)
    ultimately show ?thesis using nz True by (simp add: mulOverflowChecked_def Let_def wrap64_id)
  next
    case False
    have "\<not> (go_div ?p b = a \<and> \<not> (a = min_i64 \<and> b = -1) \<and> \<not> (b = min_i64 \<and> a = -1))"
    proof
      assume h: "go_div ?p b = a \<and> \<not> (a = min_i64 \<and> b = -1) \<and> \<not> (b = min_i64 \<and> a = -1)"
      have p: "in_i64 ?p" by simp
      have "in_i64 (trunc_div ?p b)"
      proof (rule ccontr)
        assume out: "\<not> in_i64 (trunc_div ?p b)"
        have le: "\<bar>?p\<bar> div \<bar>b\<bar> \<le> \<bar>?p\<bar>" "0 \<le> \<bar>?p\<bar> div \<bar>b\<bar>"
          using nz by (auto intro: div_le_dividend_abs simp: pos_imp_zdiv_nonneg_iff)
        have big: "\<bar>?p\<bar> div \<bar>b\<bar> = 9223372036854775808" "\<bar>?p\<bar> = 9223372036854775808"
          using out p le by (auto simp: in_i64_def trunc_div_def sgn_if split: if_splits)
        then have "\<bar>b\<bar> < 2" using div_halves [of "\<bar>b\<bar>" 9223372036854775808] by (rule_tac ccontr) auto
        then have "b = 1 \<or> b = -1" using nz by auto
        moreover have "?p = min_i64" using big p by (auto simp: in_i64_def abs_if split: if_splits)
        ultimately have "b = -1" using out by (auto simp: in_i64_def trunc_div_def)
        moreover have "a = min_i64" using h \<open>?p = min_i64\<close> calculation
          by (auto simp: go_div_def trunc_div_def wrap64_def)
        ultimately show False using h by simp
      qed
      then have "a = trunc_div ?p b" using h by (simp add: go_div_def wrap64_id)
      then have "\<bar>?p - a * b\<bar> < \<bar>b\<bar>" using abs_trunc_mod_less [of b ?p] nz
        by (simp add: trunc_mod_def)
      moreover obtain k where "?p = a * b + k * 18446744073709551616" using wrap64_cong by blast
      ultimately have "?p = a * b" using b by (auto simp: in_i64_def abs_mult)
      then show False using False p by simp
    qed
    then show ?thesis using nz False by (auto simp: mulOverflowChecked_def Let_def)
  qed
qed

subsection \<open>Ratios and rounding\<close>

lemma absU64_eq [simp]: "in_i64 v \<Longrightarrow> absU64 v = (\<bar>v\<bar>, v < 0)"
  by (auto simp: absU64_def in_i64_def wrapu64_def)

lemma Div64_Mul64:
  assumes "0 < y" and "0 \<le> n"
  shows "Div64 (n div 18446744073709551616) (n mod 18446744073709551616) y =
    (if 18446744073709551616 \<le> n div y then None else Some (n div y, n mod y))"
  using assms by (simp add: Div64_def Let_def le_div_iff_int mult.commute)

lemma sgn_mult_eq_neg: "sgn (x * y) = (if x = 0 \<or> y = 0 then 0 else if (x < 0) \<noteq> (y < 0) then -1 else (1::int))"
  by (simp only: sgn_mult) (auto simp: sgn_if)

definition exact_rem :: "int \<Rightarrow> int \<Rightarrow> int" where
  "exact_rem n den = sgn n * sgn den * (\<bar>n\<bar> mod \<bar>den\<bar>)"

lemma mulDivRem_exact:
  assumes a: "in_i64 a" and b: "in_i64 b" and den: "in_i64 den" "den \<noteq> 0"
  shows "mulDivRem a b den = (if in_i64 (trunc_div (a * b) den)
    then Inr (trunc_div (a * b) den, exact_rem (a * b) den) else Inl ErrOverflow)"
proof -
  define n where "n = \<bar>a\<bar> * \<bar>b\<bar>"
  define d where "d = \<bar>den\<bar>"
  define neg where "neg = ((((a < 0) \<noteq> (b < 0)) \<noteq> (den < 0)))"
  have n: "0 \<le> n" "\<bar>a * b\<bar> = n" and d: "0 < d" "d \<le> 9223372036854775808"
    using den by (auto simp: n_def d_def abs_mult in_i64_def)
  have q: "trunc_div (a * b) den = (if neg then - (n div d) else n div d)"
    unfolding trunc_div_def sgn_mult_eq_neg n d_def neg_def using den
    by (auto simp: n_def sgn_if)
  have r: "exact_rem (a * b) den = (if neg then - (n mod d) else n mod d)"
    unfolding exact_rem_def sgn_mult_eq_neg n d_def neg_def using den
    by (auto simp: n_def sgn_if)
  have rb: "0 \<le> n mod d" "n mod d < 9223372036854775808" and q0: "0 \<le> n div d"
    using d n pos_mod_bound [of d n] by (auto simp: pos_imp_zdiv_nonneg_iff simp del: pos_mod_bound)
  have Mul: "Mul64 \<bar>a\<bar> \<bar>b\<bar> = (n div 18446744073709551616, n mod 18446744073709551616)"
    by (simp add: Mul64_def n_def)
  have hi: "d \<le> n div 18446744073709551616 \<longleftrightarrow> 18446744073709551616 \<le> n div d"
    using d by (simp add: le_div_iff_int mult.commute)
  have sg: "(if den < 0 then \<not> ((a < 0) \<noteq> (b < 0)) else (a < 0) \<noteq> (b < 0)) = neg"
    by (auto simp: neg_def)
  have eq: "mulDivRem a b den =
    (if 18446744073709551616 \<le> n div d then Inl ErrOverflow
     else if neg then
       (if n div d > max_i64 + 1 then Inl ErrOverflow
        else if n div d = max_i64 + 1 then Inr (min_i64, wrap64 (- wrap64 (n mod d)))
        else Inr (wrap64 (- wrap64 (n div d)), wrap64 (- wrap64 (n mod d))))
     else if n div d > max_i64 then Inl ErrOverflow
     else Inr (wrap64 (n div d), wrap64 (n mod d)))"
    unfolding mulDivRem_def Let_def absU64_eq [OF a] absU64_eq [OF b] absU64_eq [OF den(1)]
      prod.case Mul d_def [symmetric] sg Div64_Mul64 [OF d(1) n(1)] hi
    using den by simp
  have w: "in_i64 (n mod d)" "in_i64 (- (n mod d))" using rb by (auto simp: in_i64_def)
  have u: "n div d \<le> max_i64 \<Longrightarrow> in_i64 (n div d)" "n div d \<le> max_i64 \<Longrightarrow> in_i64 (- (n div d))"
    using q0 by (auto simp: in_i64_def)
  show ?thesis
  proof (cases neg)
    case True
    then show ?thesis unfolding eq q r using w u q0
      by (auto simp: wrap64_id) (auto simp: in_i64_def)
  next
    case False
    then show ?thesis unfolding eq q r using w u q0
      by (auto simp: wrap64_id) (auto simp: in_i64_def)
  qed
qed

text \<open>
  The reference: the four rounding modes as functions of the exact rational \<open>n / d\<close>, by
  magnitude and sign, with no machine word in sight.
\<close>

definition round_mag :: "rounding \<Rightarrow> int \<Rightarrow> int \<Rightarrow> int" where
  "round_mag mode n d = (case mode of
     Down \<Rightarrow> n div d
   | Up \<Rightarrow> (n + d - 1) div d
   | HalfUp \<Rightarrow> (2 * n + d) div (2 * d)
   | HalfEven \<Rightarrow> (if 2 * (n mod d) > d \<or> 2 * (n mod d) = d \<and> odd (n div d) then n div d + 1 else n div d)
   | OtherRounding k \<Rightarrow> n div d)"

definition round_ref :: "rounding \<Rightarrow> int \<Rightarrow> int \<Rightarrow> int" where
  "round_ref mode n d = sgn n * round_mag mode \<bar>n\<bar> d"

fun named_mode :: "rounding \<Rightarrow> bool" where
  "named_mode (OtherRounding k) = False"
| "named_mode _ = True"

fun bumps :: "rounding \<Rightarrow> int \<Rightarrow> int \<Rightarrow> int \<Rightarrow> bool" where
  "bumps Down u v d = False"
| "bumps Up u v d = True"
| "bumps HalfUp u v d = (2 * v \<ge> d)"
| "bumps HalfEven u v d = (2 * v > d \<or> 2 * v = d \<and> odd u)"
| "bumps (OtherRounding k) u v d = False"

lemma div_add_small: "0 < (d::int) \<Longrightarrow> 0 \<le> w \<Longrightarrow> w < d \<Longrightarrow> (u * d + w) div d = u"
  by simp

lemma round_mag_eq:
  assumes d: "0 < d"
  shows "round_mag mode n d = n div d + (if n mod d \<noteq> 0 \<and> bumps mode (n div d) (n mod d) d then 1 else 0)"
proof -
  define u v where "u = n div d" and "v = n mod d"
  have n: "n = u * d + v" and v: "0 \<le> v" "v < d" using d by (simp_all add: u_def v_def)
  have up: "(n + d - 1) div d = u + (if v = 0 then 0 else 1)"
  proof (cases "v = 0")
    case True
    then show ?thesis using div_add_small [of d "d - 1" u] d by (simp add: n algebra_simps)
  next
    case False
    then show ?thesis using div_add_small [of d "v - 1" "u + 1"] d v by (simp add: n algebra_simps)
  qed
  have half: "(2 * n + d) div (2 * d) = u + (if 2 * v \<ge> d then 1 else 0)"
  proof (cases "2 * v \<ge> d")
    case True
    then show ?thesis using div_add_small [of "2 * d" "2 * v - d" "u + 1"] d v by (simp add: n algebra_simps)
  next
    case False
    then show ?thesis using div_add_small [of "2 * d" "2 * v + d" u] d v by (simp add: n algebra_simps)
  qed
  show ?thesis using d v up half
    by (cases mode) (auto simp: round_mag_def u_def [symmetric] v_def [symmetric])
qed

theorem mulDivRound_exact:
  assumes a: "in_i64 a" and b: "in_i64 b"
    and den: "0 < den" "den \<le> 4611686018427387904" and mode: "named_mode mode"
  shows "mulDivRound a b den mode = (if in_i64 (round_ref mode (a * b) den)
    then Inr (round_ref mode (a * b) den) else Inl ErrOverflow)"
proof -
  define n where "n = a * b"
  define u where "u = \<bar>n\<bar> div den"
  define v where "v = \<bar>n\<bar> mod den"
  have u0: "0 \<le> u" and v: "0 \<le> v" "v < den" using den by (auto simp: u_def v_def pos_imp_zdiv_nonneg_iff)
  have q: "trunc_div n den = sgn n * u" and r: "exact_rem n den = sgn n * v"
    using den by (simp_all add: trunc_div_def exact_rem_def u_def v_def)
  have ref: "round_ref mode n den = sgn n * (u + (if v \<noteq> 0 \<and> bumps mode u v den then 1 else 0))"
    using round_mag_eq [OF den(1), of mode "\<bar>n\<bar>"] by (simp add: round_ref_def u_def v_def)
  have step: "mulDivRem a b den = (if in_i64 (sgn n * u) then Inr (sgn n * u, sgn n * v) else Inl ErrOverflow)"
    using mulDivRem_exact [OF a b _ _, of den] den by (simp add: n_def [symmetric] q r in_i64_def)
  have n0: "n = 0 \<Longrightarrow> v = 0" by (simp add: v_def)
  have odd: "trunc_mod (sgn n * u) 2 \<noteq> 0 \<longleftrightarrow> odd u" if "n \<noteq> 0"
    using that u0 by (auto simp: trunc_mod_eq abs_mult sgn_if abs_if odd_iff_mod_2_eq_one split: if_splits)
  have tw: "wrap64 (v * 2) = v * 2" "wrap64 v = v" using v den by (simp_all add: wrap64_id in_i64_def)
  have ar: "(if sgn n * v < 0 then wrap64 (- (sgn n * v)) else sgn n * v) = v"
    using v tw by (auto simp: sgn_if n0)
  show ?thesis
  proof (cases "in_i64 (sgn n * u) \<and> v \<noteq> 0")
    case True
    then have nz: "n \<noteq> 0" using n0 by auto
    have rn: "sgn n * u < 0 \<or> sgn n * u = 0 \<and> sgn n * v < 0 \<longleftrightarrow> n < 0"
      using nz True u0 v by (auto simp: sgn_if)
    have rem: "sgn n * v \<noteq> 0" using nz True by (auto simp: sgn_if)
    have den': "(if den < 0 then wrap64 (- den) else den) = den" using den by simp
    define res where "res bump = (if \<not> bump then Inr (sgn n * u)
      else if n < 0 then (if sgn n * u = min_i64 then Inl ErrOverflow else Inr (sgn n * u - 1))
      else (if sgn n * u = max_i64 then Inl ErrOverflow else Inr (sgn n * u + 1)))" for bump
    have "mulDivRound a b den mode = bindE (case mode of
               Down \<Rightarrow> Inr False
             | Up \<Rightarrow> Inr True
             | HalfUp \<Rightarrow> Inr (v * 2 \<ge> den)
             | HalfEven \<Rightarrow> Inr (if v * 2 > den then True else if v * 2 < den then False
                               else trunc_mod (sgn n * u) 2 \<noteq> 0)
             | OtherRounding k \<Rightarrow> Inl (ErrUnknownRounding k)) res"
      using True unfolding mulDivRound_def step res_def
      by (simp only: Let_def ar den' tw rn rem if_True if_False bindE_simps prod.case simp_thms)
    also have "\<dots> = res (bumps mode u v den)"
      using mode odd [OF nz] by (cases mode) (auto simp: mult.commute)
    finally have "mulDivRound a b den mode = res (bumps mode u v den)" .
    also have "\<dots> = (if in_i64 (round_ref mode n den) then Inr (round_ref mode n den) else Inl ErrOverflow)"
      using True nz u0 by (auto simp: ref res_def in_i64_def sgn_if)
    finally show ?thesis by (simp add: n_def)
  next
    case False
    then show ?thesis using u0
      by (auto simp: mulDivRound_def step ref n_def [symmetric] in_i64_def sgn_if)
  qed
qed

lemma round_mag_bound:
  assumes "0 \<le> x" and "0 \<le> num" and "num \<le> d" and d: "0 < d"
  shows "0 \<le> round_mag mode (x * num) d" "round_mag mode (x * num) d \<le> x"
proof -
  have le: "x * num \<le> x * d" using assms by (simp add: mult_left_mono)
  have pos: "0 \<le> x * num" using assms by simp
  then show "0 \<le> round_mag mode (x * num) d" using d by (simp add: round_mag_eq pos_imp_zdiv_nonneg_iff)
  have "x * num div d + (if x * num mod d = 0 then 0 else 1) \<le> x"
  proof (cases "x * num mod d = 0")
    case True
    then show ?thesis using le d zdiv_mono1 [of "x * num" "x * d" d] by simp
  next
    case False
    then have "0 < x * num mod d" using d by (simp add: order_less_le)
    then have "x * num div d * d < x * d" using le by (simp add: minus_mod_eq_div_mult [symmetric])
    then show ?thesis using d False by (simp add: mult_less_cancel_right)
  qed
  then show "round_mag mode (x * num) d \<le> x" using d by (simp add: round_mag_eq split: if_splits)
qed

lemma round_ref_between:
  assumes "0 \<le> num" and "num \<le> d" and "0 < d"
  shows "min 0 x \<le> round_ref mode (x * num) d" "round_ref mode (x * num) d \<le> max 0 x"
proof -
  have b: "0 \<le> round_mag mode (\<bar>x\<bar> * num) d" "round_mag mode (\<bar>x\<bar> * num) d \<le> \<bar>x\<bar>"
    using round_mag_bound [of "\<bar>x\<bar>" num d mode] assms by auto
  have r: "round_ref mode (x * num) d = sgn x * sgn num * round_mag mode (\<bar>x\<bar> * num) d"
    using assms by (simp add: round_ref_def abs_mult sgn_mult)
  show "min 0 x \<le> round_ref mode (x * num) d" "round_ref mode (x * num) d \<le> max 0 x"
    using b assms unfolding r by (auto simp: sgn_if)
qed

lemma round_ref_nonneg: "0 \<le> n \<Longrightarrow> 0 < d \<Longrightarrow> 0 \<le> round_ref mode n d"
  by (auto simp: round_ref_def round_mag_eq pos_imp_zdiv_nonneg_iff sgn_if)

lemma round_ref_0 [simp]: "round_ref mode 0 d = 0"
  by (simp add: round_ref_def)

lemma round_half_up_nearest:
  assumes d: "0 < d"
  shows "2 * \<bar>round_ref HalfUp n d * d - n\<bar> \<le> d"
proof -
  define u v where "u = \<bar>n\<bar> div d" and "v = \<bar>n\<bar> mod d"
  have n: "\<bar>n\<bar> = u * d + v" and v: "0 \<le> v" "v < d" using d by (simp_all add: u_def v_def)
  let ?r = "u + (if v \<noteq> 0 \<and> 2 * v \<ge> d then 1 else 0)"
  have "round_ref HalfUp n d * d - n = sgn n * (?r * d - \<bar>n\<bar>)"
    using round_mag_eq [OF d, of HalfUp "\<bar>n\<bar>"]
    by (simp add: round_ref_def u_def v_def right_diff_distrib mult.assoc sgn_mult_abs)
  moreover have "\<bar>?r * d - \<bar>n\<bar>\<bar> * 2 \<le> d" using v by (auto simp: n algebra_simps)
  ultimately show ?thesis using d by (auto simp: abs_mult sgn_if)
qed

lemma MulRatio_exact:
  assumes "money_ok m" and "in_i64 num" and "0 < den" and "den \<le> 4611686018427387904"
    and "named_mode mode"
  shows "MulRatio m num den mode = (if in_i64 (round_ref mode (minor m * num) den)
    then Inr \<lparr>minor = round_ref mode (minor m * num) den, cur = cur m\<rparr> else Inl ErrOverflow)"
  using assms by (simp add: MulRatio_def mulDivRound_exact money_ok_def)

lemma MulRatio_share:
  assumes "money_ok m" and "0 \<le> num" and "num \<le> den" and "0 < den"
    and "den \<le> 4611686018427387904" and "named_mode mode"
  shows "MulRatio m num den mode = Inr \<lparr>minor = round_ref mode (minor m * num) den, cur = cur m\<rparr>"
proof -
  have "in_i64 num" using assms by (simp add: in_i64_def)
  moreover have "in_i64 (round_ref mode (minor m * num) den)"
    using round_ref_between [where num = num and d = den and x = "minor m" and mode = mode] assms(1-4)
    by (auto simp: money_ok_def in_i64_def)
  ultimately show ?thesis using assms by (simp add: MulRatio_exact)
qed

lemma ApplyBasisPoints_exact:
  assumes "money_ok m" and "in_i64 bps" and "named_mode mode"
  shows "ApplyBasisPoints m bps mode = (if in_i64 (round_ref mode (minor m * bps) 10000)
    then Inr \<lparr>minor = round_ref mode (minor m * bps) 10000, cur = cur m\<rparr> else Inl ErrOverflow)"
  using assms by (simp add: ApplyBasisPoints_def MulRatio_exact)

text \<open>A rate between 0% and 100% can neither overflow nor exceed the amount.\<close>

lemma ApplyBasisPoints_rate:
  assumes "money_ok m" and "0 \<le> bps" and "bps \<le> 10000" and "named_mode mode"
  shows "ApplyBasisPoints m bps mode = Inr \<lparr>minor = round_ref mode (minor m * bps) 10000, cur = cur m\<rparr>"
  using assms by (simp add: ApplyBasisPoints_def MulRatio_share)

subsection \<open>Sum\<close>

lemma Sum_fold_Inr:
  assumes "foldE (\<lambda>m acc. Add acc m) ms acc = Inr r" and "money_ok acc" and "\<forall>m \<in> set ms. money_ok m"
  shows "minor r = minor acc + sum_list (map minor ms) \<and> cur r = cur acc \<and> money_ok r
    \<and> (\<forall>m \<in> set ms. cur m = cur acc)"
  using assms
proof (induction ms arbitrary: acc)
  case (Cons m ms)
  then obtain a where a: "Add acc m = Inr a" and rest: "foldE (\<lambda>m acc. Add acc m) ms a = Inr r" by auto
  have "cur acc = cur m" "a = \<lparr>minor = minor acc + minor m, cur = cur acc\<rparr>" "money_ok a"
    using a Cons.prems by (auto simp: Add_Inr_iff money_ok_def)
  note a = this
  have "\<forall>m \<in> set ms. money_ok m" using Cons.prems by simp
  from Cons.IH [OF rest a(3) this] a(1,2) show ?case by (simp add: a(1))
qed simp

lemma Sum_Inr:
  assumes "Sum ms = Inr r" and "\<forall>m \<in> set ms. money_ok m"
  shows "ms \<noteq> []" "minor r = sum_list (map minor ms)" "money_ok r" "\<forall>m \<in> set ms. cur m = cur r"
proof -
  from assms(1) show ne: "ms \<noteq> []" by (auto simp: Sum_def)
  then obtain m0 rest where ms: "ms = m0 # rest" by (cases ms) auto
  have "foldE (\<lambda>m acc. Add acc m) ms \<lparr>minor = 0, cur = cur m0\<rparr> = Inr r"
    using assms(1) by (simp add: Sum_def ms)
  moreover have "money_ok \<lparr>minor = 0, cur = cur m0\<rparr>" by (simp add: money_ok_def in_i64_def)
  ultimately have h: "minor r = minor \<lparr>minor = 0, cur = cur m0\<rparr> + sum_list (map minor ms)"
    "cur r = cur \<lparr>minor = 0, cur = cur m0\<rparr>" "money_ok r"
    "\<forall>m \<in> set ms. cur m = cur \<lparr>minor = 0, cur = cur m0\<rparr>"
    using Sum_fold_Inr assms(2) by blast+
  show "minor r = sum_list (map minor ms)" using h(1) by simp
  show "money_ok r" by (rule h(3))
  show "\<forall>m \<in> set ms. cur m = cur r" unfolding h(2) by (rule h(4))
qed

lemma Sum_fold_nonneg:
  assumes "\<forall>m \<in> set ms. 0 \<le> minor m \<and> cur m = cur acc" and "0 \<le> minor acc"
    and "minor acc + sum_list (map minor ms) \<le> max_i64"
  shows "foldE (\<lambda>m acc. Add acc m) ms acc =
    Inr \<lparr>minor = minor acc + sum_list (map minor ms), cur = cur acc\<rparr>"
  using assms
proof (induction ms arbitrary: acc)
  case (Cons m ms)
  have s: "0 \<le> sum_list (map minor ms)" using Cons.prems by (intro sum_list_nonneg) auto
  have "Add acc m = Inr \<lparr>minor = minor acc + minor m, cur = cur acc\<rparr>"
    using Cons.prems s by (subst Add_exact) (auto simp: money_ok_def in_i64_def)
  then show ?case using Cons.IH [of "\<lparr>minor = minor acc + minor m, cur = cur acc\<rparr>"] Cons.prems
    by (simp add: add.assoc)
qed simp

lemma Sum_nonneg:
  assumes "ms \<noteq> []" and "\<forall>m \<in> set ms. 0 \<le> minor m \<and> cur m = c"
    and "sum_list (map minor ms) \<le> max_i64"
  shows "Sum ms = Inr \<lparr>minor = sum_list (map minor ms), cur = c\<rparr>"
proof -
  obtain m0 rest where ms: "ms = m0 # rest" using assms(1) by (cases ms) auto
  then have "cur m0 = c" using assms(2) by auto
  then show ?thesis using Sum_fold_nonneg [of ms "\<lparr>minor = 0, cur = c\<rparr>"] assms
    by (simp add: Sum_def ms)
qed

subsection \<open>Allocate\<close>

lemma alloc_total_Inr:
  assumes "foldE (\<lambda>w total. if w < 0 then Inl (ErrAllocateNegativeWeight w)
     else if total > wrap64 (max_i64 - w) then Inl ErrOverflow
     else Inr (wrap64 (total + w))) ws t0 = Inr t"
    and "0 \<le> t0" and "t0 \<le> max_i64" and "\<forall>w \<in> set ws. in_i64 w"
  shows "(\<forall>w \<in> set ws. 0 \<le> w) \<and> t = t0 + sum_list ws \<and> t \<le> max_i64"
  using assms
proof (induction ws arbitrary: t0)
  case (Cons w ws)
  have w: "0 \<le> w" "in_i64 w" using Cons.prems by (auto split: if_splits)
  then have wr: "wrap64 (max_i64 - w) = max_i64 - w" by (simp add: wrap64_id in_i64_def)
  then have le: "t0 + w \<le> max_i64" using Cons.prems w by (auto split: if_splits)
  then have "wrap64 (t0 + w) = t0 + w" using Cons.prems(2) w by (simp add: wrap64_id in_i64_def)
  then show ?case using Cons.IH [of "t0 + w"] Cons.prems w wr le by auto
qed simp

lemma alloc_total_spec:
  assumes "alloc_total ws = Inr t" and "\<forall>w \<in> set ws. in_i64 w"
  shows "\<forall>w \<in> set ws. 0 \<le> w" "t = sum_list ws" "t \<le> max_i64"
  using alloc_total_Inr [of ws 0 t] assms by (simp_all add: alloc_total_def)

lemma fold_wrap_sum:
  "in_i64 a \<Longrightarrow> fold (\<lambda>qr acc. wrap64 (acc + fst qr)) qrs a = wrap64 (a + sum_list (map fst qrs))"
proof (induction qrs arbitrary: a)
  case (Cons qr qrs)
  then show ?case by (simp add: add.assoc)
qed (simp add: wrap64_id)

text \<open>The quotient and remainder of one bucket, and their sums.\<close>

definition quot :: "int \<Rightarrow> int \<Rightarrow> int \<Rightarrow> int" where
  "quot v t w = trunc_div (v * w) t"

definition remd :: "int \<Rightarrow> int \<Rightarrow> int \<Rightarrow> int" where
  "remd v t w = exact_rem (v * w) t"

lemma quot_remd:
  assumes "0 < t" and "0 \<le> w"
  shows "quot v t w * t + remd v t w = v * w" "\<bar>remd v t w\<bar> < t"
    "0 \<le> v \<Longrightarrow> 0 \<le> quot v t w" "0 \<le> v \<Longrightarrow> 0 \<le> remd v t w"
    "v \<le> 0 \<Longrightarrow> quot v t w \<le> 0" "v \<le> 0 \<Longrightarrow> remd v t w \<le> 0"
proof -
  have "sgn (v * w) * (\<bar>v * w\<bar> div t * t + \<bar>v * w\<bar> mod t) = v * w"
    by (simp only: div_mult_mod_eq sgn_mult_abs)
  then have "sgn (v * w) * (\<bar>v * w\<bar> div t * t) + sgn (v * w) * (\<bar>v * w\<bar> mod t) = v * w"
    by (simp only: distrib_left)
  then show "quot v t w * t + remd v t w = v * w"
    using assms by (simp add: quot_def remd_def trunc_div_def exact_rem_def mult.assoc)
  have b: "0 \<le> \<bar>v * w\<bar> mod t" "\<bar>v * w\<bar> mod t < t" "0 \<le> \<bar>v * w\<bar> div t"
    using assms by (auto simp: pos_imp_zdiv_nonneg_iff)
  then show "\<bar>remd v t w\<bar> < t" using assms by (auto simp: remd_def exact_rem_def abs_mult sgn_if)
  show "0 \<le> v \<Longrightarrow> 0 \<le> quot v t w" "0 \<le> v \<Longrightarrow> 0 \<le> remd v t w"
    "v \<le> 0 \<Longrightarrow> quot v t w \<le> 0" "v \<le> 0 \<Longrightarrow> remd v t w \<le> 0"
    using assms b
    by (auto simp: quot_def remd_def trunc_div_def exact_rem_def sgn_mult sgn_if mult_nonpos_nonneg)
qed

lemma quot_remd_sums:
  assumes "0 < t" and "\<forall>w \<in> set ws. 0 \<le> w"
  shows "sum_list (map (quot v t) ws) * t + sum_list (map (remd v t) ws) = v * sum_list ws"
  using assms(2) by (induction ws) (use quot_remd(1) [OF assms(1)] in \<open>auto simp: algebra_simps\<close>)

lemma sum_remd_bound:
  assumes "0 < t" and "\<forall>w \<in> set ws. 0 \<le> w"
  shows "\<bar>sum_list (map (remd v t) ws)\<bar> \<le> int (length ws) * t"
  using assms(2)
proof (induction ws)
  case (Cons w ws)
  have "\<bar>remd v t w\<bar> < t" using Cons.prems quot_remd(2) assms(1) by auto
  then show ?case using Cons by (auto simp: algebra_simps)
qed simp

text \<open>Sum of the quotients: between zero and the amount, so the running total cannot wrap.\<close>

lemma sum_quot_bounds:
  assumes t: "0 < t" "t = sum_list ws" and ws: "\<forall>w \<in> set ws. 0 \<le> w"
  shows "0 \<le> v \<Longrightarrow> 0 \<le> sum_list (map (quot v t) ws) \<and> sum_list (map (quot v t) ws) \<le> v"
    and "v \<le> 0 \<Longrightarrow> v \<le> sum_list (map (quot v t) ws) \<and> sum_list (map (quot v t) ws) \<le> 0"
proof -
  let ?Q = "sum_list (map (quot v t) ws)" and ?R = "sum_list (map (remd v t) ws)"
  have e: "?Q * t + ?R = v * t" using quot_remd_sums [of t ws v] t ws by simp
  show "0 \<le> ?Q \<and> ?Q \<le> v" if "0 \<le> v"
  proof
    show "0 \<le> ?Q" using that ws t by (intro sum_list_nonneg) (auto intro: quot_remd)
    have "0 \<le> ?R" using that ws t by (intro sum_list_nonneg) (auto intro: quot_remd)
    then have "?Q * t \<le> v * t" using e by simp
    then show "?Q \<le> v" using t by simp
  qed
  show "v \<le> ?Q \<and> ?Q \<le> 0" if "v \<le> 0"
  proof
    show "?Q \<le> 0" using that ws t by (intro sum_list_nonpos) (auto intro: quot_remd)
    have "?R \<le> 0" using that ws t by (intro sum_list_nonpos) (auto intro: quot_remd)
    then have "v * t \<le> ?Q * t" using e by simp
    then show "v \<le> ?Q" using t by simp
  qed
qed

lemma sum_quot_min:
  assumes t: "0 < t" "t = sum_list ws" and ws: "\<forall>w \<in> set ws. 0 \<le> w" and mx: "t \<le> max_i64"
  shows "sum_list (map (quot min_i64 t) ws) < 0"
proof (rule ccontr)
  assume nonneg: "\<not> sum_list (map (quot min_i64 t) ws) < 0"
  have "\<exists>w \<in> set ws. 0 < w"
  proof (rule ccontr)
    assume "\<not> (\<exists>w \<in> set ws. 0 < w)"
    then have "sum_list ws \<le> 0" by (intro sum_list_nonpos) auto
    then show False using t by simp
  qed
  then obtain w where w: "w \<in> set ws" "0 < w" by blast
  have "sum_list (map (\<lambda>w. - quot min_i64 t w) ws) = - sum_list (map (quot min_i64 t) ws)"
    by (induction ws) auto
  moreover have "- quot min_i64 t w \<le> sum_list (map (\<lambda>w. - quot min_i64 t w) ws)"
    using w ws t(1) by (intro member_le_sum_list) (use quot_remd(5) [of t _ min_i64] in auto)
  ultimately have "quot min_i64 t w = 0"
    using nonneg quot_remd(5) [of t w min_i64] t w by simp
  then have "remd min_i64 t w = min_i64 * w" "\<bar>remd min_i64 t w\<bar> < t"
    using quot_remd(1,2) [of t w min_i64] t w by simp_all
  then show False using mx w by simp
qed

lemma alloc_best_spec:
  assumes "alloc_best rs i (best, br) = (b, r)"
  shows "br \<le> r" "\<forall>x \<in> set rs. x \<le> r"
    "(b = best \<and> r = br) \<or> (\<exists>k < length rs. b = Some (i + k) \<and> r = rs ! k \<and> br < r)"
proof -
  have "br \<le> r \<and> (\<forall>x \<in> set rs. x \<le> r) \<and>
    ((b = best \<and> r = br) \<or> (\<exists>k < length rs. b = Some (i + k) \<and> r = rs ! k \<and> br < r))"
    using assms
  proof (induction rs arbitrary: i best br)
    case (Cons x rs)
    show ?case
    proof (cases "x > br")
      case True
      then have "alloc_best rs (Suc i) (Some i, x) = (b, r)" using Cons.prems by simp
      from Cons.IH [OF this] True show ?thesis
        by (auto intro: exI [of _ 0] exI [of _ "Suc _"])
    next
      case False
      then have "alloc_best rs (Suc i) (best, br) = (b, r)" using Cons.prems by simp
      from Cons.IH [OF this] False show ?thesis by (auto intro: exI [of _ "Suc _"])
    qed
  qed simp
  then show "br \<le> r" "\<forall>x \<in> set rs. x \<le> r"
    "(b = best \<and> r = br) \<or> (\<exists>k < length rs. b = Some (i + k) \<and> r = rs ! k \<and> br < r)"
    by blast+
qed

lemma alloc_pick_less: "rems \<noteq> [] \<Longrightarrow> alloc_pick rems < length rems"
  using alloc_best_spec(3) [of rems 0 None "-1"]
  by (cases "alloc_best rems 0 (None, -1)") (fastforce simp: alloc_pick_def split: option.splits)

lemma alloc_pick_max:
  assumes "x \<in> set rems" and "-1 < x"
  shows "\<forall>y \<in> set rems. y \<le> rems ! alloc_pick rems" "-1 < rems ! alloc_pick rems"
proof -
  obtain b r where br: "alloc_best rems 0 (None, -1) = (b, r)" by fastforce
  note spec = alloc_best_spec [OF br]
  have "-1 < r" using spec(2) assms by fastforce
  then obtain k where "b = Some k" "r = rems ! k" using spec(3) by auto
  then have "rems ! alloc_pick rems = r" by (simp add: alloc_pick_def br)
  then show "\<forall>y \<in> set rems. y \<le> rems ! alloc_pick rems" "-1 < rems ! alloc_pick rems"
    using spec(2) \<open>-1 < r\<close> by auto
qed

lemma length_alloc_rest [simp]: "length (alloc_rest k step parts rems) = length parts"
  by (induction k arbitrary: parts rems) (simp_all add: Let_def)

text \<open>
  The distribution loop: with \<open>step\<close> of the sign of the parts, no addition wraps and every
  iteration moves exactly one unit.
\<close>

lemma sum_list_update_int:
  "k < length xs \<Longrightarrow> sum_list (xs[k := x]) = sum_list xs + x - xs ! k" for x :: int
  by (induction xs arbitrary: k) (auto split: nat.splits)

lemma alloc_rest_sum:
  assumes "step = 1 \<or> step = -1" and "\<forall>p \<in> set parts. 0 \<le> step * p"
    and "step * sum_list parts + int k \<le> max_i64 + (if step = -1 then 1 else 0)"
    and "length rems = length parts" and "parts \<noteq> []"
  shows "sum_list (alloc_rest k step parts rems) = sum_list parts + int k * step"
  using assms
proof (induction k arbitrary: parts rems)
  case (Suc k)
  let ?b = "alloc_pick rems"
  let ?p = "parts[?b := parts ! ?b + step]"
  have b: "?b < length parts" using Suc.prems(4,5) by (metis alloc_pick_less length_0_conv)
  have s2: "step * step = 1" using Suc.prems(1) by auto
  have nn: "0 \<le> step * (parts ! ?b)" using Suc.prems(2) b by simp
  have "step * (parts ! ?b) \<le> sum_list (map ((*) step) parts)"
    using Suc.prems(2) b by (intro member_le_sum_list) auto
  then have le: "step * (parts ! ?b) \<le> step * sum_list parts" by (simp add: sum_list_const_mult)
  have "in_i64 (parts ! ?b + step)"
    using nn le Suc.prems(1,3) by (auto simp: in_i64_def)
  then have w: "wrap64 (parts ! ?b + step) = parts ! ?b + step" by (rule wrap64_id)
  have sum: "sum_list ?p = sum_list parts + step" using b by (simp add: sum_list_update_int)
  have pos: "\<forall>p \<in> set ?p. 0 \<le> step * p"
  proof
    fix p assume "p \<in> set ?p"
    then consider "p \<in> set parts" | "p = parts ! ?b + step"
      using set_update_subset_insert [of parts ?b] by blast
    then show "0 \<le> step * p" using Suc.prems(2) nn s2 by cases (auto simp: distrib_left)
  qed
  have "step * sum_list ?p + int k \<le> max_i64 + (if step = -1 then 1 else 0)" using Suc.prems(3) sum s2 by (simp add: distrib_left)
  from Suc.IH [OF Suc.prems(1) pos this, of "rems[?b := -1]"] Suc.prems sum w
  show ?case by (simp add: Let_def algebra_simps)
qed simp

text \<open>
  Which buckets get a unit: a set of buckets with positive remainders, none smaller than the
  remainder of a bucket that gets none.
\<close>

lemma alloc_rest_largest:
  assumes len: "length parts = n" "length rems = n" "length q = n" "length r = n"
    and B: "B \<subseteq> {..<n}"
    and parts: "\<forall>i < n. parts ! i = q ! i + (if i \<in> B then 1 else 0)"
    and rems: "\<forall>i < n. rems ! i = (if i \<in> B then -1 else r ! i)"
    and pos: "\<forall>i \<in> B. 0 < r ! i"
    and max: "\<forall>i \<in> B. \<forall>j < n. j \<notin> B \<longrightarrow> r ! j \<le> r ! i"
    and k: "k \<le> card {i. i < n \<and> i \<notin> B \<and> 0 < r ! i}"
    and q: "\<forall>i < n. 0 < r ! i \<longrightarrow> in_i64 (q ! i + 1)"
  shows "\<exists>C. C \<subseteq> {..<n} \<and> card C = card B + k
    \<and> (\<forall>i < n. alloc_rest k 1 parts rems ! i = q ! i + (if i \<in> C then 1 else 0))
    \<and> (\<forall>i \<in> C. 0 < r ! i \<and> (\<forall>j < n. j \<notin> C \<longrightarrow> r ! j \<le> r ! i))"
  using len(1,2) B parts rems pos max k
proof (induction k arbitrary: parts rems B)
  case 0
  then show ?case by (intro exI [of _ B]) auto
next
  case (Suc k)
  let ?b = "alloc_pick rems" and ?P = "{i. i < n \<and> i \<notin> B \<and> 0 < r ! i}"
  have "?P \<noteq> {}" using Suc.prems(8) by (metis card.empty not_less_eq_eq zero_le)
  then obtain i0 where i0: "i0 < n" "i0 \<notin> B" "0 < r ! i0" by auto
  have "r ! i0 \<in> set rems" using i0 Suc.prems(2,5) by (metis nth_mem)
  from alloc_pick_max [OF this] i0
  have mx: "\<forall>y \<in> set rems. y \<le> rems ! ?b" and gt: "-1 < rems ! ?b" by auto
  have b: "?b < n" using i0 Suc.prems(2) by (metis alloc_pick_less length_0_conv not_less_zero)
  then have nB: "?b \<notin> B" and rb: "rems ! ?b = r ! ?b" using Suc.prems(5) gt by (auto split: if_splits)
  have rmax: "\<forall>j < n. j \<notin> B \<longrightarrow> r ! j \<le> r ! ?b"
    using mx rb Suc.prems(2,5) by (metis nth_mem)
  have rpos: "0 < r ! ?b" using rmax i0 by fastforce
  have w: "wrap64 (parts ! ?b + 1) = q ! ?b + 1" using b nB rpos Suc.prems(4) q by (simp add: wrap64_id)
  have fin: "finite B" using Suc.prems(3) finite_subset by blast
  have P': "{i. i < n \<and> i \<notin> insert ?b B \<and> 0 < r ! i} = ?P - {?b}" by auto
  have "k \<le> card (?P - {?b})" using Suc.prems(8) b nB rpos by (simp add: card_Diff_singleton)
  then have "k \<le> card {i. i < n \<and> i \<notin> insert ?b B \<and> 0 < r ! i}" unfolding P' .
  from Suc.IH [of "parts[?b := wrap64 (parts ! ?b + 1)]" "rems[?b := -1]" "insert ?b B", OF _ _ _ _ _ _ _ this]
  have "\<exists>C. C \<subseteq> {..<n} \<and> card C = card (insert ?b B) + k
    \<and> (\<forall>i < n. alloc_rest k 1 (parts[?b := wrap64 (parts ! ?b + 1)]) (rems[?b := -1]) ! i = q ! i + (if i \<in> C then 1 else 0))
    \<and> (\<forall>i \<in> C. 0 < r ! i \<and> (\<forall>j < n. j \<notin> C \<longrightarrow> r ! j \<le> r ! i))"
    using Suc.prems b nB rpos rmax w by (auto simp: nth_list_update)
  then show ?case using fin nB by (simp add: Let_def)
qed

text \<open>\<open>Allocate\<close> opened up: what the two loops compute when the weights are accepted.\<close>

lemma diff_in_i64:
  assumes "min_i64 \<le> v" "v \<le> max_i64" "0 \<le> v \<Longrightarrow> 0 \<le> q \<and> q \<le> v" "v \<le> 0 \<Longrightarrow> v \<le> q \<and> q \<le> 0"
    and "v = min_i64 \<longrightarrow> q < 0"
  shows "in_i64 (v - q)" "in_i64 (q - v)"
  using assms by (cases "0 \<le> v"; simp add: in_i64_def; linarith)+

lemma Allocate_Inr:
  assumes A: "Allocate m ws = Inr ps" and m: "money_ok m" and ws: "\<forall>w \<in> set ws. in_i64 w"
  obtains t left step where
    "ws \<noteq> []" "\<forall>w \<in> set ws. 0 \<le> w" "t = sum_list ws" "0 < t" "t \<le> max_i64"
    "step = (if minor m - sum_list (map (quot (minor m) t) ws) < 0 then -1 else 1)"
    "int left = \<bar>minor m - sum_list (map (quot (minor m) t) ws)\<bar>"
    "ps = map (\<lambda>v. \<lparr>minor = v, cur = cur m\<rparr>)
       (alloc_rest left step (map (quot (minor m) t) ws) (map (remd (minor m) t) ws))"
proof -
  let ?v = "minor m"
  obtain t where t: "alloc_total ws = Inr t" "t \<noteq> 0" and ne: "ws \<noteq> []"
    using A by (auto simp: Allocate_def split: if_splits)
  note tot = alloc_total_spec [OF t(1) ws]
  have "0 \<le> sum_list ws" using tot(1) by (intro sum_list_nonneg) auto
  then have t0: "0 < t" using t(2) tot(2) by simp
  have it: "in_i64 t" using t0 tot(3) by (simp add: in_i64_def)
  note Qb = sum_quot_bounds [OF t0 tot(2,1), of ?v]
  have qrs: "mapE (\<lambda>w. mulDivRem ?v w t) ws = Inr (map (\<lambda>w. (quot ?v t w, remd ?v t w)) ws)"
  proof (rule mapE_all_Inr)
    fix w assume w: "w \<in> set ws"
    then have wt: "0 \<le> w" "w \<le> t" using tot(1,2) member_le_sum_list [of w ws] by auto
    have "in_i64 (quot ?v t w)"
    proof (cases "0 \<le> ?v")
      case True
      have "quot ?v t w * t \<le> ?v * w" using quot_remd(1,4) [OF t0 wt(1), of ?v] True by simp
      also have "\<dots> \<le> ?v * t" using True wt by (simp add: mult_left_mono)
      finally have "quot ?v t w \<le> ?v" using t0 by simp
      then show ?thesis using quot_remd(3) [OF t0 wt(1) True] m by (simp add: money_ok_def in_i64_def)
    next
      case False
      have "?v * t \<le> ?v * w" using False wt by (simp add: mult_left_mono_neg)
      also have "\<dots> \<le> quot ?v t w * t" using quot_remd(1,6) [OF t0 wt(1), of ?v] False by simp
      finally have "?v \<le> quot ?v t w" using t0 by simp
      then show ?thesis using quot_remd(5) [OF t0 wt(1), of ?v] False m by (simp add: money_ok_def in_i64_def)
    qed
    then show "mulDivRem ?v w t = Inr (quot ?v t w, remd ?v t w)"
      using mulDivRem_exact [of ?v w t] m ws w it t0 by (simp add: money_ok_def quot_def remd_def)
  qed
  let ?Q = "sum_list (map (quot ?v t) ws)"
  have fs: "fst \<circ> (\<lambda>w. (quot ?v t w, remd ?v t w)) = quot ?v t"
    "snd \<circ> (\<lambda>w. (quot ?v t w, remd ?v t w)) = remd ?v t" by auto
  have "in_i64 ?Q" using Qb m unfolding money_ok_def in_i64_def by linarith
  then have al: "fold (\<lambda>qr acc. wrap64 (acc + fst qr)) (map (\<lambda>w. (quot ?v t w, remd ?v t w)) ws) 0 = ?Q"
    by (subst fold_wrap_sum) (simp_all add: in_i64_def fs wrap64_id)
  have mn: "?v = min_i64 \<longrightarrow> ?Q < 0" using sum_quot_min [OF t0 tot(2,1,3)] by (intro impI) simp
  have vr: "min_i64 \<le> ?v" "?v \<le> max_i64" using m by (simp_all add: money_ok_def in_i64_def)
  note d = diff_in_i64 [OF vr Qb mn]
  have ps: "ps = map (\<lambda>v. \<lparr>minor = v, cur = cur m\<rparr>) (alloc_rest
      (nat \<bar>?v - ?Q\<bar>) (if ?v - ?Q < 0 then -1 else 1)
      (map (quot ?v t) ws) (map (remd ?v t) ws))"
  proof -
    have w: "wrap64 (?v - ?Q) = ?v - ?Q" "wrap64 (- (?v - ?Q)) = ?Q - ?v"
      using d by (simp_all add: wrap64_id)
    have "Allocate m ws = Inr (map (\<lambda>v. \<lparr>minor = v, cur = cur m\<rparr>) (alloc_rest
      (nat \<bar>?v - ?Q\<bar>) (if ?v - ?Q < 0 then -1 else 1)
      (map (quot ?v t) ws) (map (remd ?v t) ws)))"
      unfolding Allocate_def t(1) qrs bindE_simps al Let_def w using ne t(2) by (simp add: fs abs_if)
    then show ?thesis using A by simp
  qed
  show ?thesis
    by (rule that [OF ne tot(1,2) t0 tot(3) refl _ ps]) auto
qed

lemma Allocate_conserve:
  assumes "Allocate m ws = Inr ps" and m: "money_ok m" and "\<forall>w \<in> set ws. in_i64 w"
  shows "sum_list (map minor ps) = minor m \<and> length ps = length ws \<and> (\<forall>p \<in> set ps. cur p = cur m)"
proof -
  let ?v = "minor m"
  from Allocate_Inr [OF assms] obtain t left step where
    ne: "ws \<noteq> []" and ws: "\<forall>w \<in> set ws. 0 \<le> w" and t: "t = sum_list ws" "0 < t"
    and step: "step = (if ?v - sum_list (map (quot ?v t) ws) < 0 then -1 else 1)"
    and left: "int left = \<bar>?v - sum_list (map (quot ?v t) ws)\<bar>"
    and ps: "ps = map (\<lambda>v. \<lparr>minor = v, cur = cur m\<rparr>)
       (alloc_rest left step (map (quot ?v t) ws) (map (remd ?v t) ws))" by metis
  let ?q = "map (quot ?v t) ws"
  note Qb = sum_quot_bounds [OF t(2,1) ws, of ?v]
  have "sum_list (alloc_rest left step ?q (map (remd ?v t) ws)) = sum_list ?q + int left * step"
  proof (cases left)
    case (Suc k)
    show ?thesis
    proof (rule alloc_rest_sum)
      show "\<forall>p \<in> set ?q. 0 \<le> step * p"
      proof (cases "0 \<le> ?v")
        case True
        then show ?thesis using quot_remd(3) [OF t(2)] ws Qb(1) step by auto
      next
        case False
        then show ?thesis using quot_remd(5) [OF t(2)] ws Qb(2) step left Suc by auto
      qed
      show "step * sum_list ?q + int left \<le> max_i64 + (if step = -1 then 1 else 0)"
        using left step Qb m by (auto simp: money_ok_def in_i64_def)
    qed (use ne step in auto)
  qed simp
  also have "\<dots> = ?v" using left step by auto
  finally show ?thesis using ps by (auto simp: comp_def)
qed

lemma Allocate_largest:
  assumes "Allocate m ws = Inr ps" and m: "money_ok m" and "\<forall>w \<in> set ws. in_i64 w" and v: "0 \<le> minor m"
  defines "t \<equiv> sum_list ws"
  shows "\<exists>C \<subseteq> {..<length ws}. int (card C) = minor m - (\<Sum>w\<leftarrow>ws. minor m * w div t)
    \<and> (\<forall>i < length ws. minor (ps ! i) = minor m * (ws ! i) div t + (if i \<in> C then 1 else 0))
    \<and> (\<forall>i \<in> C. 0 < minor m * (ws ! i) mod t
        \<and> (\<forall>j < length ws. j \<notin> C \<longrightarrow> minor m * (ws ! j) mod t \<le> minor m * (ws ! i) mod t))"
proof -
  let ?v = "minor m" and ?n = "length ws"
  from Allocate_Inr [OF assms(1-3)] obtain left step where
    ne: "ws \<noteq> []" and ws: "\<forall>w \<in> set ws. 0 \<le> w" and t: "0 < t" "t \<le> max_i64"
    and step: "step = (if ?v - sum_list (map (quot ?v t) ws) < 0 then -1 else 1)"
    and left: "int left = \<bar>?v - sum_list (map (quot ?v t) ws)\<bar>"
    and ps: "ps = map (\<lambda>v. \<lparr>minor = v, cur = cur m\<rparr>)
       (alloc_rest left step (map (quot ?v t) ws) (map (remd ?v t) ws))"
    unfolding t_def by metis
  let ?Q = "sum_list (map (quot ?v t) ws)" and ?P = "{i. i < ?n \<and> 0 < remd ?v t (ws ! i)}"
  have Qb: "0 \<le> ?Q" "?Q \<le> ?v"
    using sum_quot_bounds(1) [OF t(1) meta_eq_to_obj_eq [OF t_def] ws v] by simp_all
  have q: "quot ?v t w = ?v * w div t" and r: "remd ?v t w = ?v * w mod t" if "w \<in> set ws" for w
    using that ws v t(1) by (auto simp: quot_def remd_def exact_rem_def sgn_if zero_less_mult_iff order.order_iff_strict)
  have "?Q * t + sum_list (map (remd ?v t) ws) = ?v * t"
    using quot_remd_sums [OF t(1) ws, of ?v] t_def by simp
  moreover have "int left = ?v - ?Q" using left Qb by simp
  ultimately have "int left * t = sum_list (map (remd ?v t) ws)" by (simp add: left_diff_distrib)
  also have "\<dots> = (\<Sum>i < ?n. remd ?v t (ws ! i))" by (simp add: sum_list_sum_nth atLeast0LessThan)
  also have "\<dots> \<le> (\<Sum>i < ?n. if i \<in> ?P then t else 0)"
    by (intro sum_mono) (use quot_remd(2) [OF t(1), of _ ?v] ws in \<open>auto simp: abs_less_iff less_imp_le\<close>)
  also have "\<dots> = (\<Sum>i \<in> ?P. t)" by (rule sum.mono_neutral_cong_right) auto
  also have "\<dots> = int (card ?P) * t" by simp
  finally have lc: "left \<le> card ?P" using t(1) by simp
  have qi: "in_i64 (quot ?v t (ws ! i) + 1)" if "i < ?n" "0 < remd ?v t (ws ! i)" for i
  proof -
    have w: "0 \<le> ws ! i" "ws ! i \<le> t"
      using that(1) ws member_le_sum_list [of "ws ! i" ws] by (auto simp: t_def)
    have "quot ?v t (ws ! i) * t < ?v * (ws ! i)" using quot_remd(1) [OF t(1) w(1), of ?v] that(2) by simp
    also have "\<dots> \<le> ?v * t" using v w by (simp add: mult_left_mono)
    finally have "quot ?v t (ws ! i) < ?v" using t(1) by simp
    then show ?thesis using quot_remd(3) [OF t(1) w(1) v] m by (simp add: money_ok_def in_i64_def)
  qed
  have "\<exists>C. C \<subseteq> {..<?n} \<and> card C = card ({} :: nat set) + left
    \<and> (\<forall>i < ?n. alloc_rest left 1 (map (quot ?v t) ws) (map (remd ?v t) ws) ! i
         = map (quot ?v t) ws ! i + (if i \<in> C then 1 else 0))
    \<and> (\<forall>i \<in> C. 0 < map (remd ?v t) ws ! i \<and> (\<forall>j < ?n. j \<notin> C \<longrightarrow> map (remd ?v t) ws ! j \<le> map (remd ?v t) ws ! i))"
  proof (rule alloc_rest_largest)
    have "{i. i < ?n \<and> i \<notin> {} \<and> 0 < map (remd ?v t) ws ! i} = ?P" by auto
    with lc show "left \<le> card {i. i < ?n \<and> i \<notin> {} \<and> 0 < map (remd ?v t) ws ! i}" by simp
  qed (use qi in auto)
  then obtain C where C: "C \<subseteq> {..<?n}" "card C = left"
    "\<forall>i < ?n. alloc_rest left 1 (map (quot ?v t) ws) (map (remd ?v t) ws) ! i
         = map (quot ?v t) ws ! i + (if i \<in> C then 1 else 0)"
    "\<forall>i \<in> C. 0 < map (remd ?v t) ws ! i \<and> (\<forall>j < ?n. j \<notin> C \<longrightarrow> map (remd ?v t) ws ! j \<le> map (remd ?v t) ws ! i)"
    by auto
  have Qs: "?Q = (\<Sum>w\<leftarrow>ws. ?v * w div t)" by (rule arg_cong [where f = sum_list]) (simp add: q)
  have "step = 1" using step Qb by simp
  then show ?thesis using C ps left Qb q r Qs
    by (intro exI [of _ C]) (auto simp: subset_iff)
qed

subsection \<open>Rendering and parsing\<close>

definition Decimal :: "money \<Rightarrow> string" where
  "Decimal m = (let e = (case map_of exponents (cur m) of None \<Rightarrow> 2 | Some e \<Rightarrow> e);
       neg = (minor m < 0);
       u = fst (absU64 (minor m));
       s = dec_nat (nat u)
     in if e = 0 then (if neg then ''-'' @ s else s)
        else let s = pad0 (e + 1) s;
                 out = take (length s - e) s @ ''.'' @ drop (length s - e) s
             in if neg then ''-'' @ out else out)"

definition String :: "money \<Rightarrow> string" where
  "String m = cur m @ '' '' @ Decimal m"

text \<open>\<open>strconv.ParseInt(digits, 10, 64)\<close> on a string of decimal digits.\<close>

definition ParseInt64 :: "string \<Rightarrow> money_error + int" where
  "ParseInt64 digits = (let v = int (parse_digits digits) in
     if v > max_i64 then Inl ErrOverflow else Inr v)"

definition Parse :: "string \<Rightarrow> string \<Rightarrow> money_error + money" where
  "Parse s c = bindE (Exponent c) (\<lambda>e.
     let s = trim_space (filter (\<lambda>x. x \<noteq> CHR '','') s);
         s = trim_space (trim_prefix s c)
     in if s = [] then Inl (ErrParse ''empty'')
        else let neg = (hd s = CHR ''-'');
                 s = (if hd s = CHR ''-'' \<or> hd s = CHR ''+'' then tl s else s);
                 intPart = takeWhile (\<lambda>x. x \<noteq> CHR ''.'') s;
                 fracPart = drop 1 (dropWhile (\<lambda>x. x \<noteq> CHR ''.'') s);
                 intPart = (if intPart = [] then ''0'' else intPart)
             in if length fracPart > e then Inl (ErrParse s)
                else let digits = intPart @ fracPart @ replicate (e - length fracPart) (CHR ''0'')
                     in if \<exists>r \<in> set digits. \<not> is_digit r then Inl (ErrParse s)
                        else bindE (ParseInt64 digits) (\<lambda>v.
                          Inr \<lparr>minor = (if neg then wrap64 (- v) else v), cur = c\<rparr>))"

definition Value :: "money \<Rightarrow> int" where
  "Value m = minor m"

definition MarshalJSON :: "money \<Rightarrow> string" where
  "MarshalJSON m = ''{\"minor\":'' @ dec_int (minor m) @ '',\"currency\":\"'' @ cur m
     @ ''\",\"display\":\"'' @ Decimal m @ ''\"}''"

text \<open>The decimal form, split at its point: sign, whole part, fraction of exactly the exponent's width.\<close>

lemma Decimal_shape:
  assumes m: "money_ok m" and e: "Exponent (cur m) = Inr e"
  obtains ip fp where
    "Decimal m = (if minor m < 0 then ''-'' else []) @ ip @ (if e = 0 then [] else ''.'' @ fp)"
    "ip \<noteq> []" "length fp = e" "\<forall>c \<in> set (ip @ fp). is_digit c"
    "int (parse_digits (ip @ fp)) = \<bar>minor m\<bar>"
proof -
  have me: "map_of exponents (cur m) = Some e" using e by (simp add: Exponent_def split: option.splits)
  have u: "int (nat (fst (absU64 (minor m)))) = \<bar>minor m\<bar>"
    using absU64_eq [of "minor m"] m by (simp add: money_ok_def)
  let ?s = "dec_nat (nat (fst (absU64 (minor m))))"
  show ?thesis
  proof (cases "e = 0")
    case True
    show ?thesis
      by (rule that [of ?s "[]"])
        (use me True u dec_nat_digits in \<open>auto simp: Decimal_def Let_def\<close>)
  next
    case False
    let ?p = "pad0 (e + 1) ?s"
    have l: "e < length ?p" by simp
    have pn: "pad0 (Suc e) ?s \<noteq> []" by (simp add: pad0_def)
    have jn: "take (length ?p - e) ?p @ drop (length ?p - e) ?p = ?p" by simp
    have dg: "\<forall>c \<in> set ?p. is_digit c" by (rule pad0_digits [OF dec_nat_digits])
    show ?thesis
      by (rule that [of "take (length ?p - e) ?p" "drop (length ?p - e) ?p"])
        (use me False u l pn dg in \<open>simp_all add: Decimal_def Let_def jn del: length_pad0\<close>)
  qed
qed

text \<open>The part of \<open>Parse\<close> after the two trims, on a rendered amount.\<close>

lemma Parse_core:
  assumes s: "trim_space (trim_prefix (trim_space (filter (\<lambda>x. x \<noteq> CHR '','') s)) (cur m)) = Decimal m"
    and m: "money_ok m" "minor m \<noteq> min_i64" and v: "Valid (cur m)"
  shows "Parse s (cur m) = Inr m"
proof -
  obtain e where e: "Exponent (cur m) = Inr e"
    using v by (auto simp: Valid_def Exponent_def)
  from Decimal_shape [OF m(1) e] obtain ip fp where
    D: "Decimal m = (if minor m < 0 then ''-'' else []) @ ip @ (if e = 0 then [] else ''.'' @ fp)"
    and ip: "ip \<noteq> []" and fp: "length fp = e" and dg: "\<forall>c \<in> set (ip @ fp). is_digit c"
    and val: "int (parse_digits (ip @ fp)) = \<bar>minor m\<bar>" by blast
  have nd: "\<not> is_digit (CHR ''.'')" "\<not> is_digit (CHR ''-'')" "\<not> is_digit (CHR ''+'')"
    by (simp_all add: is_digit_def)
  have ne: "Decimal m \<noteq> []" using D ip by auto
  have hd: "hd (Decimal m) = (if minor m < 0 then CHR ''-'' else hd ip)" using D ip by auto
  have hip: "is_digit (hd ip)" using ip dg by (cases ip) auto
  then have h: "hd ip \<noteq> CHR ''-''" "hd ip \<noteq> CHR ''+''" using nd by auto
  have body: "(if hd (Decimal m) = CHR ''-'' \<or> hd (Decimal m) = CHR ''+'' then tl (Decimal m) else Decimal m)
      = ip @ (if e = 0 then [] else ''.'' @ fp)"
    using hd h D by auto
  have ipd: "\<forall>c \<in> set ip. c \<noteq> CHR ''.''" using dg nd(1) by auto
  have tw: "takeWhile (\<lambda>x. x \<noteq> CHR ''.'') (ip @ (if e = 0 then [] else ''.'' @ fp)) = ip"
    "drop 1 (dropWhile (\<lambda>x. x \<noteq> CHR ''.'') (ip @ (if e = 0 then [] else ''.'' @ fp))) = fp"
    using ipd fp by (auto simp: takeWhile_append dropWhile_append)
  have pi: "ParseInt64 (ip @ fp) = Inr \<bar>minor m\<bar>"
    using val m by (auto simp: ParseInt64_def Let_def money_ok_def in_i64_def)
  have ng: "hd (Decimal m) = CHR ''-'' \<longleftrightarrow> minor m < 0" using hd h by simp
  have w: "wrap64 (minor m) = minor m" using m by (simp add: money_ok_def wrap64_id)
  show ?thesis
    unfolding Parse_def e bindE_simps s Let_def body tw using ne ip fp dg pi ng w
    by (auto simp: abs_if)
qed

lemma Decimal_chars:
  assumes m: "money_ok m" and v: "Valid (cur m)"
  shows "Decimal m \<noteq> []" "plain (hd (Decimal m))" "plain (last (Decimal m))"
    "\<forall>c \<in> set (Decimal m). c \<noteq> CHR '',''" "\<forall>c \<in> set (Decimal m). is_digit c \<or> c = CHR ''-'' \<or> c = CHR ''.''"
proof -
  obtain e where e: "Exponent (cur m) = Inr e"
    using v by (auto simp: Valid_def Exponent_def)
  from Decimal_shape [OF m e] obtain ip fp where
    D: "Decimal m = (if minor m < 0 then ''-'' else []) @ ip @ (if e = 0 then [] else ''.'' @ fp)"
    and ip: "ip \<noteq> []" and fp: "length fp = e" and dg: "\<forall>c \<in> set (ip @ fp). is_digit c" by blast
  show ne: "Decimal m \<noteq> []" using D ip by auto
  show cs: "\<forall>c \<in> set (Decimal m). is_digit c \<or> c = CHR ''-'' \<or> c = CHR ''.''"
    using D dg by auto
  have pl: "\<forall>c \<in> set (Decimal m). plain c" using cs digit_plain by (auto simp: plain_def)
  then show "plain (hd (Decimal m))" "plain (last (Decimal m))" using ne by auto
  show "\<forall>c \<in> set (Decimal m). c \<noteq> CHR '',''" using cs by (auto simp: is_digit_def)
qed

lemma Valid_shape:
  assumes "Valid c"
  shows "c \<noteq> []" "plain (hd c)" "\<forall>x \<in> set c. x \<noteq> CHR ''.'' \<and> x \<noteq> CHR ''-'' \<and> \<not> is_digit x \<and> x \<noteq> CHR '',''"
  using assms by (auto simp: Valid_def exponents_def plain_def is_digit_def split: if_splits)

lemma Parse_Decimal_id:
  assumes m: "money_ok m" "minor m \<noteq> min_i64" and v: "Valid (cur m)"
  shows "Parse (Decimal m) (cur m) = Inr m"
proof (rule Parse_core [OF _ m v])
  note D = Decimal_chars [OF m(1) v] and V = Valid_shape [OF v]
  have f: "filter (\<lambda>x. x \<noteq> CHR '','') (Decimal m) = Decimal m" using D(4) by (simp add: filter_id_conv)
  have "take (length (cur m)) (Decimal m) \<noteq> cur m"
  proof
    assume "take (length (cur m)) (Decimal m) = cur m"
    then have "hd (cur m) \<in> set (Decimal m)" using V(1) by (metis hd_in_set in_set_takeD)
    then show False using D(5) V(1,3) by (meson hd_in_set)
  qed
  then have "trim_prefix (Decimal m) (cur m) = Decimal m" by (simp add: trim_prefix_def)
  then show "trim_space (trim_prefix (trim_space (filter (\<lambda>x. x \<noteq> CHR '','') (Decimal m))) (cur m)) = Decimal m"
    using trim_space_plain [OF D(1-3)] f by simp
qed

lemma Parse_String_id:
  assumes m: "money_ok m" "minor m \<noteq> min_i64" and v: "Valid (cur m)"
  shows "Parse (String m) (cur m) = Inr m"
proof (rule Parse_core [OF _ m v])
  note D = Decimal_chars [OF m(1) v] and V = Valid_shape [OF v]
  have f: "filter (\<lambda>x. x \<noteq> CHR '','') (String m) = String m"
    using D(4) V(3) by (auto simp: filter_id_conv String_def)
  have "trim_space (String m) = String m"
    by (rule trim_space_plain) (use D(1-3) V(1,2) in \<open>simp_all add: String_def\<close>)
  then show "trim_space (trim_prefix (trim_space (filter (\<lambda>x. x \<noteq> CHR '','') (String m))) (cur m)) = Decimal m"
    using trim_space_blank [OF D(1-3)] f by (simp add: trim_prefix_def String_def)
qed

interpretation decimal_text: roundtrip Decimal "\<lambda>s. Parse s c"
    "\<lambda>m. money_ok m \<and> minor m \<noteq> min_i64 \<and> cur m = c \<and> Valid c" for c
  by unfold_locales (auto intro: Parse_Decimal_id)

subsection \<open>Properties\<close>

text \<open>
  C23: addition and subtraction are exact or fail: on amounts of one currency each
  returns the integer result when it fits in 64 bits and \<open>ErrOverflow\<close> otherwise (subtraction
  also refuses the most negative amount, which it cannot negate), and amounts of different
  currencies are always refused.
\<close>

theorem add_sub_exact:
  assumes "money_ok m" and "money_ok n"
  shows "Add m n = (if cur m \<noteq> cur n then Inl (ErrCurrencyMismatch (cur m) (cur n))
      else if in_i64 (minor m + minor n) then Inr \<lparr>minor = minor m + minor n, cur = cur m\<rparr>
      else Inl ErrOverflow)
    \<and> Sub m n = (if cur m \<noteq> cur n then Inl (ErrCurrencyMismatch (cur m) (cur n))
      else if minor n \<noteq> min_i64 \<and> in_i64 (minor m - minor n) then Inr \<lparr>minor = minor m - minor n, cur = cur m\<rparr>
      else Inl ErrOverflow)"
  using Add_exact [OF assms] Sub_exact [OF assms] Add_mismatch
  by (simp add: Sub_def sameCurrency_def)

theorem add_sub_exact_witness:
  "Add \<lparr>minor = max_i64, cur = INR\<rparr> \<lparr>minor = 1, cur = INR\<rparr> = Inl ErrOverflow
   \<and> Sub \<lparr>minor = 5, cur = INR\<rparr> \<lparr>minor = 7, cur = INR\<rparr> = Inr \<lparr>minor = -2, cur = INR\<rparr>"
  using add_sub_exact [of "\<lparr>minor = max_i64, cur = INR\<rparr>" "\<lparr>minor = 1, cur = INR\<rparr>"]
    add_sub_exact [of "\<lparr>minor = 5, cur = INR\<rparr>" "\<lparr>minor = 7, cur = INR\<rparr>"]
  by (simp add: money_ok_def in_i64_def)

text \<open>
  C22: \<open>MulRatio\<close> goes through a 128-bit product, so for a positive denominator up to
  2^62 it is the rational number \<open>minor * num / den\<close> rounded in the named mode (toward zero,
  away from zero, half away from zero, half to even), or \<open>ErrOverflow\<close> when that integer does
  not fit; no intermediate overflow changes the result.
\<close>

theorem ratio_exact:
  assumes "money_ok m" and "in_i64 num" and "0 < den" and "den \<le> 4611686018427387904"
    and "named_mode mode"
  shows "MulRatio m num den mode =
      (let r = round_ref mode (minor m * num) den in
       if in_i64 r then Inr \<lparr>minor = r, cur = cur m\<rparr> else Inl ErrOverflow)"
  using MulRatio_exact [OF assms] by (simp add: Let_def)

theorem ratio_exact_witness:
  "MulRatio \<lparr>minor = max_i64, cur = INR\<rparr> 18 100 HalfUp = Inr \<lparr>minor = 1660206966633859645, cur = INR\<rparr>"
proof -
  have "round_ref HalfUp (max_i64 * 18) 100 = 1660206966633859645"
    by (simp add: round_ref_def round_mag_def)
  then show ?thesis using ratio_exact [of "\<lparr>minor = max_i64, cur = INR\<rparr>" 18 100 HalfUp]
    by (simp add: money_ok_def in_i64_def Let_def)
qed

text \<open>
  Past 2^62 the doubling of the remainder wraps and the rounding is wrong: half up of
  \<open>(2^63 - 2) / (2^63 - 1)\<close> is 1, the code returns 0.
\<close>

theorem mulDivRound_wraps:
  "mulDivRound (max_i64 - 1) 1 max_i64 HalfUp = Inr 0 \<and> round_ref HalfUp (max_i64 - 1) max_i64 = 1"
  by code_simp

text \<open>
  C20: whatever \<open>Allocate\<close> returns, the parts sum to the amount exactly, there
  is one part per weight, and every part has the amount's currency; this holds for positive
  and negative amounts and for every list of weights the function accepts.
\<close>

theorem allocate_conserves:
  assumes "Allocate m ws = Inr ps" and "money_ok m" and "\<forall>w \<in> set ws. in_i64 w"
  shows "sum_list (map minor ps) = minor m \<and> length ps = length ws \<and> (\<forall>p \<in> set ps. cur p = cur m)"
  using assms by (rule Allocate_conserve)

theorem allocate_conserves_witness:
  "\<exists>ps. Allocate \<lparr>minor = 100, cur = INR\<rparr> [1, 1, 1] = Inr ps \<and> sum_list (map minor ps) = 100"
proof -
  have a: "Allocate \<lparr>minor = 100, cur = INR\<rparr> [1, 1, 1]
      = Inr [\<lparr>minor = 34, cur = INR\<rparr>, \<lparr>minor = 33, cur = INR\<rparr>, \<lparr>minor = 33, cur = INR\<rparr>]"
    by code_simp
  show ?thesis using allocate_conserves [OF a] a by (auto simp: money_ok_def in_i64_def)
qed

text \<open>
  C21: for a non-negative amount \<open>Allocate\<close> is the largest-remainder
  method: every part is the floor of its exact share plus at most one unit, and the units that
  are left go to buckets with a positive remainder none of which is smaller than the remainder
  of a bucket that got none.
\<close>

theorem allocate_largest_remainder:
  assumes "Allocate m ws = Inr ps" and "money_ok m" and "\<forall>w \<in> set ws. in_i64 w" and "0 \<le> minor m"
  shows "\<exists>C \<subseteq> {..<length ws}. int (card C) = minor m - (\<Sum>w\<leftarrow>ws. minor m * w div sum_list ws)
    \<and> (\<forall>i < length ws. minor (ps ! i) = minor m * (ws ! i) div sum_list ws + (if i \<in> C then 1 else 0))
    \<and> (\<forall>i \<in> C. 0 < minor m * (ws ! i) mod sum_list ws
        \<and> (\<forall>j < length ws. j \<notin> C \<longrightarrow> minor m * (ws ! j) mod sum_list ws \<le> minor m * (ws ! i) mod sum_list ws))"
  using assms by (rule Allocate_largest)

theorem allocate_largest_remainder_witness:
  "\<exists>C \<subseteq> {..<3::nat}. int (card C) = 1 \<and> (\<forall>i \<in> C. 0 < 100 * ([1, 1, 1::int] ! i) mod 3)"
proof -
  have a: "Allocate \<lparr>minor = 100, cur = INR\<rparr> [1, 1, 1]
      = Inr [\<lparr>minor = 34, cur = INR\<rparr>, \<lparr>minor = 33, cur = INR\<rparr>, \<lparr>minor = 33, cur = INR\<rparr>]"
    by code_simp
  show ?thesis using allocate_largest_remainder [OF a]
    by (simp add: money_ok_def in_i64_def numeral_3_eq_3) blast
qed

text \<open>
  On a negative amount the method breaks down: the remainders are negative, so the first unit
  left over goes to a bucket with no remainder, here one whose weight is zero.
\<close>

theorem allocate_negative_hits_zero_weight:
  "Allocate \<lparr>minor = -10, cur = INR\<rparr> [0, 1, 2]
   = Inr [\<lparr>minor = -1, cur = INR\<rparr>, \<lparr>minor = -3, cur = INR\<rparr>, \<lparr>minor = -6, cur = INR\<rparr>]"
  by code_simp

text \<open>
  C24: \<open>Parse\<close> reads back what \<open>Decimal\<close> and \<open>String\<close> print, digit for digit and
  without floating point, for every amount in a known currency except the most negative one;
  so the printed decimal determines the amount.
\<close>

theorem decimal_roundtrip:
  assumes "money_ok m" and "minor m \<noteq> min_i64" and "Valid (cur m)"
  shows "Parse (Decimal m) (cur m) = Inr m \<and> Parse (String m) (cur m) = Inr m
    \<and> (\<forall>n. money_ok n \<longrightarrow> minor n \<noteq> min_i64 \<longrightarrow> cur n = cur m \<longrightarrow> Decimal n = Decimal m \<longrightarrow> n = m)"
  using decimal_text.dec_enc [of m "cur m"] decimal_text.enc_inject [of _ "cur m" m]
    Parse_String_id [OF assms] assms by simp

theorem decimal_roundtrip_witness:
  "Parse (Decimal \<lparr>minor = -7, cur = INR\<rparr>) INR = Inr \<lparr>minor = -7, cur = INR\<rparr>"
  using decimal_roundtrip [of "\<lparr>minor = -7, cur = INR\<rparr>"]
  by (simp add: money_ok_def in_i64_def INR_def Valid_def exponents_def)

text \<open>A lone sign or point parses as zero.\<close>

theorem parse_accepts_lone_sign:
  "Parse ''-'' INR = Inr \<lparr>minor = 0, cur = INR\<rparr> \<and> Parse ''.'' INR = Inr \<lparr>minor = 0, cur = INR\<rparr>"
  by code_simp

end
