(* ===== verification/CivilTime.thy ===== *)
theory CivilTime
  imports Prelude
begin

text \<open>
  The part of Go's \<open>time\<close> package the tax and rate-limit code uses: an instant is a number of
  seconds since the Unix epoch in UTC, and \<open>Year()\<close>, \<open>Month()\<close> and \<open>Date(...)\<close> follow the
  proleptic Gregorian calendar. The lemmas show the year found for a day is the one whose
  first day is at or before it and whose successor starts after it.
\<close>

type_synonym time = int

definition leap :: "int \<Rightarrow> bool" where
  "leap y \<longleftrightarrow> 4 dvd y \<and> (\<not> 100 dvd y \<or> 400 dvd y)"

text \<open>Days from 1 January of year 1 to 1 January of year \<open>y\<close>.\<close>

definition dby :: "int \<Rightarrow> int" where
  "dby y = 365 * (y - 1) + (y - 1) div 4 - (y - 1) div 100 + (y - 1) div 400"

definition epoch_day :: int where "epoch_day = 719162"

text \<open>Days before the month within its year.\<close>

definition month_offset :: "bool \<Rightarrow> nat \<Rightarrow> int" where
  "month_offset lp m = [0, 31, 59, 90, 120, 151, 181, 212, 243, 273, 304, 334] ! (m - 1)
     + (if lp \<and> 2 < m then 1 else 0)"

definition year_of_day :: "int \<Rightarrow> int" where
  "year_of_day d = (let y = d * 400 div 146097 + 1 in
     if d < dby y then y - 1 else if dby (y + 1) \<le> d then y + 1 else y)"

definition day_of :: "time \<Rightarrow> int" where
  "day_of t = t div 86400 + epoch_day"

definition Year :: "time \<Rightarrow> int" where
  "Year t = year_of_day (day_of t)"

definition month_of_yday :: "bool \<Rightarrow> int \<Rightarrow> nat" where
  "month_of_yday lp d = length (filter (\<lambda>m. month_offset lp m \<le> d) [1..<13])"

definition Month :: "time \<Rightarrow> nat" where
  "Month t = month_of_yday (leap (Year t)) (day_of t - dby (Year t))"

text \<open>\<open>time.Date(y, m, d, 0, 0, 0, 0, time.UTC)\<close> for a month in 1..12; \<open>d\<close> may run over.\<close>

definition Date :: "int \<Rightarrow> nat \<Rightarrow> int \<Rightarrow> time" where
  "Date y m d = (dby y + month_offset (leap y) m + d - 1 - epoch_day) * 86400"

text \<open>\<open>AddDate(0, 1, d)\<close> on the first of a month: the first of the next month plus \<open>d\<close> days.\<close>

definition next_month :: "int \<times> nat \<Rightarrow> int \<times> nat" where
  "next_month ym = (if snd ym = 12 then (fst ym + 1, 1) else (fst ym, snd ym + 1))"

lemma div_step: "0 < k \<Longrightarrow> y div k - (y - 1) div k = (if k dvd y then 1 else 0)" for y k :: int
proof -
  assume k: "0 < k"
  have a: "(y - 1) = k * ((y - 1) div k) + (y - 1) mod k" by simp
  have b: "0 \<le> (y - 1) mod k" "(y - 1) mod k < k" using k by simp_all
  show ?thesis
  proof (cases "(y - 1) mod k = k - 1")
    case True
    then have "y = k * ((y - 1) div k) + k" using a by linarith
    then have e: "y = k * ((y - 1) div k + 1)" by (simp only: distrib_left mult_1_right)
    then have "y div k = (y - 1) div k + 1" using k by (metis less_irrefl nonzero_mult_div_cancel_left)
    then show ?thesis using dvdI [OF e] by simp
  next
    case False
    define r where "r = (y - 1) mod k + 1"
    have r: "0 < r" "r < k" using b False by (auto simp: r_def)
    have y: "y = k * ((y - 1) div k) + r" using a by (simp add: r_def)
    have "y div k = (y - 1) div k" by (rule int_div_pos_eq [OF y]) (use r in auto)
    moreover have "\<not> k dvd y"
    proof
      assume "k dvd y"
      then have "k dvd r" using y by (metis dvd_add_right_iff dvd_triv_left)
      then show False using r zdvd_not_zless by blast
    qed
    ultimately show ?thesis by simp
  qed
qed

lemma dby_Suc: "dby (y + 1) = dby y + (if leap y then 366 else 365)"
proof -
  have dv: "(100::int) dvd y \<Longrightarrow> 4 dvd y" "(400::int) dvd y \<Longrightarrow> 100 dvd y"
    by (erule dvd_trans [rotated], simp)+
  have st:
    "y div 4 - (y - 1) div 4 = (if 4 dvd y then 1 else 0)"
    "y div 100 - (y - 1) div 100 = (if 100 dvd y then 1 else 0)"
    "y div 400 - (y - 1) div 400 = (if 400 dvd y then 1 else 0)"
    by (simp_all only: div_step zero_less_numeral)
  have ar: "365 * y + a - b + c = 365 * (y - 1) + a' - b' + c' + (if P \<and> (\<not> Q \<or> R) then 366 else 365)"
    if "a - a' = (if P then 1 else 0)" "b - b' = (if Q then 1 else 0)" "c - c' = (if R then 1 else 0)"
      "Q \<longrightarrow> P" "R \<longrightarrow> Q" for a b c a' b' c' :: int and P Q R
    using that by (cases P; cases Q; cases R; simp)
  show ?thesis unfolding dby_def leap_def add_diff_cancel_right'
    by (rule ar [OF st]) (use dv in blast)+
qed

lemma dby_linear: "146097 * (y - 1) - 700 < 400 * dby y" "400 * dby y < 146097 * (y - 1) + 400"
proof -
  have lo: "146097 * x - 700 < 400 * (365 * x + a - b + c)"
    if "4 * a \<le> x" "x < 4 * a + 4" "100 * b \<le> x" "x < 100 * b + 100" "400 * c \<le> x" "x < 400 * c + 400"
    for x a b c :: int using that by simp
  have hi: "400 * (365 * x + a - b + c) < 146097 * x + 400"
    if "4 * a \<le> x" "x < 4 * a + 4" "100 * b \<le> x" "x < 100 * b + 100" "400 * c \<le> x" "x < 400 * c + 400"
    for x a b c :: int using that by simp
  show "146097 * (y - 1) - 700 < 400 * dby y" unfolding dby_def by (rule lo) (rule div_bounds, simp)+
  show "400 * dby y < 146097 * (y - 1) + 400" unfolding dby_def by (rule hi) (rule div_bounds, simp)+
qed

lemma year_of_day_spec: "dby (year_of_day d) \<le> d" "d < dby (year_of_day d + 1)"
proof -
  define y where "y = d * 400 div 146097 + 1"
  have y: "146097 * (y - 1) \<le> 400 * d" "400 * d < 146097 * y"
    using div_bounds [of 146097 "d * 400"] unfolding y_def by (simp_all only: mult.commute [of d] add_diff_cancel_right') simp_all
  have ar1: "b \<le> 400 * d" if "b < 146097 * (y - 2) + 400" for b using y that by simp
  have ar2: "400 * d < b" if "146097 * (y + 1) - 700 < b" for b using y that by simp
  have 1: "dby (y - 1) \<le> d" using ar1 [of "400 * dby (y - 1)"] dby_linear(2) [of "y - 1"] by simp
  have 2: "d < dby (y + 2)" using ar2 [of "400 * dby (y + 2)"] dby_linear(1) [of "y + 2"] by simp
  then show "dby (year_of_day d) \<le> d" "d < dby (year_of_day d + 1)"
    using 1 unfolding year_of_day_def y_def [symmetric] Let_def by (auto simp: add.assoc)
qed

lemma dby_mono_Suc: "dby y < dby (y + 1)"
  by (simp add: dby_Suc)

lemma dby_mono: "y \<le> z \<Longrightarrow> dby y \<le> dby z"
  by (induction z rule: int_ge_induct) (use dby_mono_Suc in \<open>auto intro: order_trans less_imp_le\<close>)

lemma year_of_day_unique: "dby y \<le> d \<Longrightarrow> d < dby (y + 1) \<Longrightarrow> year_of_day d = y"
  using year_of_day_spec [of d] dby_mono [of "y + 1" "year_of_day d"]
    dby_mono [of "year_of_day d + 1" y] by fastforce

text \<open>A day is before April exactly when fewer than 90 (or 91) days of the year have passed.\<close>

lemma month_before_april:
  assumes "0 \<le> d"
  shows "month_of_yday lp d < 4 \<longleftrightarrow> d < month_offset lp 4"
proof -
  have u: "[1..<13] = [1, 2, 3, 4, 5, 6, 7, 8, 9, 10, 11, 12::nat]" by (simp add: upt_conv_Cons)
  show ?thesis using assms unfolding month_of_yday_def u
    by (cases lp) (auto simp: month_offset_def)
qed

end
