(* ===== verification/Tax.thy ===== *)
theory Tax
  imports Money CivilTime
begin

text \<open>
  \<open>internal/tax/tax.go\<close>: the policy of rates and thresholds, the decomposition of one sale into
  GST, commission, TCS, TDS, processing cost and settlement, and the check \<open>Verify\<close> that
  re-adds it. The proofs show that a breakdown \<open>Compute\<close> returns distributes the buyer's
  payment exactly, that each tax is the statutory rate of the list price rounded half up,
  and that \<open>Compute\<close> succeeds on every sale inside stated bounds.
\<close>

record policy =
  GSTBps :: int
  CommissionGSTBps :: int
  TCSBps :: int
  TDSBps :: int
  TDSNoPANBps :: int
  TDSThresholdMinor :: int
  PlatformStateCode :: int
  CollectTCSFromUnregisteredSellers :: bool
  CollectTCSOnExports :: bool
  PlatformGSTIN :: string
  PSPFeeBearer :: string

definition DefaultPolicy :: policy where
  "DefaultPolicy = \<lparr>GSTBps = 1800, CommissionGSTBps = 1800, TCSBps = 100, TDSBps = 10,
     TDSNoPANBps = 500, TDSThresholdMinor = 500000 * 100, PlatformStateCode = 33,
     CollectTCSFromUnregisteredSellers = False, CollectTCSOnExports = True,
     PlatformGSTIN = [], PSPFeeBearer = ''platform''\<rparr>"

datatype tax_error =
    PolicyError string
  | NegativeListPrice
  | CommissionOutOfRange int
  | MoneyError string money_error
  | DeductionsExceed money
  | TaxSumMismatch money money
  | GrossMismatch money money money
  | DistributionMismatch money money
  | UnequalHalves money money
  | GSTNotExclusive
  | TCSNotExclusive
  | NegativeComponent money
  | ForeignComponent money string
  | PanicMustNew money_error

definition validate :: "policy \<Rightarrow> tax_error + unit" where
  "validate p =
    (if GSTBps p < 0 \<or> GSTBps p > 10000 then Inl (PolicyError ''GSTBps'')
     else if CommissionGSTBps p < 0 \<or> CommissionGSTBps p > 10000 then Inl (PolicyError ''CommissionGSTBps'')
     else if TCSBps p < 0 \<or> TCSBps p > 10000 then Inl (PolicyError ''TCSBps'')
     else if TDSBps p < 0 \<or> TDSBps p > 10000 then Inl (PolicyError ''TDSBps'')
     else if TDSNoPANBps p < 0 \<or> TDSNoPANBps p > 10000 then Inl (PolicyError ''TDSNoPANBps'')
     else if PlatformStateCode p < 1 \<or> PlatformStateCode p > 99 then Inl (PolicyError ''PlatformStateCode'')
     else if PSPFeeBearer p \<noteq> ''platform'' \<and> PSPFeeBearer p \<noteq> ''seller'' then Inl (PolicyError ''PSPFeeBearer'')
     else if trunc_mod (GSTBps p) 2 \<noteq> 0 then Inl (PolicyError ''GSTBps must be even'')
     else if trunc_mod (TCSBps p) 2 \<noteq> 0 then Inl (PolicyError ''TCSBps must be even'')
     else Inr ())"

record seller =
  GSTRegistered :: bool
  s_GSTIN :: string
  s_StateCode :: int
  HasPAN :: bool
  ResidentIndividualOrHUF :: bool
  FYGrossSupplyMinor :: int
  s_Country :: string

record buyer =
  b_Country :: string
  b_StateCode :: int
  b_GSTIN :: string
  IsB2B :: bool

record line =
  l_ListPrice :: money
  l_CommissionBps :: int
  PSPFeeBps :: int
  PSPFeeGSTBps :: int

datatype supply_kind = IntraState | InterState | ExportOfServices | Exempt

record breakdown =
  Currency :: string
  Supply :: supply_kind
  ListPrice :: money
  CGST :: money
  SGST :: money
  IGST :: money
  TaxTotal :: money
  BuyerTotal :: money
  GSTRateBps :: int
  CommissionBps :: int
  Commission :: money
  CommissionGST :: money
  bd_CommissionGSTBps :: int
  bd_TCSBps :: int
  TCSCGST :: money
  TCSSGST :: money
  TCSIGST :: money
  TCS :: money
  bd_TDSBps :: int
  TDS :: money
  TDSReason :: string
  PSPFee :: money
  PSPFeeGST :: money
  PSPFeeBorne :: string
  SellerNet :: money
  PlatformMargin :: money
  Explain :: "string list"

text \<open>
  \<open>fmt.Sprintf("%.2f", float64(bps)/100)\<close> for a rate between 0 and 10000: the nearest double to
  a number with two decimals prints those two decimals.
\<close>

definition pct2 :: "int \<Rightarrow> string" where
  "pct2 bps = dec_int (bps div 100) @ ''.'' @ pad0 2 (dec_int (bps mod 100))"

definition classify :: "policy \<Rightarrow> seller \<Rightarrow> buyer \<Rightarrow> supply_kind" where
  "classify p s b =
    (if \<not> GSTRegistered s then Exempt
     else let buyerCountry = (if b_Country b = [] then ''IN'' else b_Country b)
          in if buyerCountry \<noteq> ''IN'' then ExportOfServices
             else if s_StateCode s > 0 \<and> b_StateCode b > 0 \<and> s_StateCode s = b_StateCode b
                  then IntraState
             else InterState)"

definition belowThreshold :: "int \<Rightarrow> int \<Rightarrow> int \<Rightarrow> bool" where
  "belowThreshold fySoFar thisSale threshold =
    (if fySoFar < 0 \<or> thisSale < 0 then False
     else if fySoFar > threshold then False
     else wrap64 (fySoFar + thisSale) \<le> threshold)"

definition Verify :: "breakdown \<Rightarrow> tax_error + unit" where
  "Verify b = bindE (wrapE (MoneyError ''sum'') (Sum [CGST b, SGST b, IGST b])) (\<lambda>taxSum.
     if \<not> Equal taxSum (TaxTotal b) then Inl (TaxSumMismatch taxSum (TaxTotal b))
     else bindE (wrapE (MoneyError ''gross'') (Add (ListPrice b) (TaxTotal b))) (\<lambda>gross.
     if \<not> Equal gross (BuyerTotal b) then Inl (GrossMismatch (ListPrice b) (TaxTotal b) (BuyerTotal b))
     else bindE (wrapE (MoneyError ''distributed'')
            (Sum [SellerNet b, Commission b, CommissionGST b, TCS b, TDS b])) (\<lambda>distributed.
     bindE (if PSPFeeBorne b = ''seller''
            then wrapE (MoneyError ''psp'') (Sum [distributed, PSPFee b, PSPFeeGST b])
            else Inr distributed) (\<lambda>distributed.
     if \<not> Equal distributed (BuyerTotal b) then Inl (DistributionMismatch distributed (BuyerTotal b))
     else if minor (CGST b) \<noteq> minor (SGST b) then Inl (UnequalHalves (CGST b) (SGST b))
     else if IsPositive (IGST b) \<and> (IsPositive (CGST b) \<or> IsPositive (SGST b)) then Inl GSTNotExclusive
     else if IsPositive (TCSIGST b) \<and> (IsPositive (TCSCGST b) \<or> IsPositive (TCSSGST b)) then Inl TCSNotExclusive
     else foldE (\<lambda>m _. if IsNegative m then Inl (NegativeComponent m)
                       else if cur m \<noteq> Currency b then Inl (ForeignComponent m (Currency b))
                       else Inr ())
          [ListPrice b, CGST b, SGST b, IGST b, TaxTotal b, BuyerTotal b,
           Commission b, CommissionGST b, TCS b, TDS b, PSPFee b, PSPFeeGST b, SellerNet b] ()))))"

subsection \<open>\<open>Compute\<close>, section by section\<close>

text \<open>Every section reads and extends the breakdown built so far, as the code does.\<close>

definition bps_of :: "string \<Rightarrow> money \<Rightarrow> int \<Rightarrow> tax_error + money" where
  "bps_of what m bps = wrapE (MoneyError what) (ApplyBasisPoints m bps HalfUp)"

definition initial_breakdown :: "policy \<Rightarrow> seller \<Rightarrow> buyer \<Rightarrow> line \<Rightarrow> breakdown" where
  "initial_breakdown p s b l = (let c = cur (l_ListPrice l); zero = Zero c in
    \<lparr>Currency = c, Supply = classify p s b, ListPrice = l_ListPrice l,
     CGST = zero, SGST = zero, IGST = zero, TaxTotal = zero, BuyerTotal = l_ListPrice l,
     GSTRateBps = 0, CommissionBps = l_CommissionBps l, Commission = zero, CommissionGST = zero,
     bd_CommissionGSTBps = CommissionGSTBps p, bd_TCSBps = 0, TCSCGST = zero, TCSSGST = zero,
     TCSIGST = zero, TCS = zero, bd_TDSBps = 0, TDS = zero, TDSReason = [],
     PSPFee = zero, PSPFeeGST = zero, PSPFeeBorne = PSPFeeBearer p,
     SellerNet = zero, PlatformMargin = zero, Explain = []\<rparr>)"

definition gst_supply :: "policy \<Rightarrow> seller \<Rightarrow> buyer \<Rightarrow> line \<Rightarrow> breakdown \<Rightarrow> tax_error + breakdown" where
  "gst_supply p s b l out =
    (case Supply out of
       Exempt \<Rightarrow> Inr (out\<lparr>GSTRateBps := 0, Explain := Explain out @
         [''No GST was charged on this supply: the seller is below the GST registration threshold for services and is not registered, so they cannot and do not collect GST.'']\<rparr>)
     | ExportOfServices \<Rightarrow> Inr (out\<lparr>GSTRateBps := 0, Explain := Explain out @
         [''This is a zero-rated export of services: the recipient is outside India, so GST is charged at 0% under a letter of undertaking.'']\<rparr>)
     | IntraState \<Rightarrow>
         let half = trunc_div (GSTBps p) 2 in
         bindE (bps_of ''CGST'' (l_ListPrice l) half) (\<lambda>cgst.
         Inr (out\<lparr>CGST := cgst, SGST := cgst, GSTRateBps := GSTBps p, Explain := Explain out @
           [''The seller and the place of supply are both in state '' @ dec_int (s_StateCode s)
            @ '', so GST is split as CGST '' @ Decimal cgst @ '' + SGST '' @ Decimal cgst
            @ '' at '' @ pct2 half @ ''% each.'']\<rparr>))
     | InterState \<Rightarrow>
         bindE (bps_of ''IGST'' (l_ListPrice l) (GSTBps p)) (\<lambda>igst.
         Inr (out\<lparr>IGST := igst, GSTRateBps := GSTBps p, Explain := Explain out @
           [''The seller is in state '' @ dec_int (s_StateCode s) @ '' and the place of supply is state ''
            @ dec_int (b_StateCode b) @ '', so IGST applies at '' @ pct2 (GSTBps p) @ ''%.'']\<rparr>)))"

definition gst_section :: "policy \<Rightarrow> seller \<Rightarrow> buyer \<Rightarrow> line \<Rightarrow> breakdown \<Rightarrow> tax_error + breakdown" where
  "gst_section p s b l out = bindE (gst_supply p s b l out) (\<lambda>out.
     bindE (wrapE (MoneyError ''tax total'') (Sum [CGST out, SGST out, IGST out])) (\<lambda>taxTotal.
     bindE (wrapE (MoneyError ''buyer total'') (Add (l_ListPrice l) taxTotal)) (\<lambda>total.
     Inr (out\<lparr>TaxTotal := taxTotal, BuyerTotal := total\<rparr>))))"

definition commission_section :: "policy \<Rightarrow> line \<Rightarrow> breakdown \<Rightarrow> tax_error + breakdown" where
  "commission_section p l out =
    bindE (bps_of ''commission'' (l_ListPrice l) (l_CommissionBps l)) (\<lambda>com.
    bindE (bps_of ''commission GST'' com (CommissionGSTBps p)) (\<lambda>gst.
    Inr (out\<lparr>Commission := com, CommissionGST := gst, Explain := Explain out @
      [''Platform commission is '' @ pct2 (l_CommissionBps l) @ ''% of the '' @ Decimal (l_ListPrice l)
       @ '' taxable value: '' @ Decimal com @ '', plus '' @ pct2 (CommissionGSTBps p)
       @ ''% GST on that commission: '' @ Decimal gst @ ''.'']\<rparr>)))"

definition tcs_section :: "policy \<Rightarrow> seller \<Rightarrow> line \<Rightarrow> breakdown \<Rightarrow> tax_error + breakdown" where
  "tcs_section p s l out =
    (let (collectTCS, out) =
       (if \<not> GSTRegistered s \<and> \<not> CollectTCSFromUnregisteredSellers p then
          (False, out\<lparr>Explain := Explain out @
            [''No TCS was collected under section 52: the seller is not GST-registered, and collecting TCS against a supplier with no GSTIN cannot be reported in GSTR-8.'']\<rparr>)
        else if Supply out = ExportOfServices \<and> \<not> CollectTCSOnExports p then
          (False, out\<lparr>Explain := Explain out @
            [''No TCS was collected: this is an export of services and the configured policy excludes exports.'']\<rparr>)
        else (True, out))
     in if collectTCS \<and> TCSBps p > 0 then
          bindE (if Supply out = IntraState
                 then let half = trunc_div (TCSBps p) 2 in
                      bindE (bps_of ''TCS'' (l_ListPrice l) half) (\<lambda>c. Inr (out\<lparr>TCSCGST := c, TCSSGST := c\<rparr>))
                 else bindE (bps_of ''TCS'' (l_ListPrice l) (TCSBps p)) (\<lambda>i. Inr (out\<lparr>TCSIGST := i\<rparr>)))
            (\<lambda>out. bindE (wrapE (MoneyError ''TCS'') (Sum [TCSCGST out, TCSSGST out, TCSIGST out])) (\<lambda>tcs.
             Inr (out\<lparr>TCS := tcs, bd_TCSBps := TCSBps p, Explain := Explain out @
               [''TCS of '' @ pct2 (TCSBps p) @ ''% ('' @ Decimal tcs
                @ '') was collected under section 52 of the CGST Act on the net taxable value and will be reported in GSTR-8 against GSTIN ''
                @ s_GSTIN s @ ''.'']\<rparr>)))
        else Inr out)"

text \<open>The rate and its reason: a non-resident pays none, a seller without PAN the higher rate.\<close>

definition tds_rate :: "policy \<Rightarrow> seller \<Rightarrow> line \<Rightarrow> tax_error + int \<times> string" where
  "tds_rate p s l =
    (if s_Country s \<noteq> [] \<and> s_Country s \<noteq> ''IN'' then
       Inr (0, ''seller is not resident in India; section 194-O does not apply'')
     else if \<not> HasPAN s then
       Inr (TDSNoPANBps p, ''PAN not furnished, so the higher rate under section 206AA applies (''
         @ pct2 (TDSNoPANBps p) @ ''%)'')
     else if ResidentIndividualOrHUF s
        \<and> belowThreshold (FYGrossSupplyMinor s) (minor (l_ListPrice l)) (TDSThresholdMinor p) then
       bindE (wrapE PanicMustNew
          (New (wrap64 (FYGrossSupplyMinor s + minor (l_ListPrice l))) (cur (l_ListPrice l)))) (\<lambda>m.
       Inr (0, ''resident individual/HUF whose gross supply for the financial year (''
         @ Decimal m @ '' including this sale) remains within the section 194-O threshold''))
     else Inr (TDSBps p, ''section 194-O applies at '' @ pct2 (TDSBps p) @ ''%''))"

definition tds_section :: "policy \<Rightarrow> seller \<Rightarrow> line \<Rightarrow> breakdown \<Rightarrow> tax_error + breakdown" where
  "tds_section p s l out = bindE (tds_rate p s l) (\<lambda>(tdsRate, reason).
     let out = out\<lparr>TDSReason := reason\<rparr> in
     bindE (if tdsRate > 0
            then bindE (bps_of ''TDS'' (l_ListPrice l) tdsRate) (\<lambda>t.
                 Inr (out\<lparr>TDS := t, bd_TDSBps := tdsRate\<rparr>))
            else Inr out) (\<lambda>out.
     Inr (out\<lparr>Explain := Explain out @
       [''TDS under section 194-O: '' @ Decimal (TDS out) @ '' ('' @ TDSReason out @ '').'']\<rparr>)))"

definition psp_section :: "line \<Rightarrow> breakdown \<Rightarrow> tax_error + breakdown" where
  "psp_section l out =
    bindE (bps_of ''PSP fee'' (BuyerTotal out) (PSPFeeBps l)) (\<lambda>fee.
    bindE (bps_of ''PSP fee GST'' fee (PSPFeeGSTBps l)) (\<lambda>gst.
    Inr (out\<lparr>PSPFee := fee, PSPFeeGST := gst\<rparr>)))"

definition settlement_section :: "policy \<Rightarrow> breakdown \<Rightarrow> tax_error + breakdown" where
  "settlement_section p out =
    bindE (foldE (\<lambda>d net. wrapE (MoneyError ''settlement'') (Sub net d))
             [Commission out, CommissionGST out, TCS out, TDS out] (BuyerTotal out)) (\<lambda>net.
    bindE (if PSPFeeBearer p = ''seller''
           then bindE (wrapE (MoneyError ''settlement psp'') (Sub net (PSPFee out))) (\<lambda>net.
                bindE (wrapE (MoneyError ''settlement psp gst'') (Sub net (PSPFeeGST out))) (\<lambda>net.
                Inr (net, ''Payment-processing cost of '' @ Decimal (PSPFee out)
                  @ '' plus GST was deducted from the settlement.'')))
           else Inr (net, ''Payment-processing cost of '' @ Decimal (PSPFee out)
                  @ '' plus GST was absorbed by the platform out of its commission and is shown for transparency only.''))
      (\<lambda>(net, note).
    if IsNegative net then Inl (DeductionsExceed net)
    else bindE (if PSPFeeBearer p = ''platform''
                then wrapE (MoneyError ''margin'') (Sub (Commission out) (PSPFee out))
                else Inr (Commission out)) (\<lambda>margin.
    Inr (out\<lparr>SellerNet := net, PlatformMargin := margin, Explain := Explain out @
      [note, ''Settlement to the seller: '' @ Decimal net @ '' (buyer paid '' @ Decimal (BuyerTotal out)
        @ '', less commission '' @ Decimal (Commission out) @ '', GST on commission ''
        @ Decimal (CommissionGST out) @ '', TCS '' @ Decimal (TCS out) @ '' and TDS ''
        @ Decimal (TDS out) @ '').'']\<rparr>))))"

definition Compute :: "policy \<Rightarrow> seller \<Rightarrow> buyer \<Rightarrow> line \<Rightarrow> tax_error + breakdown" where
  "Compute p s b l = bindE (validate p) (\<lambda>_.
    if IsNegative (l_ListPrice l) then Inl NegativeListPrice
    else if l_CommissionBps l < 0 \<or> l_CommissionBps l > 10000
         then Inl (CommissionOutOfRange (l_CommissionBps l))
    else bindE (gst_section p s b l (initial_breakdown p s b l)) (\<lambda>out.
         bindE (commission_section p l out) (\<lambda>out.
         bindE (tcs_section p s l out) (\<lambda>out.
         bindE (tds_section p s l out) (\<lambda>out.
         bindE (psp_section l out) (\<lambda>out.
         bindE (settlement_section p out) (\<lambda>out.
         bindE (Verify out) (\<lambda>_. Inr out))))))))"

subsection \<open>Due dates\<close>

definition FinancialYearStart :: "time \<Rightarrow> time" where
  "FinancialYearStart t = (let y = Year t in
     let y = (if Month t < 4 then y - 1 else y) in Date y 4 1)"

text \<open>The reporting period is a year and a month; the result is an instant.\<close>

definition GSTR8DueDate :: "int \<Rightarrow> nat \<Rightarrow> time" where
  "GSTR8DueDate y m = (let (y', m') = next_month (y, m) in Date y' m' 10)"

definition TDSDepositDueDate :: "int \<Rightarrow> nat \<Rightarrow> time" where
  "TDSDepositDueDate y m = (if m = 3 then Date y 4 30
     else let (y', m') = next_month (y, m) in Date y' m' 7)"

subsection \<open>The reference decomposition\<close>

text \<open>
  The statute's arithmetic on unbounded integers: \<open>share bps x\<close> is \<open>bps\<close> hundredths of a percent
  of \<open>x\<close> rounded half up. Each component of a breakdown is one of these.
\<close>

abbreviation mk :: "int \<Rightarrow> string \<Rightarrow> money" where
  "mk v c \<equiv> \<lparr>minor = v, cur = c\<rparr>"

definition share :: "int \<Rightarrow> int \<Rightarrow> int" where
  "share bps x = round_ref HalfUp (x * bps) 10000"

definition ref_cgst :: "policy \<Rightarrow> supply_kind \<Rightarrow> int \<Rightarrow> int" where
  "ref_cgst p k L = (if k = IntraState then share (GSTBps p div 2) L else 0)"

definition ref_igst :: "policy \<Rightarrow> supply_kind \<Rightarrow> int \<Rightarrow> int" where
  "ref_igst p k L = (if k = InterState then share (GSTBps p) L else 0)"

definition ref_total :: "policy \<Rightarrow> supply_kind \<Rightarrow> int \<Rightarrow> int" where
  "ref_total p k L = L + (2 * ref_cgst p k L + ref_igst p k L)"

definition ref_collects :: "policy \<Rightarrow> seller \<Rightarrow> supply_kind \<Rightarrow> bool" where
  "ref_collects p s k \<longleftrightarrow> (GSTRegistered s \<or> CollectTCSFromUnregisteredSellers p)
     \<and> (k \<noteq> ExportOfServices \<or> CollectTCSOnExports p)"

definition ref_tcs_half :: "policy \<Rightarrow> seller \<Rightarrow> supply_kind \<Rightarrow> int \<Rightarrow> int" where
  "ref_tcs_half p s k L = (if ref_collects p s k \<and> k = IntraState then share (TCSBps p div 2) L else 0)"

definition ref_tcs_igst :: "policy \<Rightarrow> seller \<Rightarrow> supply_kind \<Rightarrow> int \<Rightarrow> int" where
  "ref_tcs_igst p s k L = (if ref_collects p s k \<and> k \<noteq> IntraState then share (TCSBps p) L else 0)"

definition ref_tcs :: "policy \<Rightarrow> seller \<Rightarrow> supply_kind \<Rightarrow> int \<Rightarrow> int" where
  "ref_tcs p s k L = 2 * ref_tcs_half p s k L + ref_tcs_igst p s k L"

definition exempts_tds :: "policy \<Rightarrow> seller \<Rightarrow> int \<Rightarrow> bool" where
  "exempts_tds p s L \<longleftrightarrow> HasPAN s \<and> ResidentIndividualOrHUF s
     \<and> belowThreshold (FYGrossSupplyMinor s) L (TDSThresholdMinor p)"

definition ref_tds_rate :: "policy \<Rightarrow> seller \<Rightarrow> int \<Rightarrow> int" where
  "ref_tds_rate p s L =
    (if s_Country s \<noteq> [] \<and> s_Country s \<noteq> ''IN'' then 0
     else if \<not> HasPAN s then TDSNoPANBps p
     else if exempts_tds p s L then 0
     else TDSBps p)"

definition ref_deductions :: "policy \<Rightarrow> seller \<Rightarrow> supply_kind \<Rightarrow> line \<Rightarrow> int" where
  "ref_deductions p s k l = (let L = minor (l_ListPrice l); com = share (l_CommissionBps l) L in
     com + share (CommissionGSTBps p) com + ref_tcs p s k L + share (ref_tds_rate p s L) L
     + (if PSPFeeBearer p = ''seller''
        then let fee = share (PSPFeeBps l) (ref_total p k L) in fee + share (PSPFeeGSTBps l) fee
        else 0))"

text \<open>The rates a caller passes are rates: between 0% and 100%.\<close>

definition line_ok :: "line \<Rightarrow> bool" where
  "line_ok l \<longleftrightarrow> 0 \<le> minor (l_ListPrice l) \<and> minor (l_ListPrice l) \<le> max_i64
     \<and> 0 \<le> l_CommissionBps l \<and> l_CommissionBps l \<le> 10000
     \<and> 0 \<le> PSPFeeBps l \<and> PSPFeeBps l \<le> 10000 \<and> 0 \<le> PSPFeeGSTBps l \<and> PSPFeeGSTBps l \<le> 10000"

lemma share_bounds:
  assumes "0 \<le> x" and "0 \<le> bps" and "bps \<le> 10000"
  shows "0 \<le> share bps x" "share bps x \<le> x"
  using round_ref_between [where num = bps and d = 10000 and x = x and mode = HalfUp] assms
  by (auto simp: share_def intro!: round_ref_nonneg)

lemma share_0 [simp]: "share 0 x = 0"
  by (simp add: share_def)

lemma bps_of_rate:
  assumes "0 \<le> v" and "v \<le> max_i64" and "0 \<le> bps" and "bps \<le> 10000"
  shows "bps_of what (mk v c) bps = Inr (mk (share bps v) c)"
  using assms by (simp add: bps_of_def ApplyBasisPoints_rate money_ok_def in_i64_def share_def)

lemma Sum_mk:
  assumes "vs \<noteq> []" and "\<forall>v \<in> set vs. 0 \<le> v" and "sum_list vs \<le> max_i64"
  shows "Sum (map (\<lambda>v. mk v c) vs) = Inr (mk (sum_list vs) c)"
  using Sum_nonneg [of "map (\<lambda>v. mk v c) vs" c] assms by (simp add: comp_def)

lemma Sub_mk: "0 \<le> a \<Longrightarrow> a \<le> max_i64 \<Longrightarrow> 0 \<le> b \<Longrightarrow> b \<le> max_i64 \<Longrightarrow> Sub (mk a c) (mk b c) = Inr (mk (a - b) c)"
  by (simp add: Sub_exact money_ok_def in_i64_def)

lemma validate_Inr: "validate p = Inr () \<longleftrightarrow>
    0 \<le> GSTBps p \<and> GSTBps p \<le> 10000 \<and> even (GSTBps p)
  \<and> 0 \<le> CommissionGSTBps p \<and> CommissionGSTBps p \<le> 10000
  \<and> 0 \<le> TCSBps p \<and> TCSBps p \<le> 10000 \<and> even (TCSBps p)
  \<and> 0 \<le> TDSBps p \<and> TDSBps p \<le> 10000 \<and> 0 \<le> TDSNoPANBps p \<and> TDSNoPANBps p \<le> 10000
  \<and> 1 \<le> PlatformStateCode p \<and> PlatformStateCode p \<le> 99
  \<and> (PSPFeeBearer p = ''platform'' \<or> PSPFeeBearer p = ''seller'')"
  by (auto simp: validate_def trunc_mod_eq sgn_if even_iff_mod_2_eq_zero)

lemma ref_nonneg:
  assumes v: "validate p = Inr ()" and L: "0 \<le> L"
  shows "0 \<le> ref_cgst p k L" "0 \<le> ref_igst p k L" "0 \<le> ref_tcs_half p s k L" "0 \<le> ref_tcs_igst p s k L"
    "0 \<le> ref_tds_rate p s L" "ref_tds_rate p s L \<le> 10000" "ref_tcs p s k L \<le> 2 * L" "L \<le> ref_total p k L"
proof -
  note V = v [unfolded validate_Inr]
  have h: "0 \<le> GSTBps p div 2" "GSTBps p div 2 \<le> 10000" "0 \<le> TCSBps p div 2" "TCSBps p div 2 \<le> 10000"
    using V by auto
  note hs = share_bounds [OF L h(1,2)] share_bounds [OF L h(3,4)]
  show c: "0 \<le> ref_cgst p k L" unfolding ref_cgst_def using hs by simp
  show i: "0 \<le> ref_igst p k L" unfolding ref_igst_def using V by (simp add: share_bounds L)
  show "0 \<le> ref_tcs_half p s k L" unfolding ref_tcs_half_def using hs by simp
  show "0 \<le> ref_tcs_igst p s k L" unfolding ref_tcs_igst_def using V by (simp add: share_bounds L)
  show "0 \<le> ref_tds_rate p s L" "ref_tds_rate p s L \<le> 10000" unfolding ref_tds_rate_def using V by simp_all
  show "L \<le> ref_total p k L" using c i by (simp add: ref_total_def)
  have "share (TCSBps p div 2) L \<le> L" "share (TCSBps p) L \<le> L" using V hs by (simp_all add: share_bounds L)
  then show "ref_tcs p s k L \<le> 2 * L" using L
    by (auto simp: ref_tcs_def ref_tcs_half_def ref_tcs_igst_def)
qed

text \<open>The sections, on the breakdown they start from.\<close>

lemma gst_section_eq:
  fixes p s b l
  defines "c \<equiv> cur (l_ListPrice l)" and "L \<equiv> minor (l_ListPrice l)" and "k \<equiv> classify p s b"
  assumes v: "validate p = Inr ()" and l: "line_ok l"
  shows "ref_total p k L \<le> max_i64 \<Longrightarrow> \<exists>ex. gst_section p s b l (initial_breakdown p s b l) = Inr (initial_breakdown p s b l
      \<lparr>CGST := mk (ref_cgst p k L) c, SGST := mk (ref_cgst p k L) c, IGST := mk (ref_igst p k L) c,
       TaxTotal := mk (2 * ref_cgst p k L + ref_igst p k L) c, BuyerTotal := mk (ref_total p k L) c,
       GSTRateBps := (if k = IntraState \<or> k = InterState then GSTBps p else 0), Explain := ex\<rparr>)"
    and "\<not> ref_total p k L \<le> max_i64 \<Longrightarrow> \<exists>e. gst_section p s b l (initial_breakdown p s b l) = Inl e"
proof -
  have L: "0 \<le> L" "L \<le> max_i64" and lp: "l_ListPrice l = mk L c"
    using l by (simp_all add: line_ok_def L_def c_def)
  note V = v [unfolded validate_Inr]
  note nn = ref_nonneg(1,2,8) [OF v L(1), where k = k]
  have h: "0 \<le> GSTBps p div 2" "GSTBps p div 2 \<le> 10000" "trunc_div (GSTBps p) 2 = GSTBps p div 2"
    using V by auto
  let ?i = "initial_breakdown p s b l" and ?C = "mk (ref_cgst p k L) c" and ?I = "mk (ref_igst p k L) c"
  have init: "Supply ?i = k" "CGST ?i = mk 0 c" "SGST ?i = mk 0 c" "IGST ?i = mk 0 c" "GSTRateBps ?i = 0"
    by (simp_all add: initial_breakdown_def Let_def Zero_def c_def k_def)
  have cg: "k = IntraState \<Longrightarrow> bps_of w (mk L c) (GSTBps p div 2) = Inr ?C"
    and ig: "k = InterState \<Longrightarrow> bps_of w (mk L c) (GSTBps p) = Inr ?I" for w
    using bps_of_rate [OF L] h V by (simp_all add: ref_cgst_def ref_igst_def)
  let ?g = "\<lambda>ex. ?i\<lparr>CGST := ?C, SGST := ?C, IGST := ?I,
     GSTRateBps := (if k = IntraState \<or> k = InterState then GSTBps p else 0), Explain := ex\<rparr>"
  let ?n = "\<lambda>out. bindE (wrapE (MoneyError ''tax total'') (Sum [CGST out, SGST out, IGST out])) (\<lambda>taxTotal.
     bindE (wrapE (MoneyError ''buyer total'') (Add (l_ListPrice l) taxTotal)) (\<lambda>total.
     Inr (out\<lparr>TaxTotal := taxTotal, BuyerTotal := total\<rparr>)))"
  have "\<exists>ex. gst_supply p s b l ?i = Inr (?g ex)"
    using init(1) by (cases k)
      (auto simp: gst_supply_def lp h cg ig Let_def ref_cgst_def ref_igst_def initial_breakdown_def Zero_def)
  then have step: "\<exists>ex. gst_section p s b l ?i = ?n (?g ex)"
    by (auto simp: gst_section_def)
  have "share (GSTBps p div 2) L \<le> L" "share (GSTBps p) L \<le> L"
    using share_bounds [OF L(1) h(1,2)] share_bounds [OF L(1), of "GSTBps p"] V by simp_all
  then have ok: "money_ok ?C" "money_ok ?I" using nn L by (auto simp: money_ok_def in_i64_def ref_cgst_def ref_igst_def)
  have sm: "2 * ref_cgst p k L + ref_igst p k L \<le> max_i64 \<Longrightarrow>
      Sum [?C, ?C, ?I] = Inr (mk (2 * ref_cgst p k L + ref_igst p k L) c)"
    using Sum_mk [of "[ref_cgst p k L, ref_cgst p k L, ref_igst p k L]" c] nn by simp
  show "\<exists>ex. gst_section p s b l ?i = Inr (?i
      \<lparr>CGST := ?C, SGST := ?C, IGST := ?I,
       TaxTotal := mk (2 * ref_cgst p k L + ref_igst p k L) c, BuyerTotal := mk (ref_total p k L) c,
       GSTRateBps := (if k = IntraState \<or> k = InterState then GSTBps p else 0), Explain := ex\<rparr>)"
    if "ref_total p k L \<le> max_i64"
  proof -
    have "2 * ref_cgst p k L + ref_igst p k L \<le> max_i64" using that L by (simp add: ref_total_def)
    note sm = sm [OF this]
    have ad: "Add (mk L c) (mk (2 * ref_cgst p k L + ref_igst p k L) c) = Inr (mk (ref_total p k L) c)"
      using that L nn by (simp add: Add_exact money_ok_def in_i64_def ref_total_def)
    obtain ex where "gst_section p s b l ?i = ?n (?g ex)" using step by blast
    then show ?thesis by (intro exI [of _ ex]) (simp add: sm ad lp)
  qed
  show "\<exists>e. gst_section p s b l ?i = Inl e" if "\<not> ref_total p k L \<le> max_i64"
  proof -
    obtain ex where ex: "gst_section p s b l ?i = ?n (?g ex)" using step by blast
    have sf: "Sum [?C, ?C, ?I] = Inr t \<Longrightarrow> minor t = 2 * ref_cgst p k L + ref_igst p k L \<and> money_ok t" for t
      using Sum_Inr(2,3) [of "[?C, ?C, ?I]" t] ok by simp
    have "\<not> (\<exists>out. ?n (?g ex) = Inr out)"
    proof
      assume "\<exists>out. ?n (?g ex) = Inr out"
      then obtain t r where t: "Sum [?C, ?C, ?I] = Inr t" and r: "Add (mk L c) t = Inr r"
        by (auto simp: lp)
      have "in_i64 (minor (mk L c) + minor t)"
        using r sf [OF t] L Add_Inr_iff [of "mk L c" t r] by (simp add: money_ok_def in_i64_def)
      then show False using sf [OF t] that by (simp add: ref_total_def in_i64_def)
    qed
    then show ?thesis unfolding ex by (rule no_Inr_Inl)
  qed
qed

lemma commission_section_eq:
  assumes v: "validate p = Inr ()" and l: "line_ok l" and lp: "l_ListPrice l = mk L c"
  shows "\<exists>ex. commission_section p l out = Inr (out\<lparr>Commission := mk (share (l_CommissionBps l) L) c,
     CommissionGST := mk (share (CommissionGSTBps p) (share (l_CommissionBps l) L)) c, Explain := ex\<rparr>)"
proof -
  note V = v [unfolded validate_Inr] and l = l [unfolded line_ok_def lp, simplified]
  have "bps_of w (mk L c) (l_CommissionBps l) = Inr (mk (share (l_CommissionBps l) L) c)" for w
    using l by (simp add: bps_of_rate)
  moreover have "0 \<le> share (l_CommissionBps l) L" "share (l_CommissionBps l) L \<le> L" using l by (simp_all add: share_bounds)
  then have "bps_of w (mk (share (l_CommissionBps l) L) c) (CommissionGSTBps p)
      = Inr (mk (share (CommissionGSTBps p) (share (l_CommissionBps l) L)) c)" for w
    using l V by (simp add: bps_of_rate)
  ultimately show ?thesis by (simp add: commission_section_def lp) blast
qed

lemma tcs_section_eq:
  assumes v: "validate p = Inr ()" and l: "line_ok l" and lp: "l_ListPrice l = mk L c"
    and out: "Supply out = k" "TCSCGST out = mk 0 c" "TCSSGST out = mk 0 c" "TCSIGST out = mk 0 c"
      "TCS out = mk 0 c" "bd_TCSBps out = 0"
  shows "ref_tcs p s k L \<le> max_i64 \<Longrightarrow> \<exists>ex. tcs_section p s l out = Inr (out
     \<lparr>TCSCGST := mk (ref_tcs_half p s k L) c, TCSSGST := mk (ref_tcs_half p s k L) c,
      TCSIGST := mk (ref_tcs_igst p s k L) c, TCS := mk (ref_tcs p s k L) c,
      bd_TCSBps := (if ref_collects p s k then TCSBps p else 0), Explain := ex\<rparr>)"
    and "\<not> ref_tcs p s k L \<le> max_i64 \<Longrightarrow> \<exists>e. tcs_section p s l out = Inl e"
proof -
  note V = v [unfolded validate_Inr] and l = l [unfolded line_ok_def lp, simplified]
  let ?h = "ref_tcs_half p s k L" and ?i = "ref_tcs_igst p s k L" and ?on = "ref_collects p s k \<and> TCSBps p > 0"
  have L: "0 \<le> L" using l by simp
  note nn = ref_nonneg(3,4) [OF v L, of s k]
  have t: "trunc_div (TCSBps p) 2 = TCSBps p div 2" and hb: "0 \<le> TCSBps p div 2" "TCSBps p div 2 \<le> 10000" using V by auto
  have h: "bps_of w (mk L c) (TCSBps p div 2) = Inr (mk (share (TCSBps p div 2) L) c)"
    and i: "bps_of w (mk L c) (TCSBps p) = Inr (mk (share (TCSBps p) L) c)" for w
    using bps_of_rate [OF _ _ hb] l V by (simp_all add: bps_of_rate)
  have le: "?h \<le> L" "?i \<le> L"
    using share_bounds [OF L hb] share_bounds [OF L, of "TCSBps p"] V L
    by (auto simp: ref_tcs_half_def ref_tcs_igst_def)
  have z: "\<not> ?on \<Longrightarrow> ?h = 0 \<and> ?i = 0" using V by (auto simp: ref_tcs_half_def ref_tcs_igst_def)
  have sum: "ref_tcs p s k L \<le> max_i64 \<Longrightarrow> Sum [mk ?h c, mk ?h c, mk ?i c] = Inr (mk (ref_tcs p s k L) c)"
    using Sum_mk [of "[?h, ?h, ?i]" c] nn by (simp add: ref_tcs_def)
  have nosum: "\<exists>e. Sum [mk ?h c, mk ?h c, mk ?i c] = Inl e" if "\<not> ref_tcs p s k L \<le> max_i64"
  proof (rule no_Inr_Inl, rule notI, erule exE)
    fix r assume "Sum [mk ?h c, mk ?h c, mk ?i c] = Inr r"
    then have "minor r = ref_tcs p s k L" "money_ok r" using Sum_Inr(2,3) [of "[mk ?h c, mk ?h c, mk ?i c]" r] nn le l
      by (simp_all add: money_ok_def in_i64_def ref_tcs_def)
    then show False using that by (simp add: money_ok_def in_i64_def)
  qed
  let ?m = "out\<lparr>TCSCGST := mk ?h c, TCSSGST := mk ?h c, TCSIGST := mk ?i c\<rparr>"
  have off: "\<exists>ex. tcs_section p s l out = Inr (out\<lparr>Explain := ex\<rparr>)" if not_on: "\<not> ?on"
  proof -
    consider (unreg) "\<not> GSTRegistered s \<and> \<not> CollectTCSFromUnregisteredSellers p"
      | (exports) "\<not> (\<not> GSTRegistered s \<and> \<not> CollectTCSFromUnregisteredSellers p)" "k = ExportOfServices \<and> \<not> CollectTCSOnExports p"
      | (zero) "\<not> (\<not> GSTRegistered s \<and> \<not> CollectTCSFromUnregisteredSellers p)"
          "\<not> (k = ExportOfServices \<and> \<not> CollectTCSOnExports p)" "\<not> TCSBps p > 0"
      using not_on unfolding ref_collects_def by blast
    then show ?thesis
    proof cases
      case unreg
      then show ?thesis unfolding tcs_section_def if_P [OF unreg] by simp blast
    next
      case exports
      then show ?thesis unfolding tcs_section_def out(1) if_not_P [OF exports(1)] if_P [OF exports(2)] by simp blast
    next
      case zero
      then show ?thesis unfolding tcs_section_def out(1) if_not_P [OF zero(1)] if_not_P [OF zero(2)]
        by (intro exI [of _ "Explain out"]) simp
    qed
  qed
  have on: "\<exists>f. tcs_section p s l out = bindE (wrapE (MoneyError ''TCS'') (Sum [mk ?h c, mk ?h c, mk ?i c])) (\<lambda>tcs.
      Inr (?m\<lparr>TCS := tcs, bd_TCSBps := TCSBps p, Explain := f tcs\<rparr>))" if "?on"
  proof -
    have m: "(if k = IntraState
                 then bindE (bps_of ''TCS'' (l_ListPrice l) (trunc_div (TCSBps p) 2)) (\<lambda>c. Inr (out\<lparr>TCSCGST := c, TCSSGST := c\<rparr>))
                 else bindE (bps_of ''TCS'' (l_ListPrice l) (TCSBps p)) (\<lambda>i. Inr (out\<lparr>TCSIGST := i\<rparr>))) = Inr ?m"
      using that out(2-4) by (auto simp: t h i lp ref_tcs_half_def ref_tcs_igst_def intro!: breakdown.equality)
    have "\<not> (\<not> GSTRegistered s \<and> \<not> CollectTCSFromUnregisteredSellers p)"
      "\<not> (k = ExportOfServices \<and> \<not> CollectTCSOnExports p)" "TCSBps p > 0"
      using that by (auto simp: ref_collects_def)
    note b = this
    show ?thesis
      unfolding tcs_section_def out(1) Let_def if_not_P [OF b(1)] if_not_P [OF b(2)] prod.case
      using b(3) by (simp only: m simp_thms if_True bindE_simps)
        (intro exI [of _ "\<lambda>tcs. Explain out @ [''TCS of '' @ pct2 (TCSBps p) @ ''% ('' @ Decimal tcs
                @ '') was collected under section 52 of the CGST Act on the net taxable value and will be reported in GSTR-8 against GSTIN ''
                @ s_GSTIN s @ ''.'']"], simp)
  qed
  show "\<exists>ex. tcs_section p s l out = Inr (out
     \<lparr>TCSCGST := mk ?h c, TCSSGST := mk ?h c, TCSIGST := mk ?i c, TCS := mk (ref_tcs p s k L) c,
      bd_TCSBps := (if ref_collects p s k then TCSBps p else 0), Explain := ex\<rparr>)" if le: "ref_tcs p s k L \<le> max_i64"
  proof (cases ?on)
    case True
    then show ?thesis using on sum [OF le] by auto
  next
    case False
    obtain ex where ex: "tcs_section p s l out = Inr (out\<lparr>Explain := ex\<rparr>)" using off [OF False] by blast
    have "TCSBps p = 0 \<or> \<not> ref_collects p s k" using False V by auto
    then show ?thesis unfolding ex using z [OF False] out(2-6)
      by (intro exI [of _ ex]) (auto simp: ref_tcs_def intro!: breakdown.equality)
  qed
  show "\<exists>e. tcs_section p s l out = Inl e" if "\<not> ref_tcs p s k L \<le> max_i64"
  proof -
    have "?on"
    proof (rule ccontr)
      assume "\<not> ?on"
      then show False using z that by (simp add: ref_tcs_def)
    qed
    then show ?thesis using on nosum [OF that] by auto
  qed
qed

lemma tds_section_eq:
  assumes v: "validate p = Inr ()" and l: "line_ok l" and lp: "l_ListPrice l = mk L c"
    and out: "TDS out = mk 0 c" "bd_TDSBps out = 0" and c: "Valid c"
  shows "\<exists>r ex. tds_section p s l out = Inr (out\<lparr>TDSReason := r, TDS := mk (share (ref_tds_rate p s L) L) c,
     bd_TDSBps := ref_tds_rate p s L, Explain := ex\<rparr>)"
proof -
  note V = v [unfolded validate_Inr] and l = l [unfolded line_ok_def lp, simplified]
  let ?r = "ref_tds_rate p s L"
  have L: "0 \<le> L" "L \<le> max_i64" using l by simp_all
  note rb = ref_nonneg(5,6) [OF v L(1), of s]
  have "\<exists>reason. tds_rate p s l = Inr (?r, reason)"
    using c by (auto simp: tds_rate_def ref_tds_rate_def exempts_tds_def lp New_def)
  then obtain reason where r: "tds_rate p s l = Inr (?r, reason)" by blast
  have b: "bps_of w (mk L c) ?r = Inr (mk (share ?r L) c)" for w using bps_of_rate [OF L rb] .
  show ?thesis
  proof (cases "?r > 0")
    case True
    then show ?thesis by (simp add: tds_section_def r lp b) blast
  next
    case False
    then have "?r = 0" using rb by simp
    then have "tds_section p s l out = Inr (out\<lparr>TDSReason := reason, Explain := Explain out @
       [''TDS under section 194-O: '' @ Decimal (TDS out) @ '' ('' @ reason @ '').'']\<rparr>)"
      by (simp add: tds_section_def r)
    then show ?thesis using \<open>?r = 0\<close> out by (intro exI) (auto intro!: breakdown.equality)
  qed
qed

lemma psp_section_eq:
  assumes l: "line_ok l" and bt: "BuyerTotal out = mk T c" "0 \<le> T" "T \<le> max_i64"
  shows "psp_section l out = Inr (out\<lparr>PSPFee := mk (share (PSPFeeBps l) T) c,
     PSPFeeGST := mk (share (PSPFeeGSTBps l) (share (PSPFeeBps l) T)) c\<rparr>)"
proof -
  have "0 \<le> share (PSPFeeBps l) T" "share (PSPFeeBps l) T \<le> T"
    using l bt share_bounds [of T "PSPFeeBps l"] by (auto simp: line_ok_def)
  then show ?thesis using l bt by (simp add: psp_section_def bps_of_rate line_ok_def)
qed

lemma sub_chain:
  assumes "\<forall>v \<in> set vs. 0 \<le> v" and "sum_list vs \<le> a" and "a \<le> max_i64"
  shows "foldE (\<lambda>d net. wrapE f (Sub net d)) (map (\<lambda>v. mk v c) vs) (mk a c) = Inr (mk (a - sum_list vs) c)"
  using assms
proof (induction vs arbitrary: a)
  case (Cons v vs)
  have "0 \<le> sum_list vs" using Cons.prems by (intro sum_list_nonneg) auto
  then have "Sub (mk a c) (mk v c) = Inr (mk (a - v) c)"
    using Cons.prems by (intro Sub_mk) auto
  then show ?case using Cons.IH [of "a - v"] Cons.prems by (simp add: algebra_simps)
qed simp

lemma sub_chain_Inr:
  assumes "foldE (\<lambda>d net. wrapE f (Sub net d)) (map (\<lambda>v. mk v c) vs) m = Inr r" "money_ok m"
    and "\<forall>v \<in> set vs. in_i64 v"
  shows "minor r = minor m - sum_list vs \<and> money_ok r"
  using assms
proof (induction vs arbitrary: m)
  case (Cons v vs)
  then obtain x where x: "Sub m (mk v c) = Inr x"
    and r: "foldE (\<lambda>d net. wrapE f (Sub net d)) (map (\<lambda>v. mk v c) vs) x = Inr r" by auto
  have "minor x = minor m - v" "money_ok x"
    using x Cons.prems Sub_Inr_iff [of m "mk v c" x] by (auto simp: money_ok_def)
  then show ?case using Cons.IH [OF r] Cons.prems by simp
qed simp

lemma settlement_section_eq:
  fixes p :: policy and a1 a2 a3 a4 f1 f2 T :: int
  assumes fields: "BuyerTotal out = mk T c" "Commission out = mk a1 c" "CommissionGST out = mk a2 c"
    "TCS out = mk a3 c" "TDS out = mk a4 c" "PSPFee out = mk f1 c" "PSPFeeGST out = mk f2 c"
    and rng: "\<forall>x \<in> {T, a1, a2, a3, a4, f1, f2}. 0 \<le> x \<and> x \<le> max_i64"
  defines "d \<equiv> a1 + a2 + a3 + a4 + (if PSPFeeBearer p = ''seller'' then f1 + f2 else 0)"
  shows "d \<le> T \<Longrightarrow> \<exists>ex. settlement_section p out = Inr (out\<lparr>SellerNet := mk (T - d) c,
      PlatformMargin := mk (if PSPFeeBearer p = ''platform'' then a1 - f1 else a1) c, Explain := ex\<rparr>)"
    and "\<not> d \<le> T \<Longrightarrow> \<exists>e. settlement_section p out = Inl e"
proof -
  let ?F = "foldE (\<lambda>d net. wrapE (MoneyError ''settlement'') (Sub net d)) [mk a1 c, mk a2 c, mk a3 c, mk a4 c] (mk T c)"
  have m: "Sub (mk a1 c) (mk f1 c) = Inr (mk (a1 - f1) c)" using rng by (intro Sub_mk) auto
  show "\<exists>ex. settlement_section p out = Inr (out\<lparr>SellerNet := mk (T - d) c,
      PlatformMargin := mk (if PSPFeeBearer p = ''platform'' then a1 - f1 else a1) c, Explain := ex\<rparr>)" if "d \<le> T"
  proof -
    have le: "a1 + (a2 + (a3 + a4)) \<le> T" using that rng by (auto simp: d_def split: if_splits)
    have F: "?F = Inr (mk (T - (a1 + (a2 + (a3 + a4)))) c)"
      using sub_chain [of "[a1, a2, a3, a4]" T "MoneyError ''settlement''" c] rng le by simp
    let ?n = "T - (a1 + (a2 + (a3 + a4)))"
    show ?thesis
    proof (cases "PSPFeeBearer p = ''seller''")
      case True
      have "Sub (mk ?n c) (mk f1 c) = Inr (mk (?n - f1) c)" "Sub (mk (?n - f1) c) (mk f2 c) = Inr (mk (T - d) c)"
        using that rng le True Sub_mk [of ?n f1 c] Sub_mk [of "?n - f1" f2 c]
        by (auto simp: d_def algebra_simps)
      then show ?thesis using True that unfolding settlement_section_def fields F
        by (simp add: IsNegative_def) blast
    next
      case False
      then show ?thesis using that m unfolding settlement_section_def fields F
        by (simp add: IsNegative_def d_def algebra_simps) blast
    qed
  qed
  show "\<exists>e. settlement_section p out = Inl e" if "\<not> d \<le> T"
  proof (rule no_Inr_Inl, rule notI, erule exE)
    fix r assume S: "settlement_section p out = Inr r"
    obtain n where F: "?F = Inr n" using S unfolding settlement_section_def fields by (cases ?F) auto
    have n: "minor n = T - (a1 + (a2 + (a3 + a4)))" "money_ok n"
      using sub_chain_Inr [of "MoneyError ''settlement''" c "[a1, a2, a3, a4]" "mk T c" n] F rng
      by (auto simp: money_ok_def in_i64_def)
    show False
    proof (cases "PSPFeeBearer p = ''seller''")
      case True
      then obtain x y where xy: "Sub n (mk f1 c) = Inr x" "Sub x (mk f2 c) = Inr y" "\<not> minor y < 0"
        using S F unfolding settlement_section_def fields by (auto simp: IsNegative_def split: if_splits)
      have ok: "money_ok (mk f1 c)" "money_ok (mk f2 c)" using rng by (auto simp: money_ok_def in_i64_def)
      have x: "minor x = minor n - f1" "money_ok x"
        using xy(1) Sub_Inr_iff [OF n(2) ok(1)] by (auto simp: money_ok_def)
      then have "minor y = minor x - f2" using xy(2) Sub_Inr_iff [OF x(2) ok(2)] by auto
      then show False using that n x xy(3) True by (simp add: d_def)
    next
      case False
      then have "\<not> minor n < 0" using S F unfolding settlement_section_def fields
        by (auto simp: IsNegative_def split: if_splits)
      then show False using that n False by (simp add: d_def)
    qed
  qed
qed

definition ref_breakdown :: "policy \<Rightarrow> seller \<Rightarrow> buyer \<Rightarrow> line \<Rightarrow> breakdown" where
  "ref_breakdown p s b l = (let c = cur (l_ListPrice l); L = minor (l_ListPrice l); k = classify p s b;
      T = ref_total p k L; com = share (l_CommissionBps l) L; fee = share (PSPFeeBps l) T in
    (initial_breakdown p s b l)
     \<lparr>CGST := mk (ref_cgst p k L) c, SGST := mk (ref_cgst p k L) c, IGST := mk (ref_igst p k L) c,
      TaxTotal := mk (2 * ref_cgst p k L + ref_igst p k L) c, BuyerTotal := mk T c,
      GSTRateBps := (if k = IntraState \<or> k = InterState then GSTBps p else 0),
      Commission := mk com c, CommissionGST := mk (share (CommissionGSTBps p) com) c,
      TCSCGST := mk (ref_tcs_half p s k L) c, TCSSGST := mk (ref_tcs_half p s k L) c,
      TCSIGST := mk (ref_tcs_igst p s k L) c, TCS := mk (ref_tcs p s k L) c,
      bd_TCSBps := (if ref_collects p s k then TCSBps p else 0),
      TDS := mk (share (ref_tds_rate p s L) L) c, bd_TDSBps := ref_tds_rate p s L,
      PSPFee := mk fee c, PSPFeeGST := mk (share (PSPFeeGSTBps l) fee) c,
      SellerNet := mk (T - ref_deductions p s k l) c,
      PlatformMargin := mk (if PSPFeeBearer p = ''platform'' then com - fee else com) c\<rparr>)"

text \<open>\<open>Verify\<close> accepts a breakdown whose components are these sums.\<close>

lemma Verify_ok:
  assumes fields: "ListPrice b = mk L c" "CGST b = mk g c" "SGST b = mk g c" "IGST b = mk i c"
      "TaxTotal b = mk (2 * g + i) c" "BuyerTotal b = mk T c" "SellerNet b = mk n c"
      "Commission b = mk a1 c" "CommissionGST b = mk a2 c" "TCS b = mk a3 c" "TDS b = mk a4 c"
      "PSPFee b = mk f1 c" "PSPFeeGST b = mk f2 c" "TCSCGST b = mk h c" "TCSSGST b = mk h c"
      "TCSIGST b = mk j c" "Currency b = c"
    and nn: "\<forall>x \<in> set [L, g, i, T, n, a1, a2, a3, a4, f1, f2, h, j]. 0 \<le> x"
    and T: "T = L + (2 * g + i)" "T \<le> max_i64"
      "n + a1 + a2 + a3 + a4 + (if PSPFeeBorne b = ''seller'' then f1 + f2 else 0) = T"
    and ex: "g = 0 \<or> i = 0" "h = 0 \<or> j = 0"
  shows "Verify b = Inr ()"
proof -
  have tax: "Sum [mk g c, mk g c, mk i c] = Inr (mk (2 * g + i) c)"
    using Sum_mk [of "[g, g, i]" c] nn T by simp
  have gross: "Add (mk L c) (mk (2 * g + i) c) = Inr (mk T c)"
    using nn T by (simp add: Add_exact money_ok_def in_i64_def)
  let ?D = "n + a1 + a2 + a3 + a4"
  have D: "?D \<le> T" "0 \<le> ?D" using nn T by (auto split: if_splits)
  have dist: "Sum [mk n c, mk a1 c, mk a2 c, mk a3 c, mk a4 c] = Inr (mk ?D c)"
    using Sum_mk [of "[n, a1, a2, a3, a4]" c] nn D T by (simp add: add.assoc)
  have psp: "PSPFeeBorne b = ''seller'' \<Longrightarrow> Sum [mk ?D c, mk f1 c, mk f2 c] = Inr (mk T c)"
    using Sum_mk [of "[?D, f1, f2]" c] nn D T by (simp add: add.assoc)
  have d: "(if PSPFeeBorne b = ''seller''
       then wrapE (MoneyError ''psp'') (Sum [mk ?D c, mk f1 c, mk f2 c])
       else Inr (mk ?D c)) = Inr (mk T c)"
    using psp T(3) by (auto simp: add.assoc)
  show ?thesis
    unfolding Verify_def fields tax gross dist wrapE_simps bindE_simps d
    using nn ex by (auto simp: Equal_def IsPositive_def IsNegative_def)
qed

lemma tcs_le_total: "validate p = Inr () \<Longrightarrow> line_ok l \<Longrightarrow> ref_deductions p s k l \<le> ref_total p k (minor (l_ListPrice l))
  \<Longrightarrow> ref_tcs p s k (minor (l_ListPrice l)) \<le> ref_total p k (minor (l_ListPrice l))"
proof -
  assume v: "validate p = Inr ()" and l: "line_ok l"
    and le: "ref_deductions p s k l \<le> ref_total p k (minor (l_ListPrice l))"
  let ?L = "minor (l_ListPrice l)" let ?T = "ref_total p k ?L"
  note V = v [unfolded validate_Inr] and l = l [unfolded line_ok_def]
  have L: "0 \<le> ?L" using l by simp
  have T: "0 \<le> ?T" using ref_nonneg(8) [OF v L, of k] L by simp
  have "0 \<le> share (l_CommissionBps l) ?L" using l share_bounds(1) [OF L] by simp
  moreover have "0 \<le> share (CommissionGSTBps p) (share (l_CommissionBps l) ?L)"
    using V calculation by (simp add: share_bounds)
  moreover have "0 \<le> share (ref_tds_rate p s ?L) ?L"
    using ref_nonneg(5,6) [OF v L, of s] by (simp add: share_bounds L)
  moreover have "0 \<le> share (PSPFeeBps l) ?T" using l T by (simp add: share_bounds)
  moreover have "0 \<le> share (PSPFeeGSTBps l) (share (PSPFeeBps l) ?T)" using l calculation by (simp add: share_bounds)
  ultimately show ?thesis using le unfolding ref_deductions_def Let_def
    by (auto split: if_splits)
qed

lemma Compute_reference:
  fixes p s b l
  assumes v: "validate p = Inr ()" and l: "line_ok l" and cu: "Valid (cur (l_ListPrice l))"
  defines "k \<equiv> classify p s b" and "L \<equiv> minor (l_ListPrice l)"
  shows "ref_total p k L \<le> max_i64 \<Longrightarrow> ref_deductions p s k l \<le> ref_total p k L \<Longrightarrow>
      \<exists>r ex. Compute p s b l = Inr (ref_breakdown p s b l\<lparr>TDSReason := r, Explain := ex\<rparr>)"
    and "\<not> (ref_total p k L \<le> max_i64 \<and> ref_deductions p s k l \<le> ref_total p k L) \<Longrightarrow>
      \<exists>e. Compute p s b l = Inl e"
proof -
  let ?c = "cur (l_ListPrice l)" and ?T = "ref_total p k L"
  have lp: "l_ListPrice l = mk L ?c" by (simp add: L_def)
  have Lb: "0 \<le> L" "L \<le> max_i64" using l by (simp_all add: line_ok_def L_def)
  note V = v [unfolded validate_Inr] and lk = l [unfolded line_ok_def]
  note nn = ref_nonneg [OF v Lb(1)]
  have guards: "\<not> IsNegative (l_ListPrice l)" "\<not> (l_CommissionBps l < 0 \<or> l_CommissionBps l > 10000)"
    using l by (auto simp: IsNegative_def line_ok_def)
  note gst = gst_section_eq [OF v l, of s b, folded k_def L_def]
  let ?com = "share (l_CommissionBps l) L" let ?cg = "share (CommissionGSTBps p) ?com"
  let ?td = "share (ref_tds_rate p s L) L" and ?tc = "ref_tcs p s k L"
  let ?f1 = "share (PSPFeeBps l) ?T" let ?f2 = "share (PSPFeeGSTBps l) ?f1"
  have com: "0 \<le> ?com" "?com \<le> L" using lk share_bounds [OF Lb(1)] by simp_all
  have cg: "0 \<le> ?cg" "?cg \<le> ?com" using V share_bounds [OF com(1)] by simp_all
  have td: "0 \<le> ?td" "?td \<le> L" using share_bounds [OF Lb(1) nn(5,6)] by simp_all
  have T: "0 \<le> ?T" using nn(8) [of k] Lb by simp
  have f1: "0 \<le> ?f1" "?f1 \<le> ?T" using lk share_bounds [OF T] by simp_all
  have f2: "0 \<le> ?f2" "?f2 \<le> ?f1" using lk share_bounds [OF f1(1)] by simp_all
  have tc: "0 \<le> ?tc" using nn(3,4) [of s k] by (simp add: ref_tcs_def)
  have ded: "ref_deductions p s k l = ?com + ?cg + ?tc + ?td + (if PSPFeeBearer p = ''seller'' then ?f1 + ?f2 else 0)"
    by (simp add: ref_deductions_def Let_def L_def)
  let ?i = "initial_breakdown p s b l"
  let ?o1 = "\<lambda>ex. ?i\<lparr>CGST := mk (ref_cgst p k L) ?c, SGST := mk (ref_cgst p k L) ?c, IGST := mk (ref_igst p k L) ?c,
       TaxTotal := mk (2 * ref_cgst p k L + ref_igst p k L) ?c, BuyerTotal := mk ?T ?c,
       GSTRateBps := (if k = IntraState \<or> k = InterState then GSTBps p else 0), Explain := ex\<rparr>"
  let ?o2 = "\<lambda>ex. (?o1 [])\<lparr>Commission := mk ?com ?c, CommissionGST := mk ?cg ?c, Explain := ex\<rparr>"
  let ?o3 = "\<lambda>ex. (?o2 [])\<lparr>TCSCGST := mk (ref_tcs_half p s k L) ?c, TCSSGST := mk (ref_tcs_half p s k L) ?c,
      TCSIGST := mk (ref_tcs_igst p s k L) ?c, TCS := mk ?tc ?c,
      bd_TCSBps := (if ref_collects p s k then TCSBps p else 0), Explain := ex\<rparr>"
  let ?o4 = "\<lambda>r ex. (?o3 [])\<lparr>TDSReason := r, TDS := mk ?td ?c, bd_TDSBps := ref_tds_rate p s L, Explain := ex\<rparr>"
  let ?o5 = "\<lambda>r ex. (?o4 r ex)\<lparr>PSPFee := mk ?f1 ?c, PSPFeeGST := mk ?f2 ?c\<rparr>"
  let ?o6 = "\<lambda>r ex. (?o5 r [])\<lparr>SellerNet := mk (?T - ref_deductions p s k l) ?c,
      PlatformMargin := mk (if PSPFeeBearer p = ''platform'' then ?com - ?f1 else ?com) ?c, Explain := ex\<rparr>"
  have init: "Supply ?i = k" "TCSCGST ?i = mk 0 ?c" "TCSSGST ?i = mk 0 ?c" "TCSIGST ?i = mk 0 ?c"
      "TCS ?i = mk 0 ?c" "bd_TCSBps ?i = 0" "TDS ?i = mk 0 ?c" "bd_TDSBps ?i = 0" "ListPrice ?i = mk L ?c"
      "PSPFeeBorne ?i = PSPFeeBearer p" "Currency ?i = ?c"
    by (simp_all add: initial_breakdown_def Let_def Zero_def k_def L_def)
  have C2: "\<exists>ex. Compute p s b l = bindE (tcs_section p s l (?o2 ex)) (\<lambda>out.
         bindE (tds_section p s l out) (\<lambda>out. bindE (psp_section l out) (\<lambda>out.
         bindE (settlement_section p out) (\<lambda>out. bindE (Verify out) (\<lambda>_. Inr out)))))" if T_le: "?T \<le> max_i64"
  proof -
    obtain e1 where e1: "gst_section p s b l ?i = Inr (?o1 e1)" using gst(1) [OF T_le] by blast
    obtain e2 where "commission_section p l (?o1 e1) = Inr (?o2 e2)"
      using commission_section_eq [OF v l lp, of "?o1 e1"] by auto
    then show ?thesis
      unfolding Compute_def v if_not_P [OF guards(1)] if_not_P [OF guards(2)] bindE_simps e1 by (simp only: bindE_simps) blast
  qed
  have C5: "\<exists>r ex. Compute p s b l = bindE (settlement_section p (?o5 r ex)) (\<lambda>out. bindE (Verify out) (\<lambda>_. Inr out))"
    if T: "?T \<le> max_i64" and t: "?tc \<le> max_i64"
  proof -
    obtain e2 where e2: "Compute p s b l = bindE (tcs_section p s l (?o2 e2)) (\<lambda>out.
         bindE (tds_section p s l out) (\<lambda>out. bindE (psp_section l out) (\<lambda>out.
         bindE (settlement_section p out) (\<lambda>out. bindE (Verify out) (\<lambda>_. Inr out)))))" using C2 [OF T] by blast
    obtain e3 where e3: "tcs_section p s l (?o2 e2) = Inr (?o3 e3)"
      using tcs_section_eq(1) [OF v l lp _ _ _ _ _ _ t, where out = "?o2 e2"] by (simp add: init) blast
    obtain r e4 where e4: "tds_section p s l (?o3 e3) = Inr (?o4 r e4)"
      using tds_section_eq [OF v l lp _ _ cu, where out = "?o3 e3" and s = s] by (simp add: init) blast
    have e5: "psp_section l (?o4 r e4) = Inr (?o5 r e4)"
      using psp_section_eq [OF l _ \<open>0 \<le> ?T\<close> T, of "?o4 r e4" ?c] by simp
    show ?thesis unfolding e2 e3 e4 e5 bindE_simps by blast
  qed
  have st: "settlement_section p (?o5 r ex) = x \<Longrightarrow>
      (ref_deductions p s k l \<le> ?T \<and> (\<exists>ex'. x = Inr (?o6 r ex'))) \<or> (\<not> ref_deductions p s k l \<le> ?T \<and> (\<exists>e. x = Inl e))"
    if T: "?T \<le> max_i64" and t: "?tc \<le> max_i64" for r ex x
    using settlement_section_eq [of "?o5 r ex" ?T ?c ?com ?cg ?tc ?td ?f1 ?f2 p] that com cg td f1 f2 tc Lb \<open>0 \<le> ?T\<close>
    unfolding ded by (cases "ref_deductions p s k l \<le> ?T") (auto simp: ded)
  show "\<exists>r ex. Compute p s b l = Inr (ref_breakdown p s b l\<lparr>TDSReason := r, Explain := ex\<rparr>)"
    if tot: "?T \<le> max_i64" and de: "ref_deductions p s k l \<le> ?T"
  proof -
    have t: "?tc \<le> max_i64" using tcs_le_total [OF v l, of s k] de tot by (simp add: L_def)
    obtain r e5 where e5: "Compute p s b l = bindE (settlement_section p (?o5 r e5)) (\<lambda>out. bindE (Verify out) (\<lambda>_. Inr out))"
      using C5 [OF tot t] by blast
    obtain e6 where e6: "settlement_section p (?o5 r e5) = Inr (?o6 r e6)"
      using st [OF tot t refl, where r = r and ex = e5] de by blast
    have "Verify (?o6 r e6) = Inr ()"
      by (rule Verify_ok [where c = ?c and L = L and g = "ref_cgst p k L" and i = "ref_igst p k L" and T = ?T
            and n = "?T - ref_deductions p s k l" and ?a1.0 = ?com and ?a2.0 = ?cg and ?a3.0 = ?tc and ?a4.0 = ?td
            and ?f1.0 = ?f1 and ?f2.0 = ?f2 and h = "ref_tcs_half p s k L" and j = "ref_tcs_igst p s k L"])
        (use init nn(1-4) Lb \<open>0 \<le> ?T\<close> com cg td tc f1 f2 de tot in
          \<open>simp_all add: ref_total_def ded ref_cgst_def ref_igst_def ref_tcs_half_def ref_tcs_igst_def\<close>)
    then have "Compute p s b l = Inr (?o6 r e6)" unfolding e5 e6 by simp
    moreover have "?o6 r e6 = ref_breakdown p s b l\<lparr>TDSReason := r, Explain := e6\<rparr>"
      by (simp add: ref_breakdown_def Let_def L_def k_def)
    ultimately show ?thesis by metis
  qed
  show "\<exists>e. Compute p s b l = Inl e" if no: "\<not> (?T \<le> max_i64 \<and> ref_deductions p s k l \<le> ?T)"
  proof -
    consider "\<not> ?T \<le> max_i64" | "?T \<le> max_i64" "\<not> ?tc \<le> max_i64"
      | "?T \<le> max_i64" "?tc \<le> max_i64" "\<not> ref_deductions p s k l \<le> ?T" using no by blast
    then show ?thesis
    proof cases
      case 1
      then show ?thesis using gst(2) unfolding Compute_def v if_not_P [OF guards(1)] if_not_P [OF guards(2)] by auto
    next
      case 2
      obtain e2 where e2: "Compute p s b l = bindE (tcs_section p s l (?o2 e2)) (\<lambda>out.
         bindE (tds_section p s l out) (\<lambda>out. bindE (psp_section l out) (\<lambda>out.
         bindE (settlement_section p out) (\<lambda>out. bindE (Verify out) (\<lambda>_. Inr out)))))" using C2 [OF 2(1)] by blast
      obtain e where "tcs_section p s l (?o2 e2) = Inl e"
        using tcs_section_eq(2) [OF v l lp _ _ _ _ _ _ 2(2), of "?o2 e2"] init by auto
      then show ?thesis unfolding e2 by simp
    next
      case 3
      obtain r e5 where e5: "Compute p s b l = bindE (settlement_section p (?o5 r e5)) (\<lambda>out. bindE (Verify out) (\<lambda>_. Inr out))"
        using C5 [OF 3(1,2)] by blast
      obtain e where "settlement_section p (?o5 r e5) = Inl e"
        using st [OF 3(1,2) refl, where r = r and ex = e5] 3(3) by blast
      then show ?thesis unfolding e5 by simp
    qed
  qed
qed

subsection \<open>What a computed breakdown satisfies\<close>

lemma Compute_Inr:
  assumes c: "Compute p s b l = Inr out" and l: "line_ok l" "Valid (cur (l_ListPrice l))"
  defines "k \<equiv> classify p s b" and "L \<equiv> minor (l_ListPrice l)"
  shows "validate p = Inr ()" "ref_total p k L \<le> max_i64" "ref_deductions p s k l \<le> ref_total p k L"
    "out = ref_breakdown p s b l\<lparr>TDSReason := TDSReason out, Explain := Explain out\<rparr>"
proof -
  show v: "validate p = Inr ()" using c by (auto simp: Compute_def)
  note ref = Compute_reference [OF v l, of s b, folded k_def L_def]
  have ok: "ref_total p k L \<le> max_i64 \<and> ref_deductions p s k l \<le> ref_total p k L"
    using ref(2) c by (cases "ref_total p k L \<le> max_i64 \<and> ref_deductions p s k l \<le> ref_total p k L") auto
  then show "ref_total p k L \<le> max_i64" "ref_deductions p s k l \<le> ref_total p k L" by simp_all
  obtain r ex where "Compute p s b l = Inr (ref_breakdown p s b l\<lparr>TDSReason := r, Explain := ex\<rparr>)"
    using ref(1) ok by blast
  then have "out = ref_breakdown p s b l\<lparr>TDSReason := r, Explain := ex\<rparr>" using c by simp
  then show "out = ref_breakdown p s b l\<lparr>TDSReason := TDSReason out, Explain := Explain out\<rparr>" by simp
qed

lemma Compute_fields:
  assumes "Compute p s b l = Inr out" and "line_ok l" and "Valid (cur (l_ListPrice l))"
  defines "k \<equiv> classify p s b" and "L \<equiv> minor (l_ListPrice l)" and "c \<equiv> cur (l_ListPrice l)"
  shows "CGST out = mk (ref_cgst p k L) c" "SGST out = mk (ref_cgst p k L) c" "IGST out = mk (ref_igst p k L) c"
    "BuyerTotal out = mk (ref_total p k L) c" "Commission out = mk (share (l_CommissionBps l) L) c"
    "CommissionGST out = mk (share (CommissionGSTBps p) (share (l_CommissionBps l) L)) c"
    "TCS out = mk (ref_tcs p s k L) c" "TDS out = mk (share (ref_tds_rate p s L) L) c"
    "PSPFee out = mk (share (PSPFeeBps l) (ref_total p k L)) c"
    "PSPFeeGST out = mk (share (PSPFeeGSTBps l) (share (PSPFeeBps l) (ref_total p k L))) c"
    "SellerNet out = mk (ref_total p k L - ref_deductions p s k l) c"
    "Supply out = k" "TCSCGST out = mk (ref_tcs_half p s k L) c" "TCSSGST out = mk (ref_tcs_half p s k L) c"
    "TCSIGST out = mk (ref_tcs_igst p s k L) c" "TaxTotal out = mk (2 * ref_cgst p k L + ref_igst p k L) c"
    "ListPrice out = l_ListPrice l" "Currency out = c" "PSPFeeBorne out = PSPFeeBearer p"
    "CommissionBps out = l_CommissionBps l"
proof -
  obtain r ex where "out = ref_breakdown p s b l\<lparr>TDSReason := r, Explain := ex\<rparr>"
    using Compute_Inr(4) [OF assms(1-3)] by blast
  note o = this [unfolded ref_breakdown_def Let_def initial_breakdown_def Zero_def, folded k_def L_def c_def]
  show "CGST out = mk (ref_cgst p k L) c" "SGST out = mk (ref_cgst p k L) c" "IGST out = mk (ref_igst p k L) c"
    "BuyerTotal out = mk (ref_total p k L) c" "Commission out = mk (share (l_CommissionBps l) L) c"
    "CommissionGST out = mk (share (CommissionGSTBps p) (share (l_CommissionBps l) L)) c"
    "TCS out = mk (ref_tcs p s k L) c" "TDS out = mk (share (ref_tds_rate p s L) L) c"
    "PSPFee out = mk (share (PSPFeeBps l) (ref_total p k L)) c"
    "PSPFeeGST out = mk (share (PSPFeeGSTBps l) (share (PSPFeeBps l) (ref_total p k L))) c"
    "SellerNet out = mk (ref_total p k L - ref_deductions p s k l) c"
    "Supply out = k" "TCSCGST out = mk (ref_tcs_half p s k L) c" "TCSSGST out = mk (ref_tcs_half p s k L) c"
    "TCSIGST out = mk (ref_tcs_igst p s k L) c" "TaxTotal out = mk (2 * ref_cgst p k L + ref_igst p k L) c"
    "ListPrice out = l_ListPrice l" "Currency out = c" "PSPFeeBorne out = PSPFeeBearer p"
    "CommissionBps out = l_CommissionBps l"
    unfolding o by simp_all
qed

lemmas Compute_simps = Compute_fields(1-11)

text \<open>
  C1: every breakdown \<open>Compute\<close> returns distributes the buyer's payment to the
  minor unit: list price plus the three GST components is the buyer's total, and the seller's
  net plus commission, GST on it, TCS, TDS (and the processing cost when the seller bears it)
  is the same total; nothing is negative, and every amount is in the currency of the price.
\<close>

theorem compute_conserves:
  assumes "Compute p s b l = Inr out" and "line_ok l" and "Valid (cur (l_ListPrice l))"
  shows "minor (BuyerTotal out) = minor (l_ListPrice l) + minor (CGST out) + minor (SGST out) + minor (IGST out)
    \<and> minor (SellerNet out) + minor (Commission out) + minor (CommissionGST out) + minor (TCS out) + minor (TDS out)
       + (if PSPFeeBearer p = ''seller'' then minor (PSPFee out) + minor (PSPFeeGST out) else 0)
       = minor (BuyerTotal out)
    \<and> (\<forall>m \<in> {BuyerTotal out, CGST out, SGST out, IGST out, SellerNet out, Commission out,
          CommissionGST out, TCS out, TDS out, PSPFee out, PSPFeeGST out}.
        0 \<le> minor m \<and> cur m = cur (l_ListPrice l))"
proof -
  let ?k = "classify p s b" and ?L = "minor (l_ListPrice l)" let ?T = "ref_total p ?k ?L"
  note C = Compute_Inr [OF assms]
  note V = C(1) [unfolded validate_Inr] and l = assms(2) [unfolded line_ok_def]
  have L: "0 \<le> ?L" using l by simp
  note nn = ref_nonneg [OF C(1) L]
  have T: "0 \<le> ?T" using nn(8) [of ?k] L by simp
  have com: "0 \<le> share (l_CommissionBps l) ?L" using l by (simp add: share_bounds)
  have fee: "0 \<le> share (PSPFeeBps l) ?T" using l T by (simp add: share_bounds)
  have sh: "0 \<le> share (CommissionGSTBps p) (share (l_CommissionBps l) ?L)"
    "0 \<le> share (PSPFeeGSTBps l) (share (PSPFeeBps l) ?T)" "0 \<le> share (ref_tds_rate p s ?L) ?L"
    using l V com fee nn(5,6) by (simp_all add: share_bounds L)
  have tc: "0 \<le> ref_tcs p s ?k ?L" using nn(3,4) by (simp add: ref_tcs_def)
  show ?thesis using C(3) L T com fee sh tc nn(1,2)
    by (simp add: Compute_simps [OF assms] ref_total_def ref_deductions_def Let_def)
qed

definition sample_seller :: seller where
  "sample_seller = \<lparr>GSTRegistered = True, s_GSTIN = ''33AAAAA0000A1Z5'', s_StateCode = 33, HasPAN = True,
     ResidentIndividualOrHUF = False, FYGrossSupplyMinor = 0, s_Country = ''IN''\<rparr>"

definition sample_buyer :: buyer where
  "sample_buyer = \<lparr>b_Country = ''IN'', b_StateCode = 33, b_GSTIN = [], IsB2B = False\<rparr>"

definition sample_line :: line where
  "sample_line = \<lparr>l_ListPrice = mk 99900 ''INR'', l_CommissionBps = 1000, PSPFeeBps = 200, PSPFeeGSTBps = 1800\<rparr>"

lemma share_eq: "0 \<le> x \<Longrightarrow> 0 \<le> bps \<Longrightarrow> share bps x = (2 * (x * bps) + 10000) div 20000"
  by (auto simp: share_def round_ref_def round_mag_def sgn_if)

lemma share_upper: "0 \<le> x \<Longrightarrow> 0 \<le> bps \<Longrightarrow> 20000 * share bps x \<le> 2 * (x * bps) + 10000"
  using div_bounds(1) [of 20000 "2 * (x * bps) + 10000"] by (simp add: share_eq)

lemma default_deductions:
  assumes L: "0 \<le> L" and c: "0 \<le> cb" "cb \<le> 5000" and h: "tcs \<le> 2 * share 50 L \<or> tcs \<le> share 100 L"
    and r: "0 \<le> rate" "rate \<le> 500"
  shows "share cb L + share 1800 (share cb L) + tcs + share rate L \<le> L"
proof -
  have c0: "0 \<le> share cb L" using share_bounds(1) [OF L] c by simp
  have "L * cb \<le> L * 5000" "L * rate \<le> L * 500" using L c r by (simp_all add: mult_left_mono)
  then have com: "20000 * share cb L \<le> 10000 * L + 10000" and tds: "20000 * share rate L \<le> 1000 * L + 10000"
    using share_upper [OF L, of cb] share_upper [OF L, of rate] c r by simp_all
  have cg: "20000 * share 1800 (share cb L) \<le> 3600 * share cb L + 10000"
    using share_upper [OF c0, of 1800] by simp
  have t: "20000 * share 50 L \<le> 100 * L + 10000" "20000 * share 100 L \<le> 200 * L + 10000"
    using share_upper [OF L, of 50] share_upper [OF L, of 100] by simp_all
  have arith: "a + g + x + d \<le> L"
    if "20000 * a \<le> 10000 * L + 10000" "20000 * g \<le> 3600 * a + 10000" "20000 * d \<le> 1000 * L + 10000"
      "20000 * y \<le> 100 * L + 10000" "20000 * z \<le> 200 * L + 10000" "x \<le> 2 * y \<or> x \<le> z" for a g x d y z
  proof (cases "8 \<le> L")
    case True
    then show ?thesis using that by linarith
  next
    case False
    then have L7: "L \<le> 7" by simp
    have "y \<le> 0" "z \<le> 0" "d \<le> 0" "2 * a \<le> L + 1" using that(1,3,4,5) L7 by linarith+
    moreover have "g \<le> 1" using that(2) \<open>2 * a \<le> L + 1\<close> L7 by linarith
    moreover have "a \<le> 2 \<Longrightarrow> g \<le> 0" using that(2) by linarith
    ultimately show ?thesis using that(6) L by (cases "a \<le> 2") linarith+
  qed
  show ?thesis by (rule arith [OF com cg tds t h])
qed

lemma default_accepts:
  assumes "line_ok l" and "Valid (cur (l_ListPrice l))" and "l_CommissionBps l \<le> 5000"
    and "minor (l_ListPrice l) \<le> 7800000000000000000"
  shows "\<exists>out. Compute DefaultPolicy s b l = Inr out"
proof -
  let ?p = DefaultPolicy and ?k = "classify DefaultPolicy s b" and ?L = "minor (l_ListPrice l)"
  have v: "validate ?p = Inr ()" by (simp add: validate_Inr DefaultPolicy_def)
  have l: "0 \<le> ?L" "0 \<le> l_CommissionBps l" using assms(1) by (simp_all add: line_ok_def)
  have T: "?L \<le> ref_total ?p ?k ?L" using ref_nonneg(8) [OF v l(1)] .
  have "20000 * share 900 ?L \<le> 1800 * ?L + 10000" "20000 * share 1800 ?L \<le> 3600 * ?L + 10000"
    using share_upper [OF l(1), of 900] share_upper [OF l(1), of 1800] by simp_all
  then have tot: "ref_total ?p ?k ?L \<le> max_i64"
    using assms(4) l(1) by (auto simp: ref_total_def ref_cgst_def ref_igst_def DefaultPolicy_def)
  have h: "ref_tcs ?p s ?k ?L \<le> 2 * share 50 ?L \<or> ref_tcs ?p s ?k ?L \<le> share 100 ?L"
    using share_bounds(1) [OF l(1)]
    by (auto simp: ref_tcs_def ref_tcs_half_def ref_tcs_igst_def DefaultPolicy_def)
  have r: "0 \<le> ref_tds_rate ?p s ?L" "ref_tds_rate ?p s ?L \<le> 500"
    by (simp_all add: ref_tds_rate_def DefaultPolicy_def)
  have "ref_deductions ?p s ?k l \<le> ?L"
    using default_deductions [OF l assms(3) h r]
    by (simp add: ref_deductions_def Let_def) (simp add: DefaultPolicy_def)
  then show ?thesis using Compute_reference(1) [OF v assms(1,2) tot] T by fastforce
qed

lemma sample_line_ok: "line_ok sample_line" "Valid (cur (l_ListPrice sample_line))"
  by (simp_all add: line_ok_def sample_line_def Valid_def exponents_def)


text \<open>
  C19: under the default policy, with a commission of at most 50% and any
  processing rates, \<open>Compute\<close> succeeds on every non-negative list price up to 7.8 * 10^18 minor
  units in a known currency, for every seller and every buyer; rounding half up can never push
  the deductions above the payment, however small the price.
\<close>

theorem default_policy_accepts:
  assumes "line_ok l" and "Valid (cur (l_ListPrice l))" and "l_CommissionBps l \<le> 5000"
    and "minor (l_ListPrice l) \<le> 7800000000000000000"
  shows "\<exists>out. Compute DefaultPolicy s b l = Inr out"
  using assms by (rule default_accepts)

theorem default_policy_accepts_witness:
  "\<exists>out. Compute DefaultPolicy sample_seller sample_buyer sample_line = Inr out"
  using default_policy_accepts [OF sample_line_ok, of sample_seller sample_buyer]
  by (simp add: sample_line_def)

theorem compute_conserves_witness:
  "\<exists>out. Compute DefaultPolicy sample_seller sample_buyer sample_line = Inr out
    \<and> minor (SellerNet out) + minor (Commission out) + minor (CommissionGST out) + minor (TCS out) + minor (TDS out)
      = minor (BuyerTotal out) \<and> minor (BuyerTotal out) = 117882 \<and> minor (SellerNet out) = 104994"
proof -
  obtain out where out: "Compute DefaultPolicy sample_seller sample_buyer sample_line = Inr out"
    using default_accepts [OF sample_line_ok, of sample_seller sample_buyer] by (auto simp: sample_line_def)
  have "classify DefaultPolicy sample_seller sample_buyer = IntraState"
    "ref_total DefaultPolicy IntraState (minor (l_ListPrice sample_line)) = 117882"
    "ref_deductions DefaultPolicy sample_seller IntraState sample_line = 12888"
    by code_simp+
  then have n: "minor (BuyerTotal out) = 117882" "minor (SellerNet out) = 104994"
    using Compute_simps [OF out sample_line_ok] by simp_all
  have "PSPFeeBearer DefaultPolicy \<noteq> ''seller''" by (simp add: DefaultPolicy_def)
  then show ?thesis using compute_conserves [OF out sample_line_ok] n
    by (intro exI [of _ out]) (simp add: out)
qed

text \<open>The exemption threshold is exact while the year's total fits in 64 bits.\<close>

lemma belowThreshold_exact:
  assumes "fy + sale \<le> max_i64"
  shows "belowThreshold fy sale limit \<longleftrightarrow> 0 \<le> fy \<and> 0 \<le> sale \<and> fy \<le> limit \<and> fy + sale \<le> limit"
  using assms by (auto simp: belowThreshold_def wrap64_id in_i64_def)

text \<open>
  Past that the addition wraps: a total of 500000.00 and a sale of the largest amount count as
  below the threshold, though the comment on \<open>belowThreshold\<close> says a sum must not wrap into
  "below".
\<close>

theorem threshold_wraps:
  "belowThreshold 50000000 max_i64 (TDSThresholdMinor DefaultPolicy)"
  by (simp add: belowThreshold_def wrap64_def DefaultPolicy_def)

text \<open>
  C18: the tax components of a breakdown are the statutory ones: equal central and
  state halves and no integrated tax on an intra-state supply, integrated tax only on an
  inter-state one, none on an export or from an unregistered seller; TCS in the same split, and
  none from a seller without registration or (by policy) on exports; TDS at the rate of the
  seller's residence, PAN and threshold; commission on the tax-exclusive price.
\<close>

theorem tax_components:
  assumes "Compute p s b l = Inr out" and "line_ok l" and "Valid (cur (l_ListPrice l))"
  shows "Supply out = classify p s b
    \<and> (minor (CGST out), minor (SGST out), minor (IGST out)) =
        (let x = minor (l_ListPrice l) in
         case classify p s b of
           IntraState \<Rightarrow> (share (GSTBps p div 2) x, share (GSTBps p div 2) x, 0)
         | InterState \<Rightarrow> (0, 0, share (GSTBps p) x)
         | _ \<Rightarrow> (0, 0, 0))
    \<and> minor (Commission out) = share (l_CommissionBps l) (minor (l_ListPrice l))
    \<and> minor (TCS out) = minor (TCSCGST out) + minor (TCSSGST out) + minor (TCSIGST out)
    \<and> (minor (TCSCGST out), minor (TCSSGST out), minor (TCSIGST out)) =
        (let x = minor (l_ListPrice l) in
         if \<not> ref_collects p s (classify p s b) then (0, 0, 0)
         else if classify p s b = IntraState then (share (TCSBps p div 2) x, share (TCSBps p div 2) x, 0)
         else (0, 0, share (TCSBps p) x))
    \<and> minor (TDS out) = share (ref_tds_rate p s (minor (l_ListPrice l))) (minor (l_ListPrice l))"
  by (simp add: Compute_fields [OF assms] Let_def ref_cgst_def ref_igst_def ref_tcs_def ref_tcs_half_def
      ref_tcs_igst_def split: supply_kind.splits)

theorem tax_components_witness:
  "\<exists>out. Compute DefaultPolicy sample_seller sample_buyer sample_line = Inr out
    \<and> Supply out = IntraState \<and> minor (CGST out) = 8991 \<and> minor (IGST out) = 0 \<and> minor (TCS out) = 1000"
proof -
  obtain out where out: "Compute DefaultPolicy sample_seller sample_buyer sample_line = Inr out"
    using default_accepts [OF sample_line_ok, of sample_seller sample_buyer] by (auto simp: sample_line_def)
  have k: "classify DefaultPolicy sample_seller sample_buyer = IntraState"
    "ref_collects DefaultPolicy sample_seller IntraState"
    "share (GSTBps DefaultPolicy div 2) (minor (l_ListPrice sample_line)) = 8991"
    "share (TCSBps DefaultPolicy div 2) (minor (l_ListPrice sample_line)) = 500"
    by code_simp+
  show ?thesis using tax_components [OF out sample_line_ok] k
    by (intro exI [of _ out]) (simp add: out Let_def)
qed

subsection \<open>The financial year\<close>

lemma Year_spec: "dby (Year t) \<le> day_of t" "day_of t < dby (Year t + 1)"
  unfolding Year_def by (rule year_of_day_spec)+

lemma Date_le: "Date y m d \<le> t \<longleftrightarrow> dby y + month_offset (leap y) m + d - 1 \<le> day_of t"
proof -
  have "x * 86400 \<le> t \<longleftrightarrow> x \<le> t div 86400" for x using div_bounds [of 86400 t] by linarith
  then show ?thesis by (auto simp: Date_def day_of_def)
qed

text \<open>
  \<open>FinancialYearStart\<close> is the latest 1 April at or before the instant: it is the
  midnight that opens 1 April of some year, the instant is not before it, and the instant is
  before 1 April of the following year.
\<close>

theorem financial_year:
  "\<exists>y. FinancialYearStart t = Date y 4 1 \<and> Date y 4 1 \<le> t \<and> t < Date (y + 1) 4 1"
proof -
  let ?y = "Year t" and ?d = "day_of t - dby (Year t)"
  have d: "0 \<le> ?d" using Year_spec(1) [of t] by simp
  have M: "Month t < 4 \<longleftrightarrow> ?d < month_offset (leap ?y) 4"
    unfolding Month_def by (rule month_before_april [OF d])
  have off: "0 \<le> month_offset lp 4" "month_offset lp 4 \<le> 91" for lp by (simp_all add: month_offset_def)
  show ?thesis
  proof (cases "Month t < 4")
    case True
    have "dby (?y - 1) + 365 \<le> dby ?y" using dby_Suc [of "?y - 1"] by simp
    then have "Date (?y - 1) 4 1 \<le> t" using off(2) [of "leap (?y - 1)"] Year_spec(1) [of t] by (simp add: Date_le)
    moreover have "\<not> Date ?y 4 1 \<le> t" using True M by (simp add: Date_le)
    ultimately show ?thesis using True
      by (intro exI [of _ "?y - 1"]) (simp add: FinancialYearStart_def Let_def)
  next
    case False
    have "Date ?y 4 1 \<le> t" using False M by (simp add: Date_le)
    moreover have "\<not> Date (?y + 1) 4 1 \<le> t"
      using Year_spec(2) [of t] off(1) [of "leap (?y + 1)"] by (simp add: Date_le)
    ultimately show ?thesis using False
      by (intro exI [of _ ?y]) (simp add: FinancialYearStart_def Let_def)
  qed
qed

end
