(* ===== verification/Ids.thy ===== *)
theory Ids
  imports GoStrings "HOL-Library.Word"
begin

unbundle bit_operations_syntax

text \<open>
  \<open>internal/platform/ids/ids.go\<close>: the UUIDv7 generator as a state machine over its two package
  variables \<open>lastMS\<close> and \<open>lastSeq\<close>, the text form of a UUID and its parser, and the public
  identifiers with their Crockford base-32 encoder. The clock reading and the random bytes are
  inputs of the operations. The proofs show that the generator is strictly monotone whatever
  the clock does and how far its timestamp can run ahead, that parsing inverts printing, and
  that every public id is accepted by the validators and determines its 128 bits.
\<close>

text \<open>A byte is a natural number below 256; a \<open>UUID\<close> is a list of 16 of them.\<close>

type_synonym uuid_bytes = "nat list"

definition bytes_ok :: "nat \<Rightarrow> nat list \<Rightarrow> bool" where
  "bytes_ok n bs \<longleftrightarrow> length bs = n \<and> (\<forall>b \<in> set bs. b < 256)"

subsection \<open>UUIDv7\<close>

record generator =
  lastMS :: int
  lastSeq :: nat

definition initial_generator :: generator where
  "initial_generator = \<lparr>lastMS = 0, lastSeq = 0\<rparr>"

text \<open>The switch under \<open>seqMu\<close>: the new state, and the \<open>ms\<close> and \<open>seq\<close> that are encoded.\<close>

definition next_id :: "int \<Rightarrow> generator \<Rightarrow> generator" where
  "next_id now g =
    (if now > lastMS g then \<lparr>lastMS = now, lastSeq = 0\<rparr>
     else let s = (lastSeq g + 1) mod 65536 in
          if s > 0x0FFF then \<lparr>lastMS = lastMS g + 1, lastSeq = 0\<rparr>
          else g\<lparr>lastSeq := s\<rparr>)"

definition encode_v7 :: "int \<Rightarrow> nat \<Rightarrow> nat list \<Rightarrow> uuid_bytes" where
  "encode_v7 ms seq rand =
     [nat (ms div 2 ^ 40 mod 256), nat (ms div 2 ^ 32 mod 256), nat (ms div 2 ^ 24 mod 256),
      nat (ms div 2 ^ 16 mod 256), nat (ms div 2 ^ 8 mod 256), nat (ms mod 256),
      0x70 OR (seq div 256) mod 256, seq mod 256, ((rand ! 2) AND 0x3F) OR 0x80] @ drop 3 rand"

text \<open>\<open>rand.Read(u[6:])\<close> fills ten bytes; a failing reader panics, so they are always given.\<close>

definition NewUUIDv7 :: "int \<Rightarrow> nat list \<Rightarrow> generator \<Rightarrow> uuid_bytes \<times> generator" where
  "NewUUIDv7 now rand g = (let g' = next_id now g in (encode_v7 (lastMS g') (lastSeq g') rand, g'))"

definition be_val :: "nat list \<Rightarrow> nat" where
  "be_val bs = foldl (\<lambda>a b. a * 256 + b) 0 bs"

text \<open>\<open>Time\<close>: the embedded millisecond timestamp.\<close>

definition uuid_ms :: "uuid_bytes \<Rightarrow> nat" where
  "uuid_ms u = be_val (take 6 u)"

definition IsZero :: "uuid_bytes \<Rightarrow> bool" where
  "IsZero u \<longleftrightarrow> u = replicate 16 0"

definition hex_digit :: "nat \<Rightarrow> char" where
  "hex_digit n = (if n < 10 then digit_char n else char_of (87 + n))"

definition hex_encode :: "nat list \<Rightarrow> string" where
  "hex_encode bs = concat (map (\<lambda>b. [hex_digit (b div 16), hex_digit (b mod 16)]) bs)"

definition uuid_string :: "uuid_bytes \<Rightarrow> string" where
  "uuid_string u = hex_encode (take 4 u) @ ''-'' @ hex_encode (take 2 (drop 4 u)) @ ''-''
     @ hex_encode (take 2 (drop 6 u)) @ ''-'' @ hex_encode (take 2 (drop 8 u)) @ ''-''
     @ hex_encode (take 6 (drop 10 u))"

definition from_hex :: "char \<Rightarrow> nat option" where
  "from_hex c = (let n = (of_char c :: nat) in
     if 48 \<le> n \<and> n \<le> 57 then Some (n - 48)
     else if 97 \<le> n \<and> n \<le> 102 then Some (n - 87)
     else if 65 \<le> n \<and> n \<le> 70 then Some (n - 55)
     else None)"

text \<open>\<open>hex.DecodeString\<close>.\<close>

fun hex_decode :: "string \<Rightarrow> nat list option" where
  "hex_decode [] = Some []"
| "hex_decode [c] = None"
| "hex_decode (a # b # s) = (case (from_hex a, from_hex b) of
     (Some x, Some y) \<Rightarrow> (case hex_decode s of None \<Rightarrow> None | Some bs \<Rightarrow> Some ((x * 16 + y) # bs))
   | _ \<Rightarrow> None)"

definition ParseUUID :: "string \<Rightarrow> string + uuid_bytes" where
  "ParseUUID s = (let s = trim_space s in
     if length s \<noteq> 36 \<or> s ! 8 \<noteq> CHR ''-'' \<or> s ! 13 \<noteq> CHR ''-'' \<or> s ! 18 \<noteq> CHR ''-'' \<or> s ! 23 \<noteq> CHR ''-''
     then Inl s
     else let clean = take 8 s @ take 4 (drop 9 s) @ take 4 (drop 14 s) @ take 4 (drop 19 s) @ take 12 (drop 24 s)
          in case hex_decode clean of None \<Rightarrow> Inl s | Some b \<Rightarrow> Inr b)"

subsection \<open>Public identifiers\<close>

definition crockford :: string where
  "crockford = ''0123456789ABCDEFGHJKMNPQRSTVWXYZ''"

text \<open>The reverse table; later assignments override earlier ones, as in the initialiser.\<close>

definition lower_bit :: "char \<Rightarrow> char" where
  "lower_bit c = char_of ((of_char c :: nat) OR 0x20)"

definition crockfordRev :: "char \<Rightarrow> int" where
  "crockfordRev c = (case map_of
     ([(CHR ''u'', 27), (CHR ''U'', 27), (CHR ''i'', 1), (CHR ''I'', 1), (CHR ''l'', 1), (CHR ''L'', 1),
       (CHR ''o'', 0), (CHR ''O'', 0)]
      @ zip crockford (map int [0..<32]) @ zip (map lower_bit crockford) (map int [0..<32])) c of
     None \<Rightarrow> -1 | Some i \<Rightarrow> i)"

text \<open>The loop of \<open>encodeCrockford\<close>, from the last symbol to the first.\<close>

fun crockford_loop :: "nat \<Rightarrow> 64 word \<Rightarrow> 64 word \<Rightarrow> string \<Rightarrow> string" where
  "crockford_loop 0 hi lo out = out"
| "crockford_loop (Suc i) hi lo out = crockford_loop i (drop_bit 5 hi)
     (drop_bit 5 lo OR push_bit 59 (hi AND 0x1F)) (crockford ! unat (lo AND 0x1F) # out)"

definition encodeCrockford :: "nat list \<Rightarrow> string" where
  "encodeCrockford b = crockford_loop 26 (of_nat (be_val (take 8 b))) (of_nat (be_val (take 8 (drop 8 b)))) []"

definition NewPublic :: "string \<Rightarrow> nat list \<Rightarrow> string" where
  "NewPublic p raw = p @ ''_'' @ encodeCrockford raw"

definition index_of :: "char \<Rightarrow> string \<Rightarrow> nat option" where
  "index_of c s = (if c \<in> set s then Some (length (takeWhile (\<lambda>x. x \<noteq> c) s)) else None)"

datatype public_id_error = ErrBadPublicID | ErrExpectedPrefix string

definition ParsePublic :: "string \<Rightarrow> string \<Rightarrow> public_id_error + string" where
  "ParsePublic want s = (case index_of (CHR ''_'') s of
     None \<Rightarrow> Inl ErrBadPublicID
   | Some i \<Rightarrow>
       if i = 0 \<or> i = length s - 1 then Inl ErrBadPublicID
       else if take i s \<noteq> want then Inl (ErrExpectedPrefix want)
       else let body = drop (i + 1) s in
            if length body \<noteq> 26 then Inl ErrBadPublicID
            else if \<exists>c \<in> set body. crockfordRev c < 0 then Inl ErrBadPublicID
            else Inr body)"

definition ValidPublic :: "string \<Rightarrow> bool" where
  "ValidPublic s = (case index_of (CHR ''_'') s of
     None \<Rightarrow> False
   | Some i \<Rightarrow> \<not> (i = 0 \<or> i > 4 \<or> length s - i - 1 \<noteq> 26) \<and> (\<forall>c \<in> set (drop (i + 1) s). \<not> crockfordRev c < 0))"

definition Correlation :: "nat list \<Rightarrow> string" where
  "Correlation raw = hex_encode raw"

subsection \<open>The generator is strictly monotone\<close>

definition gen_ok :: "generator \<Rightarrow> bool" where
  "gen_ok g \<longleftrightarrow> 0 \<le> lastMS g \<and> lastSeq g \<le> 0x0FFF"

text \<open>The position of the generator: 4096 ids per millisecond.\<close>

definition gen_key :: "generator \<Rightarrow> int" where
  "gen_key g = lastMS g * 4096 + int (lastSeq g)"

lemma next_id_ok: "gen_ok g \<Longrightarrow> gen_ok (next_id now g)"
  by (auto simp: gen_ok_def next_id_def Let_def)

lemma next_id_key:
  assumes "gen_ok g"
  shows "gen_key (next_id now g) = (if now > lastMS g then now * 4096 else gen_key g + 1)"
  using assms by (auto simp: gen_ok_def next_id_def gen_key_def Let_def)

lemma next_id_less:
  assumes "gen_ok g"
  shows "gen_key g < gen_key (next_id now g)"
  using assms by (auto simp: next_id_key) (auto simp: gen_ok_def gen_key_def)

lemma next_id_ms: "gen_ok g \<Longrightarrow> now \<le> lastMS (next_id now g) \<and> lastMS g \<le> lastMS (next_id now g)"
  by (auto simp: next_id_def Let_def gen_ok_def)

text \<open>A run of the generator on clock readings and random bytes.\<close>

fun gen_run :: "(int \<times> nat list) list \<Rightarrow> generator \<Rightarrow> uuid_bytes list \<times> generator" where
  "gen_run [] g = ([], g)"
| "gen_run ((now, rand) # cs) g = (let (u, g') = NewUUIDv7 now rand g; (us, g'') = gen_run cs g' in (u # us, g''))"

lemma be_val_snoc: "be_val (bs @ [b]) = be_val bs * 256 + b"
  by (simp add: be_val_def)

lemma be_val_Cons_gen: "foldl (\<lambda>a b. a * 256 + b) x bs = x * 256 ^ length bs + be_val bs"
proof (induction bs arbitrary: x)
  case (Cons b bs)
  have "be_val (b # bs) = b * 256 ^ length bs + be_val bs"
    using Cons [of b] by (simp add: be_val_def)
  then show ?case using Cons [of "x * 256 + b"] by (simp add: algebra_simps)
qed (simp add: be_val_def)

lemma be_val_Cons: "be_val (b # bs) = b * 256 ^ length bs + be_val bs"
  using be_val_Cons_gen [of b bs] by (simp add: be_val_def)

lemma be_val_append: "be_val (xs @ ys) = be_val xs * 256 ^ length ys + be_val ys"
  using be_val_Cons_gen [of "be_val xs" ys] by (simp add: be_val_def)

lemma be_val_less: "\<forall>b \<in> set bs. b < 256 \<Longrightarrow> be_val bs < 256 ^ length bs"
proof (induction bs rule: rev_induct)
  case (snoc b bs)
  then have "be_val bs + 1 \<le> 256 ^ length bs" "b < 256" by auto
  then show ?case by (simp add: be_val_snoc)
qed (simp add: be_val_def)

lemma digit_split: "a * 256 + x = b * 256 + y \<Longrightarrow> x < 256 \<Longrightarrow> y < 256 \<Longrightarrow> a = b \<and> x = y" for a b x y :: nat
proof -
  assume e: "a * 256 + x = b * 256 + y" and l: "x < 256" "y < 256"
  have "(a * 256 + x) div 256 = a" "(a * 256 + x) mod 256 = x" "(b * 256 + y) div 256 = b" "(b * 256 + y) mod 256 = y"
    using l by simp_all
  then show ?thesis using e by metis
qed

lemma byte_split: "m div 2 ^ (k + 8) * 256 + m div 2 ^ k mod 256 = m div 2 ^ k" for m k :: nat
proof -
  have "m div 2 ^ (k + 8) = m div 2 ^ k div 256" by (simp add: power_add div_mult2_eq)
  then show ?thesis by simp
qed

lemma be_val_inj:
  assumes "length xs = length ys" and "\<forall>b \<in> set xs. b < 256" and "\<forall>b \<in> set ys. b < 256" and "be_val xs = be_val ys"
  shows "xs = ys"
  using assms
proof (induction xs ys rule: rev_induct2)
  case (4 x xs y ys)
  then have "be_val xs * 256 + x = be_val ys * 256 + y" "x < 256" "y < 256" by (simp_all add: be_val_snoc)
  then have "be_val xs = be_val ys \<and> x = y" by (intro digit_split)
  then show ?case using 4 by simp
qed simp_all

lemma or_bits_0x70: "s < 16 \<Longrightarrow> 0x70 OR s = 0x70 + s" for s :: nat
proof -
  assume "s < 16"
  then have "s \<in> set [0..<16]" by simp
  moreover have "\<forall>s \<in> set [0..<16::nat]. 0x70 OR s = 0x70 + s" by code_simp
  ultimately show ?thesis by blast
qed

text \<open>The first eight bytes, read as one number: the timestamp, the version and the counter.\<close>

lemma encode_v7_prefix:
  assumes ms: "0 \<le> ms" "ms < 2 ^ 48" and seq: "seq \<le> 0x0FFF"
  shows "int (be_val (take 8 (encode_v7 ms seq rand))) = ms * 65536 + 0x7000 + int seq"
    "int (uuid_ms (encode_v7 ms seq rand)) = ms"
proof -
  define m where "m = nat ms"
  have m: "ms = int m" "m < 2 ^ 48" using ms by (auto simp: m_def)
  have parts: "nat (int m div 2 ^ k mod 256) = m div 2 ^ k mod 256" for k
    by (metis nat_int of_nat_mod of_nat_numeral of_nat_power zdiv_int)
  have p0: "nat (int m mod 256) = m mod 256" by (metis nat_int of_nat_mod of_nat_numeral)
  have s: "(seq div 256) mod 256 = seq div 256" "seq div 256 < 16" using seq by auto
  have be: "be_val [m div 2 ^ 40 mod 256, m div 2 ^ 32 mod 256, m div 2 ^ 24 mod 256,
      m div 2 ^ 16 mod 256, m div 2 ^ 8 mod 256, m mod 256] = m"
  proof -
    have top: "m div 2 ^ 40 mod 256 = m div 2 ^ 40"
      using byte_split [of m 40] m(2) by simp
    show ?thesis
      using byte_split [of m 32] byte_split [of m 24] byte_split [of m 16] byte_split [of m 8] byte_split [of m 0]
      unfolding be_val_def foldl.simps mult_0 add_0 top by simp
  qed
  have "be_val ([m div 2 ^ 40 mod 256, m div 2 ^ 32 mod 256, m div 2 ^ 24 mod 256,
      m div 2 ^ 16 mod 256, m div 2 ^ 8 mod 256, m mod 256] @ [0x70 + seq div 256, seq mod 256])
    = m * 65536 + 0x7000 + seq"
    by (simp only: be_val_append be) (simp add: be_val_def algebra_simps)
  then have "be_val (take 8 (encode_v7 ms seq rand)) = m * 65536 + 0x7000 + seq"
    unfolding encode_v7_def m(1) parts p0 s(1) or_bits_0x70 [OF s(2)] by simp
  then show "int (be_val (take 8 (encode_v7 ms seq rand))) = ms * 65536 + 0x7000 + int seq"
    by (simp add: m)
  show "int (uuid_ms (encode_v7 ms seq rand)) = ms"
    using be unfolding uuid_ms_def encode_v7_def m(1) parts p0 by simp
qed

fun gen_states :: "(int \<times> nat list) list \<Rightarrow> generator \<Rightarrow> generator list" where
  "gen_states [] g = []"
| "gen_states (c # cs) g = next_id (fst c) g # gen_states cs (next_id (fst c) g)"

lemma length_gen_states [simp]: "length (gen_states cs g) = length cs"
  by (induction cs arbitrary: g) simp_all

lemma gen_run_states:
  "fst (gen_run cs g) = map2 (\<lambda>st c. encode_v7 (lastMS st) (lastSeq st) (snd c)) (gen_states cs g) cs"
  by (induction cs g rule: gen_run.induct) (simp_all add: NewUUIDv7_def Let_def case_prod_beta)

lemma gen_states_ok: "gen_ok g \<Longrightarrow> \<forall>st \<in> set (gen_states cs g). gen_ok st \<and> gen_key g < gen_key st"
proof (induction cs arbitrary: g)
  case (Cons c cs)
  have "gen_ok (next_id (fst c) g)" "gen_key g < gen_key (next_id (fst c) g)"
    using Cons.prems by (simp_all add: next_id_ok next_id_less)
  then show ?case using Cons.IH [of "next_id (fst c) g"] by force
qed simp

lemma gen_states_sorted: "gen_ok g \<Longrightarrow> sorted_wrt (\<lambda>a b. gen_key a < gen_key b) (gen_states cs g)"
proof (induction cs arbitrary: g)
  case (Cons c cs)
  have "gen_ok (next_id (fst c) g)" using Cons.prems by (rule next_id_ok)
  then show ?case using Cons.IH gen_states_ok by simp
qed simp

lemma gen_states_drift:
  assumes "gen_ok g" and "i < length cs"
  shows "gen_key (gen_states cs g ! i) \<le> gen_key g + int i + 1
    \<or> (\<exists>j \<le> i. gen_key (gen_states cs g ! i) \<le> fst (cs ! j) * 4096 + int (i - j))"
    and "fst (cs ! i) \<le> lastMS (gen_states cs g ! i)"
proof -
  have "(gen_key (gen_states cs g ! i) \<le> gen_key g + int i + 1
    \<or> (\<exists>j \<le> i. gen_key (gen_states cs g ! i) \<le> fst (cs ! j) * 4096 + int (i - j)))
    \<and> fst (cs ! i) \<le> lastMS (gen_states cs g ! i)" using assms
  proof (induction cs arbitrary: g i)
    case (Cons c cs)
    let ?g = "next_id (fst c) g"
    have k: "gen_key ?g = (if fst c > lastMS g then fst c * 4096 else gen_key g + 1)"
      using Cons.prems(1) by (rule next_id_key)
    show ?case
    proof (cases i)
      case 0
      then show ?thesis using k next_id_ms [OF Cons.prems(1), of "fst c"] by auto
    next
      case (Suc i')
      have "(gen_key (gen_states cs ?g ! i') \<le> gen_key ?g + int i' + 1
          \<or> (\<exists>j \<le> i'. gen_key (gen_states cs ?g ! i') \<le> fst (cs ! j) * 4096 + int (i' - j)))
        \<and> fst (cs ! i') \<le> lastMS (gen_states cs ?g ! i')"
        using Cons.IH [of ?g i'] Cons.prems Suc by (simp add: next_id_ok)
      then consider (base) "gen_key (gen_states cs ?g ! i') \<le> gen_key ?g + int i' + 1"
        | (jump) j where "j \<le> i'" "gen_key (gen_states cs ?g ! i') \<le> fst (cs ! j) * 4096 + int (i' - j)" by blast
      then have "gen_key (gen_states (c # cs) g ! i) \<le> gen_key g + int i + 1
        \<or> (\<exists>j \<le> i. gen_key (gen_states (c # cs) g ! i) \<le> fst ((c # cs) ! j) * 4096 + int (i - j))"
      proof cases
        case base
        then show ?thesis using k Suc by (cases "fst c > lastMS g") (auto intro!: exI [of _ 0])
      next
        case jump
        then show ?thesis using Suc by (intro disjI2 exI [of _ "Suc j"]) simp
      qed
      then show ?thesis using \<open>_ \<and> _\<close> Suc by simp
    qed
  qed simp
  then show "gen_key (gen_states cs g ! i) \<le> gen_key g + int i + 1
    \<or> (\<exists>j \<le> i. gen_key (gen_states cs g ! i) \<le> fst (cs ! j) * 4096 + int (i - j))"
    "fst (cs ! i) \<le> lastMS (gen_states cs g ! i)" by simp_all
qed

text \<open>Readings of a clock between the epoch and the year 10889, less the ids issued.\<close>

definition clock_ok :: "(int \<times> nat list) list \<Rightarrow> bool" where
  "clock_ok cs \<longleftrightarrow> (\<forall>c \<in> set cs. 0 < fst c \<and> fst c + int (length cs) < 2 ^ 48)"

lemma gen_states_range:
  assumes "clock_ok cs" and "st \<in> set (gen_states cs initial_generator)"
  shows "gen_ok st" "lastMS st < 2 ^ 48"
proof -
  let ?g = initial_generator
  have g: "gen_ok ?g" "gen_key ?g = 0" by (simp_all add: gen_ok_def gen_key_def initial_generator_def)
  obtain i where i: "i < length cs" "st = gen_states cs ?g ! i" using assms(2) by (auto simp: in_set_conv_nth)
  show ok: "gen_ok st" using gen_states_ok [OF g(1)] assms(2) by blast
  have k: "lastMS st * 4096 \<le> gen_key st" using ok by (simp add: gen_key_def)
  from gen_states_drift(1) [OF g(1) i(1)] show "lastMS st < 2 ^ 48"
  proof
    assume "gen_key (gen_states cs ?g ! i) \<le> gen_key ?g + int i + 1"
    moreover have "cs ! i \<in> set cs" using i(1) by simp
    ultimately show ?thesis using k i g(2) assms(1) unfolding clock_ok_def by fastforce
  next
    assume "\<exists>j \<le> i. gen_key (gen_states cs ?g ! i) \<le> fst (cs ! j) * 4096 + int (i - j)"
    then obtain j where j: "j \<le> i" "gen_key st \<le> fst (cs ! j) * 4096 + int (i - j)" using i(2) by blast
    then have "cs ! j \<in> set cs" using i(1) by simp
    then have "fst (cs ! j) + int (length cs) < 2 ^ 48" using assms(1) by (simp add: clock_ok_def)
    then show ?thesis using k j i(1) by simp
  qed
qed

lemma uuids_sorted:
  assumes "clock_ok cs"
  shows "sorted_wrt (\<lambda>u v. be_val (take 8 u) < be_val (take 8 v)) (fst (gen_run cs initial_generator))"
proof -
  let ?g = initial_generator
  have g: "gen_ok ?g" by (simp add: gen_ok_def initial_generator_def)
  have less: "be_val (take 8 (encode_v7 (lastMS a) (lastSeq a) r)) < be_val (take 8 (encode_v7 (lastMS b) (lastSeq b) r'))"
    if "gen_key a < gen_key b" "a \<in> set (gen_states cs ?g)" "b \<in> set (gen_states cs ?g)" for a b r r'
  proof -
    note A = gen_states_range [OF assms that(2)] and B = gen_states_range [OF assms that(3)]
    have "lastMS a * 65536 + int (lastSeq a) < lastMS b * 65536 + int (lastSeq b)"
      using that(1) A B by (cases "lastMS a" "lastMS b" rule: linorder_cases) (auto simp: gen_key_def gen_ok_def)
    then have "int (be_val (take 8 (encode_v7 (lastMS a) (lastSeq a) r))) < int (be_val (take 8 (encode_v7 (lastMS b) (lastSeq b) r')))"
      using encode_v7_prefix(1) [of "lastMS a" "lastSeq a" r] encode_v7_prefix(1) [of "lastMS b" "lastSeq b" r'] A B
      by (simp add: gen_ok_def)
    then show ?thesis by simp
  qed
  show ?thesis unfolding gen_run_states sorted_wrt_iff_nth_less
    using gen_states_sorted [OF g, of cs] less
    by (auto simp: sorted_wrt_iff_nth_less)
qed

lemma uuids_drift:
  assumes "clock_ok cs" and i: "i < length cs"
  defines "u \<equiv> fst (gen_run cs initial_generator) ! i"
  shows "fst (cs ! i) \<le> int (uuid_ms u)"
    "\<exists>j \<le> i. int (uuid_ms u) \<le> fst (cs ! j) + int (i - j) div 4096"
proof -
  let ?g = initial_generator
  let ?st = "gen_states cs ?g ! i"
  have g: "gen_ok ?g" "gen_key ?g = 0" by (simp_all add: gen_ok_def gen_key_def initial_generator_def)
  have "?st \<in> set (gen_states cs ?g)" using i by simp
  note st = gen_states_range [OF assms(1) this]
  have ms: "int (uuid_ms u) = lastMS ?st"
    using encode_v7_prefix(2) [of "lastMS ?st" "lastSeq ?st" "snd (cs ! i)"] st i
    by (simp add: u_def gen_run_states gen_ok_def)
  show "fst (cs ! i) \<le> int (uuid_ms u)" using gen_states_drift(2) [OF g(1) i] ms by simp
  have k: "lastMS ?st * 4096 \<le> gen_key ?st" using st by (simp add: gen_key_def)
  have "\<exists>j \<le> i. gen_key ?st \<le> fst (cs ! j) * 4096 + int (i - j)"
  proof (cases "\<exists>j \<le> i. gen_key ?st \<le> fst (cs ! j) * 4096 + int (i - j)")
    case False
    then have "gen_key ?st \<le> int i + 1" using gen_states_drift(1) [OF g(1) i] g(2) by auto
    moreover have "cs ! 0 \<in> set cs" using i by (cases cs) auto
    then have "0 < fst (cs ! 0)" using assms(1) by (simp add: clock_ok_def)
    ultimately show ?thesis by (intro exI [of _ 0]) simp
  qed
  then obtain j where j: "j \<le> i" "lastMS ?st * 4096 \<le> fst (cs ! j) * 4096 + int (i - j)" using k by auto
  then have "lastMS ?st \<le> fst (cs ! j) + int (i - j) div 4096"
    using le_div_iff_int [of 4096 "lastMS ?st - fst (cs ! j)" "int (i - j)"] by simp
  then show "\<exists>j \<le> i. int (uuid_ms u) \<le> fst (cs ! j) + int (i - j) div 4096" using ms j(1) by auto
qed

subsection \<open>Text forms\<close>

lemma hex_digit_cases:
  assumes "n < 16"
  shows "from_hex (hex_digit n) = Some n" "plain (hex_digit n)"
  using assms by (auto simp: hex_digit_def from_hex_def digit_char_def plain_def Let_def)

lemma hex_decode_encode: "\<forall>b \<in> set bs. b < 256 \<Longrightarrow> hex_decode (hex_encode bs) = Some bs"
proof (induction bs)
  case (Cons b bs)
  have "b div 16 < 16" "b mod 16 < 16" using Cons.prems by auto
  then show ?case using Cons by (simp add: hex_encode_def hex_digit_cases)
qed (simp add: hex_encode_def)

lemma length_hex_encode [simp]: "length (hex_encode bs) = 2 * length bs"
  by (induction bs) (simp_all add: hex_encode_def)

lemma hex_encode_append: "hex_encode (xs @ ys) = hex_encode xs @ hex_encode ys"
  by (simp add: hex_encode_def)

lemma hex_encode_plain: "\<forall>b \<in> set bs. b < 256 \<Longrightarrow> \<forall>c \<in> set (hex_encode bs). plain c"
  by (auto simp: hex_encode_def hex_digit_cases)

lemma ParseUUID_string:
  assumes "bytes_ok 16 u"
  shows "ParseUUID (uuid_string u) = Inr u"
proof -
  have len: "length u = 16" and b: "\<forall>b \<in> set u. b < 256" using assms by (simp_all add: bytes_ok_def)
  define h1 h2 h3 h4 h5 where "h1 = hex_encode (take 4 u)" and "h2 = hex_encode (take 2 (drop 4 u))"
    and "h3 = hex_encode (take 2 (drop 6 u))" and "h4 = hex_encode (take 2 (drop 8 u))"
    and "h5 = hex_encode (take 6 (drop 10 u))"
  have l: "length h1 = 8" "length h2 = 4" "length h3 = 4" "length h4 = 4" "length h5 = 12"
    using len by (simp_all add: h1_def h2_def h3_def h4_def h5_def)
  have s: "uuid_string u = h1 @ ''-'' @ h2 @ ''-'' @ h3 @ ''-'' @ h4 @ ''-'' @ h5"
    by (simp add: uuid_string_def h1_def h2_def h3_def h4_def h5_def)
  have pl: "\<forall>c \<in> set h1. plain c" "\<forall>c \<in> set h5. plain c"
    unfolding h1_def h5_def using b by (auto intro!: hex_encode_plain dest!: in_set_takeD in_set_dropD)
  have "h1 \<noteq> []" "h5 \<noteq> []" using l by auto
  then have tr: "trim_space (uuid_string u) = uuid_string u"
    using pl by (intro trim_space_plain) (simp_all add: s)
  have u: "u = take 4 u @ take 2 (drop 4 u) @ take 2 (drop 6 u) @ take 2 (drop 8 u) @ take 6 (drop 10 u)"
    using len by (auto simp: list_eq_iff_nth_eq nth_append) 
  have "h1 @ h2 @ h3 @ h4 @ h5 = hex_encode u"
    by (subst u) (simp add: hex_encode_append h1_def h2_def h3_def h4_def h5_def)
  then have dec: "hex_decode (h1 @ h2 @ h3 @ h4 @ h5) = Some u" using hex_decode_encode [OF b] by simp
  have clean: "take 8 (uuid_string u) @ take 4 (drop 9 (uuid_string u)) @ take 4 (drop 14 (uuid_string u))
      @ take 4 (drop 19 (uuid_string u)) @ take 12 (drop 24 (uuid_string u)) = h1 @ h2 @ h3 @ h4 @ h5"
    using l by (simp add: s)
  have dash: "length (uuid_string u) = 36" "uuid_string u ! 8 = CHR ''-''" "uuid_string u ! 13 = CHR ''-''"
    "uuid_string u ! 18 = CHR ''-''" "uuid_string u ! 23 = CHR ''-''"
    using l by (simp_all add: s nth_append)
  show ?thesis unfolding ParseUUID_def tr Let_def clean dec using dash by simp
qed

subsection \<open>Crockford base 32\<close>

lemma shift_word:
  fixes hi lo :: "64 word"
  shows "unat (drop_bit 5 lo OR push_bit 59 (hi AND 0x1F)) = unat lo div 32 + unat hi mod 32 * 2 ^ 59"
proof -
  let ?a = "drop_bit 5 lo" and ?b = "push_bit 59 (hi AND 0x1F)"
  have m: "hi AND 0x1F = take_bit 5 hi" by (simp add: take_bit_eq_mask mask_eq_decr_exp)
  have a: "unat ?a = unat lo div 32" by (simp only: unat_drop_bit_eq) (simp add: drop_bit_eq_div)
  have t: "unat (take_bit 5 hi) = unat hi mod 32" by (simp add: unsigned_take_bit_eq) (simp add: take_bit_eq_mod)
  have b: "unat ?b = unat hi mod 32 * 2 ^ 59"
  proof -
    have "unat ?b = unat (take_bit 5 hi) * 2 ^ 59 mod 2 ^ 64"
      unfolding m push_bit_eq_mult unat_word_ariths(2) by (simp add: unsigned_numeral)
    also have "\<dots> = unat hi mod 32 * 2 ^ 59" unfolding t by simp
    finally show ?thesis .
  qed
  have "?a AND ?b = 0"
    by (rule bit_word_eqI) (auto simp: bit_simps m dest: bit_imp_le_length)
  then have "?a OR ?b = ?a + ?b" by (simp add: disjunctive_add_eq_or)
  moreover have "unat (?a + ?b) = unat ?a + unat ?b"
  proof (rule unat_plus_simple [THEN iffD1], unfold no_olen_add_nat)
    have "unat lo < 2 ^ 64" using unsigned_less [of lo] by simp
    then show "unat ?a + unat ?b < 2 ^ LENGTH(64)" unfolding a b by simp
  qed
  ultimately show ?thesis using a b by simp
qed

lemma div_mod_shift: "(h * 2 ^ 64 + l) div 32 = h div 32 * 2 ^ 64 + (l div 32 + h mod 32 * 2 ^ 59)" for h l :: nat
proof -
  have "h * 2 ^ 64 + l = 32 * (h * 2 ^ 59) + l" by simp
  then have "(h * 2 ^ 64 + l) div 32 = h * 2 ^ 59 + l div 32" by simp
  also have "h * 2 ^ 59 = (h div 32 * 32 + h mod 32) * 2 ^ 59" by simp
  finally show ?thesis by (simp only: distrib_right) simp
qed

text \<open>The value the two words hold, and what the loop writes: base-32 digits, most significant first.\<close>

definition digit32 :: "nat \<Rightarrow> nat \<Rightarrow> nat" where
  "digit32 N i = N div 32 ^ i mod 32"

lemma crockford_loop_digits:
  "crockford_loop k hi lo out
   = map (\<lambda>i. crockford ! digit32 (unat hi * 2 ^ 64 + unat lo) i) (rev [0..<k]) @ out"
proof (induction k arbitrary: hi lo out)
  case (Suc k)
  let ?N = "unat hi * 2 ^ 64 + unat lo"
  have h: "unat (drop_bit 5 hi) = unat hi div 32"
    by (simp only: unat_drop_bit_eq) (simp add: drop_bit_eq_div)
  have N: "unat (drop_bit 5 hi) * 2 ^ 64 + unat (drop_bit 5 lo OR push_bit 59 (hi AND 0x1F)) = ?N div 32"
    by (simp only: h shift_word div_mod_shift)
  have d: "digit32 (?N div 32) i = digit32 ?N (Suc i)" for i
    by (simp add: digit32_def div_mult2_eq)
  have "lo AND 0x1F = take_bit 5 lo" by (simp add: take_bit_eq_mask mask_eq_decr_exp)
  then have "unat (lo AND 0x1F) = unat lo mod 32" by (simp add: unsigned_take_bit_eq) (simp add: take_bit_eq_mod)
  also have "\<dots> = digit32 ?N 0"
  proof -
    have "?N = unat lo + 32 * (unat hi * 2 ^ 59)" by simp
    then show ?thesis unfolding digit32_def by (metis div_by_1 mod_mult_self2 power_0)
  qed
  finally have z: "unat (lo AND 0x1F) = digit32 ?N 0" .
  have "rev [0..<Suc k] = map Suc (rev [0..<k]) @ [0]"
    by (simp only: rev_map [symmetric] map_Suc_upt) (simp add: upt_conv_Cons del: upt_Suc)
  then show ?case unfolding crockford_loop.simps Suc.IH N d z by (simp del: upt_Suc)
qed simp

lemma be_val_16:
  assumes "bytes_ok 16 b"
  shows "unat (of_nat (be_val (take 8 b)) :: 64 word) * 2 ^ 64 + unat (of_nat (be_val (take 8 (drop 8 b))) :: 64 word) = be_val b"
proof -
  have l: "length b = 16" and bb: "\<forall>x \<in> set b. x < 256" using assms by (simp_all add: bytes_ok_def)
  have "\<forall>x \<in> set (take 8 b). x < 256" "\<forall>x \<in> set (take 8 (drop 8 b)). x < 256"
    using bb by (auto dest: in_set_takeD in_set_dropD)
  then have "be_val (take 8 b) < 2 ^ 64" "be_val (take 8 (drop 8 b)) < 2 ^ 64"
    using be_val_less [of "take 8 b"] be_val_less [of "take 8 (drop 8 b)"] l by simp_all
  moreover have "be_val b = be_val (take 8 b) * 2 ^ 64 + be_val (take 8 (drop 8 b))"
  proof -
    have "be_val b = be_val (take 8 b @ drop 8 b)" by simp
    also have "\<dots> = be_val (take 8 b) * 256 ^ 8 + be_val (drop 8 b)" using l by (simp only: be_val_append) simp
    finally show ?thesis using l by simp
  qed
  ultimately show ?thesis by (simp add: unat_of_nat)
qed

lemma encodeCrockford_digits:
  assumes "bytes_ok 16 b"
  shows "encodeCrockford b = map (\<lambda>i. crockford ! digit32 (be_val b) i) (rev [0..<26])"
  by (simp only: encodeCrockford_def crockford_loop_digits be_val_16 [OF assms] append_Nil2)

lemma crockford_symbols:
  assumes "d < 32"
  shows "crockfordRev (crockford ! d) = int d"
proof -
  have "\<forall>d \<in> set [0..<32]. crockfordRev (crockford ! d) = int d" by code_simp
  then show ?thesis using assms by simp
qed

lemma crockford_no_underscore: "crockford ! d \<noteq> CHR ''_''" if "d < 32"
proof -
  have "crockford ! d \<in> set crockford" using that by (intro nth_mem) (simp add: crockford_def)
  then show ?thesis by (auto simp: crockford_def)
qed

lemma digits32_inj:
  assumes "\<forall>i < n. digit32 N i = digit32 M i" and "N < 32 ^ n" and "M < 32 ^ n"
  shows "N = M"
  using assms
proof (induction n arbitrary: N M)
  case (Suc n)
  have "digit32 (N div 32) i = digit32 N (Suc i)" "digit32 (M div 32) i = digit32 M (Suc i)" for i
    by (simp_all add: digit32_def div_mult2_eq)
  then have "N div 32 = M div 32" using Suc.prems by (intro Suc.IH) (auto simp: less_mult_imp_div_less mult.commute)
  moreover have "N mod 32 = M mod 32" using Suc.prems(1) by (auto simp: digit32_def dest: spec [of _ 0])
  ultimately show ?case by (metis div_mult_mod_eq)
qed simp

lemma encodeCrockford_inj:
  assumes "bytes_ok 16 a" and "bytes_ok 16 b" and "encodeCrockford a = encodeCrockford b"
  shows "a = b"
proof -
  have "digit32 (be_val a) i = digit32 (be_val b) i" if "i < 26" for i
  proof -
    have "i \<in> set (rev [0..<26])" using that by simp
    then have "crockford ! digit32 (be_val a) i = crockford ! digit32 (be_val b) i"
      using assms(3) unfolding encodeCrockford_digits [OF assms(1)] encodeCrockford_digits [OF assms(2)]
      by (simp only: map_eq_conv)
    then have "int (digit32 (be_val a) i) = int (digit32 (be_val b) i)"
      by (metis crockford_symbols digit32_def mod_less_divisor zero_less_numeral)
    then show ?thesis by simp
  qed
  moreover have "be_val a < 32 ^ 26" "be_val b < 32 ^ 26"
    using be_val_less [of a] be_val_less [of b] assms(1,2) by (auto simp: bytes_ok_def)
  ultimately have "be_val a = be_val b" by (intro digits32_inj [of 26]) auto
  then show ?thesis using assms(1,2) by (intro be_val_inj) (simp_all add: bytes_ok_def)
qed

lemma NewPublic_accepted:
  assumes raw: "bytes_ok 16 raw" and p: "p \<noteq> []" "CHR ''_'' \<notin> set p"
  shows "ParsePublic p (NewPublic p raw) = Inr (encodeCrockford raw)"
    "length p \<le> 4 \<Longrightarrow> ValidPublic (NewPublic p raw)"
proof -
  let ?e = "encodeCrockford raw"
  have len: "length ?e = 26" by (simp add: encodeCrockford_digits [OF raw])
  have rev: "\<forall>c \<in> set ?e. \<not> crockfordRev c < 0"
    using crockford_symbols by (auto simp: encodeCrockford_digits [OF raw] digit32_def)
  have tw: "takeWhile (\<lambda>x. x \<noteq> CHR ''_'') (p @ ''_'' @ ?e) = p" using p(2) by (auto simp: takeWhile_append)
  have i: "index_of (CHR ''_'') (NewPublic p raw) = Some (length p)"
    using tw by (simp add: index_of_def NewPublic_def)
  show "ParsePublic p (NewPublic p raw) = Inr ?e"
    using p(1) len rev by (auto simp: ParsePublic_def i Let_def) (auto simp: NewPublic_def)
  show "ValidPublic (NewPublic p raw)" if "length p \<le> 4"
    using that p(1) len rev by (auto simp: ValidPublic_def i) (auto simp: NewPublic_def)
qed

interpretation uuid_text: roundtrip uuid_string ParseUUID "bytes_ok 16"
  by unfold_locales (rule ParseUUID_string)

subsection \<open>Properties\<close>

text \<open>
  C27: over any sequence of clock readings, also one that repeats or goes back, the
  first eight bytes of the UUIDs of \<open>NewUUIDv7\<close> are strictly increasing as big-endian numbers,
  so the identifiers are issued in the order of the index; each embedded timestamp is at least
  the reading of its own call, and ahead of some earlier reading by at most one millisecond
  per 4096 identifiers issued since.
\<close>

theorem uuid_monotone:
  assumes "clock_ok cs"
  shows "sorted_wrt (\<lambda>u v. be_val (take 8 u) < be_val (take 8 v)) (fst (gen_run cs initial_generator))
    \<and> (\<forall>i < length cs. let t = int (uuid_ms (fst (gen_run cs initial_generator) ! i)) in
         fst (cs ! i) \<le> t \<and> (\<exists>j \<le> i. t \<le> fst (cs ! j) + int (i - j) div 4096))"
  using uuids_sorted [OF assms] uuids_drift [OF assms] by (simp add: Let_def)

theorem uuid_monotone_witness:
  "sorted_wrt (\<lambda>u v. be_val (take 8 u) < be_val (take 8 v))
     (fst (gen_run [(1700000000000, replicate 10 7), (1699999999000, replicate 10 9)] initial_generator))"
proof -
  have "clock_ok [(1700000000000, replicate 10 7), (1699999999000, replicate 10 9)]"
    by (simp add: clock_ok_def)
  from uuid_monotone [OF this] show ?thesis by blast
qed

text \<open>
  C28: \<open>ParseUUID\<close> reads back every UUID that \<open>String\<close> prints, so two UUIDs with the
  same text are the same sixteen bytes.
\<close>

theorem uuid_text_roundtrip:
  assumes "bytes_ok 16 u"
  shows "ParseUUID (uuid_string u) = Inr u \<and> (bytes_ok 16 v \<longrightarrow> uuid_string u = uuid_string v \<longrightarrow> u = v)"
  using uuid_text.dec_enc [OF assms] uuid_text.enc_inject [OF assms] by simp

theorem uuid_text_roundtrip_witness:
  "ParseUUID (uuid_string (replicate 16 171)) = Inr (replicate 16 171)"
  using uuid_text_roundtrip [of "replicate 16 171"] by (simp add: bytes_ok_def)

text \<open>
  a public id made by \<open>NewPublic\<close> has its prefix and 26 Crockford symbols, is
  accepted by \<open>ParsePublic\<close> for its own prefix and by \<open>ValidPublic\<close>, and carries the whole 128
  bits: different random bytes give different identifiers.
\<close>

theorem public_ids:
  assumes "bytes_ok 16 raw" and "p \<noteq> []" and "CHR ''_'' \<notin> set p" and "length p \<le> 4"
  shows "ParsePublic p (NewPublic p raw) = Inr (encodeCrockford raw) \<and> ValidPublic (NewPublic p raw)
    \<and> (\<forall>raw'. bytes_ok 16 raw' \<longrightarrow> NewPublic p raw' = NewPublic p raw \<longrightarrow> raw' = raw)"
  using NewPublic_accepted [OF assms(1-3)] assms(4) encodeCrockford_inj [OF _ assms(1)]
  by (simp add: NewPublic_def)

theorem public_ids_witness:
  "ParsePublic ''ord'' (NewPublic ''ord'' (replicate 16 255)) = Inr (encodeCrockford (replicate 16 255))"
  using public_ids [of "replicate 16 255" "''ord''"] by (simp add: bytes_ok_def)

end
