(* ===== verification/RateLimit.thy ===== *)
theory RateLimit
  imports Prelude
begin

text \<open>
  \<open>internal/platform/ratelimit/ratelimit.go\<close>: the GCRA limiter. Its state is one theoretical
  arrival time per key, in 256 shards chosen by a seeded hash, which is a parameter. Instants
  and durations are nanoseconds; durations are \<open>int64\<close> and wrap, instants are exact. The
  proofs bound what a key can be admitted in any window, show that a refused request succeeds
  when retried at the announced time, and that keys and sweeps do not disturb each other.
\<close>

record rule =
  Name :: string
  Burst :: int
  Period :: int

record decision =
  Allowed :: bool
  Remaining :: int
  RetryAfter :: int
  ResetAfter :: int

definition emissionInterval :: "rule \<Rightarrow> int" where
  "emissionInterval r = (if Burst r \<le> 0 then Period r else trunc_div (Period r) (Burst r))"

definition delayTolerance :: "rule \<Rightarrow> int" where
  "delayTolerance r = Period r"

text \<open>A shard maps \<open>key + "\0" + rule.Name\<close> to its theoretical arrival time.\<close>

type_synonym shard = "(string \<times> int) list"
type_synonym local_limiter = "nat \<Rightarrow> shard"

definition NewLocal :: local_limiter where
  "NewLocal = (\<lambda>_. [])"

definition tat_key :: "string \<Rightarrow> rule \<Rightarrow> string" where
  "tat_key key r = key @ [CHR 0x00] @ Name r"

definition shard_of :: "(string \<Rightarrow> nat) \<Rightarrow> string \<Rightarrow> rule \<Rightarrow> nat" where
  "shard_of hash key r = hash (Name r @ key) mod 256"

definition put :: "string \<Rightarrow> int \<Rightarrow> shard \<Rightarrow> shard" where
  "put k v s = (k, v) # filter (\<lambda>e. fst e \<noteq> k) s"

text \<open>
  \<open>AllowN\<close> at the reading \<open>now\<close> of the clock. \<open>None\<close> is the panic of the division that computes
  \<open>remaining\<close> when the emission interval is zero.
\<close>

definition AllowN :: "(string \<Rightarrow> nat) \<Rightarrow> int \<Rightarrow> string \<Rightarrow> rule \<Rightarrow> int \<Rightarrow> local_limiter
    \<Rightarrow> (decision \<times> local_limiter) option" where
  "AllowN hash now key r n l =
    (let n = (if n < 1 then 1 else n);
         ei = emissionInterval r;
         cost = wrap64 (n * ei);
         tol = delayTolerance r;
         i = shard_of hash key r;
         s = l i;
         tat = (case map_of s (tat_key key r) of
                  None \<Rightarrow> now
                | Some t \<Rightarrow> if t < now then now else t);
         newTAT = tat + cost;
         allowAt = newTAT - tol
     in if allowAt > now then
          Some (\<lparr>Allowed = False, Remaining = 0, RetryAfter = allowAt - now, ResetAfter = tat - now\<rparr>, l)
        else if ei = 0 then None
        else let remaining = trunc_div (tol - (newTAT - now)) ei;
                 remaining = (if remaining < 0 then 0 else remaining)
             in Some (\<lparr>Allowed = True, Remaining = remaining, RetryAfter = 0, ResetAfter = newTAT - now\<rparr>,
                      l(i := put (tat_key key r) newTAT s)))"

definition Allow :: "(string \<Rightarrow> nat) \<Rightarrow> int \<Rightarrow> string \<Rightarrow> rule \<Rightarrow> local_limiter
    \<Rightarrow> (decision \<times> local_limiter) option" where
  "Allow hash now key r l = AllowN hash now key r 1 l"

definition Sweep :: "int \<Rightarrow> local_limiter \<Rightarrow> nat \<times> local_limiter" where
  "Sweep now l = (sum_list (map (\<lambda>i. length (filter (\<lambda>e. snd e < now) (l i))) [0..<256]),
     \<lambda>i. if i < 256 then filter (\<lambda>e. \<not> snd e < now) (l i) else l i)"

definition Size :: "local_limiter \<Rightarrow> nat" where
  "Size l = sum_list (map (\<lambda>i. length (l i)) [0..<256])"

text \<open>The standard rules, with \<open>time.Minute\<close> and \<open>time.Hour\<close> in nanoseconds.\<close>

definition minutes :: "int \<Rightarrow> int" where "minutes n = n * 60000000000"

definition standard_rules :: "rule list" where
  "standard_rules =
    [\<lparr>Name = ''login_ip'', Burst = 20, Period = minutes 15\<rparr>,
     \<lparr>Name = ''login_account'', Burst = 8, Period = minutes 15\<rparr>,
     \<lparr>Name = ''signup_ip'', Burst = 5, Period = minutes 60\<rparr>,
     \<lparr>Name = ''pwreset_ip'', Burst = 5, Period = minutes 60\<rparr>,
     \<lparr>Name = ''pwreset_user'', Burst = 3, Period = minutes 60\<rparr>,
     \<lparr>Name = ''totp_verify'', Burst = 10, Period = minutes 5\<rparr>,
     \<lparr>Name = ''api_ip'', Burst = 300, Period = minutes 1\<rparr>,
     \<lparr>Name = ''api_user'', Burst = 600, Period = minutes 1\<rparr>,
     \<lparr>Name = ''search_ip'', Burst = 60, Period = minutes 1\<rparr>,
     \<lparr>Name = ''checkout_user'', Burst = 20, Period = minutes 10\<rparr>,
     \<lparr>Name = ''download_user'', Burst = 60, Period = minutes 60\<rparr>,
     \<lparr>Name = ''upload_seller'', Burst = 40, Period = minutes 60\<rparr>,
     \<lparr>Name = ''payout_change'', Burst = 3, Period = minutes (24 * 60)\<rparr>,
     \<lparr>Name = ''webhook_ip'', Burst = 600, Period = minutes 1\<rparr>,
     \<lparr>Name = ''grievance_user'', Burst = 10, Period = minutes (24 * 60)\<rparr>]"

subsection \<open>One request\<close>

text \<open>A rule whose interval is a positive whole number of nanoseconds.\<close>

definition rule_ok :: "rule \<Rightarrow> bool" where
  "rule_ok r \<longleftrightarrow> 0 < Burst r \<and> 0 < emissionInterval r \<and> Period r \<le> max_i64"

definition tat_of :: "(string \<Rightarrow> nat) \<Rightarrow> local_limiter \<Rightarrow> string \<Rightarrow> rule \<Rightarrow> int option" where
  "tat_of hash l key r = map_of (l (shard_of hash key r)) (tat_key key r)"

definition base_tat :: "int \<Rightarrow> int option \<Rightarrow> int" where
  "base_tat now t = (case t of None \<Rightarrow> now | Some t \<Rightarrow> max now t)"

lemma map_of_put [simp]: "map_of (put k v s) k' = (if k' = k then Some v else map_of s k')"
proof (cases "k' = k")
  case False
  then show ?thesis by (induction s) (auto simp: put_def)
qed (simp add: put_def)

lemma AllowN_spec:
  fixes hash :: "string \<Rightarrow> nat" and now n :: int and key :: string and r :: rule and l :: local_limiter
  assumes r: "rule_ok r" and n: "1 \<le> n" "n * emissionInterval r \<le> max_i64"
  defines "b \<equiv> base_tat now (tat_of hash l key r)"
  shows "AllowN hash now key r n l =
    (if b + n * emissionInterval r > now + Period r
     then Some (\<lparr>Allowed = False, Remaining = 0,
        RetryAfter = b + n * emissionInterval r - Period r - now, ResetAfter = b - now\<rparr>, l)
     else Some (\<lparr>Allowed = True, Remaining = (now + Period r - (b + n * emissionInterval r)) div emissionInterval r,
        RetryAfter = 0, ResetAfter = b + n * emissionInterval r - now\<rparr>,
        l(shard_of hash key r := put (tat_key key r) (b + n * emissionInterval r) (l (shard_of hash key r)))))"
proof -
  have ei: "0 < emissionInterval r" using r by (simp add: rule_ok_def)
  have "0 \<le> n * emissionInterval r" using ei n by simp
  then have w: "wrap64 (n * emissionInterval r) = n * emissionInterval r"
    using n by (intro wrap64_id) (simp add: in_i64_def)
  have b: "(case map_of (l (shard_of hash key r)) (tat_key key r) of None \<Rightarrow> now
      | Some t \<Rightarrow> if t < now then now else t) = b"
    by (auto simp: b_def base_tat_def tat_of_def split: option.splits)
  have "Period r + now - (b + n * emissionInterval r) = Period r - (b + n * emissionInterval r - now)" by simp
  have nn: "\<not> (Period r + now - (b + n * emissionInterval r)) div emissionInterval r < 0"
    if "b + n * emissionInterval r \<le> now + Period r"
  proof -
    have "0 \<le> Period r + now - (b + n * emissionInterval r)" using that by simp
    then show ?thesis by (simp only: not_less pos_imp_zdiv_nonneg_iff [OF ei])
  qed
  moreover have "(if n < 1 then 1 else n) = n" using n(1) by simp
  note n1 = this
  ultimately show ?thesis using ei n(1) unfolding AllowN_def Let_def n1 w b delayTolerance_def
    using nn by (auto simp: algebra_simps not_less)
qed

text \<open>The rule applied to the stored time alone.\<close>

lemma AllowN_tat:
  assumes r: "rule_ok r" and n: "1 \<le> n" "n * emissionInterval r \<le> max_i64"
    and A: "AllowN hash now key r n l = Some (d, l')"
  shows "Allowed d \<Longrightarrow> tat_of hash l' key r = Some (base_tat now (tat_of hash l key r) + n * emissionInterval r)"
    "Allowed d \<Longrightarrow> base_tat now (tat_of hash l key r) + n * emissionInterval r \<le> now + Period r"
    "\<not> Allowed d \<Longrightarrow> l' = l"
    "\<not> Allowed d \<Longrightarrow> RetryAfter d = base_tat now (tat_of hash l key r) + n * emissionInterval r - Period r - now \<and> 0 < RetryAfter d"
    "tat_key key' r' \<noteq> tat_key key r \<Longrightarrow> tat_of hash l' key' r' = tat_of hash l key' r'"
  using A unfolding AllowN_spec [OF r n] by (auto simp: tat_of_def split: if_splits)

subsection \<open>Sequences of requests\<close>

record request =
  at :: int
  rkey :: string
  rrule :: rule
  units :: int

text \<open>Requests served in order: the decision of each.\<close>

fun serve :: "(string \<Rightarrow> nat) \<Rightarrow> request list \<Rightarrow> local_limiter \<Rightarrow> (decision list \<times> local_limiter) option" where
  "serve hash [] l = Some ([], l)"
| "serve hash (q # qs) l = (case AllowN hash (at q) (rkey q) (rrule q) (units q) l of
     None \<Rightarrow> None
   | Some (d, l') \<Rightarrow> (case serve hash qs l' of None \<Rightarrow> None | Some (ds, l'') \<Rightarrow> Some (d # ds, l'')))"

text \<open>Units admitted for one key of one rule.\<close>

fun admitted :: "string \<Rightarrow> rule \<Rightarrow> request list \<Rightarrow> decision list \<Rightarrow> int" where
  "admitted key r (q # qs) (d # ds) =
     (if Allowed d \<and> rkey q = key \<and> rrule q = r then units q else 0) + admitted key r qs ds"
| "admitted key r _ _ = 0"

definition request_ok :: "request \<Rightarrow> bool" where
  "request_ok q \<longleftrightarrow> rule_ok (rrule q) \<and> 1 \<le> units q \<and> units q * emissionInterval (rrule q) \<le> max_i64
     \<and> CHR 0x00 \<notin> set (Name (rrule q))"

lemma tat_key_inj:
  assumes "CHR 0x00 \<notin> set (Name r)" and "CHR 0x00 \<notin> set (Name r')" and "tat_key k r = tat_key k' r'"
  shows "k = k' \<and> Name r = Name r'"
proof -
  have "takeWhile (\<lambda>c. c \<noteq> CHR 0x00) (rev (tat_key k r)) = rev (Name r)" if "CHR 0x00 \<notin> set (Name r)" for k r
    using that by (auto simp: tat_key_def takeWhile_append)
  then have "Name r = Name r'" using assms by (metis rev_rev_ident)
  then show ?thesis using assms(3) by (simp add: tat_key_def)
qed

lemma AllowN_total:
  assumes "request_ok q"
  shows "\<exists>d l'. AllowN hash (at q) (rkey q) (rrule q) (units q) l = Some (d, l')"
  using AllowN_spec [of "rrule q" "units q" hash "at q" "rkey q" l] assms
  by (auto simp: request_ok_def)

lemma serve_total:
  "\<forall>q \<in> set qs. request_ok q \<Longrightarrow> \<exists>ds l'. serve hash qs l = Some (ds, l') \<and> length ds = length qs"
proof (induction qs arbitrary: l)
  case (Cons q qs)
  obtain d l' where d: "AllowN hash (at q) (rkey q) (rrule q) (units q) l = Some (d, l')"
    using AllowN_total Cons.prems by fastforce
  obtain ds l'' where "serve hash qs l' = Some (ds, l'')" "length ds = length qs"
    using Cons.IH [of l'] Cons.prems by auto
  then show ?case using d by simp
qed simp

lemma base_tat_ge: "now \<le> base_tat now t" "t0 \<le> now \<Longrightarrow> base_tat t0 t \<le> base_tat now t"
  by (auto simp: base_tat_def split: option.splits)

lemma serve_bound:
  assumes "serve hash qs l = Some (ds, l')" and "\<forall>q \<in> set qs. request_ok q"
    and "\<forall>q \<in> set qs. Name (rrule q) = Name r \<longrightarrow> rrule q = r" and "CHR 0x00 \<notin> set (Name r)"
    and "sorted (map at qs)" and "\<forall>q \<in> set qs. t0 \<le> at q \<and> at q \<le> t1"
  shows "admitted key r qs ds * emissionInterval r + base_tat t0 (tat_of hash l key r)
    \<le> max (base_tat t0 (tat_of hash l key r)) (t1 + Period r)"
  using assms
proof (induction qs arbitrary: l ds t0)
  case (Cons q qs)
  let ?T = "tat_of hash l key r" and ?ei = "emissionInterval r"
  from Cons.prems(1) obtain d l1 ds1 where
    d: "AllowN hash (at q) (rkey q) (rrule q) (units q) l = Some (d, l1)"
    and s: "serve hash qs l1 = Some (ds1, l')" and ds: "ds = d # ds1"
    by (auto split: option.splits prod.splits)
  have q: "rule_ok (rrule q)" "1 \<le> units q" "units q * emissionInterval (rrule q) \<le> max_i64"
    "CHR 0x00 \<notin> set (Name (rrule q))" and t: "t0 \<le> at q" "at q \<le> t1"
    using Cons.prems by (simp_all add: request_ok_def)
  note A = AllowN_tat [OF q(1-3) d]
  have later: "\<forall>q' \<in> set qs. at q \<le> at q' \<and> at q' \<le> t1" using Cons.prems(5,6) by auto
  have IH: "admitted key r qs ds1 * ?ei + base_tat (at q) (tat_of hash l1 key r)
      \<le> max (base_tat (at q) (tat_of hash l1 key r)) (t1 + Period r)"
    using Cons.IH [OF s _ _ _ _ later] Cons.prems by simp
  have mono: "base_tat t0 ?T \<le> base_tat (at q) ?T" using t(1) by (rule base_tat_ge(2))
  show ?case
  proof (cases "Allowed d \<and> rkey q = key \<and> rrule q = r")
    case True
    then have T1: "tat_of hash l1 key r = Some (base_tat (at q) ?T + units q * ?ei)"
      and le: "base_tat (at q) ?T + units q * ?ei \<le> at q + Period r" using A(1,2) by auto
    have ei: "0 < ?ei" using q True by (simp add: rule_ok_def)
    have "at q \<le> base_tat (at q) ?T + units q * ?ei"
      using base_tat_ge(1) [of "at q" ?T] q(2) ei by (simp add: add_increasing2)
    then have b: "base_tat (at q) (tat_of hash l1 key r) = base_tat (at q) ?T + units q * ?ei"
      by (simp add: T1 base_tat_def)
    have adm: "admitted key r (q # qs) ds = units q + admitted key r qs ds1" using True ds by simp
    have "admitted key r qs ds1 * ?ei + (base_tat (at q) ?T + units q * ?ei) \<le> t1 + Period r"
      using IH le t(2) unfolding b by linarith
    then have "(units q + admitted key r qs ds1) * ?ei + base_tat (at q) ?T \<le> t1 + Period r"
      by (simp add: distrib_right)
    then show ?thesis unfolding adm using mono by linarith
  next
    case False
    have "tat_of hash l1 key r = ?T"
    proof (cases "Allowed d")
      case False
      then show ?thesis using A(3) by simp
    next
      case True
      then have ne: "\<not> (rkey q = key \<and> rrule q = r)" using False by simp
      have "tat_key key r \<noteq> tat_key (rkey q) (rrule q)"
      proof
        assume "tat_key key r = tat_key (rkey q) (rrule q)"
        then have "key = rkey q" "Name r = Name (rrule q)" using tat_key_inj [OF Cons.prems(4) q(4)] by blast+
        then show False using ne Cons.prems(3) by auto
      qed
      then show ?thesis by (rule A(5))
    qed
    moreover have "admitted key r (q # qs) ds = admitted key r qs ds1" using False ds by auto
    ultimately show ?thesis using IH mono by (simp add: max_def split: if_splits)
  qed
qed (simp add: base_tat_def)

subsection \<open>Properties\<close>

lemma div_le_self_int: "0 \<le> x \<Longrightarrow> 0 < (y :: int) \<Longrightarrow> x div y \<le> x"
  using zdiv_mono2 [of x 1 y] by simp

lemma standard_rules_ok:
  assumes "r \<in> set standard_rules"
  shows "rule_ok r" "Burst r * emissionInterval r = Period r" "emissionInterval r \<le> max_i64" "CHR 0x00 \<notin> set (Name r)"
proof -
  have "\<forall>r \<in> set standard_rules. 0 < Burst r \<and> 0 < Period r \<and> Period r mod Burst r = 0 \<and> Burst r \<le> Period r
      \<and> Period r \<le> max_i64 \<and> CHR 0x00 \<notin> set (Name r)"
    by (simp add: standard_rules_def minutes_def)
  then have r: "0 < Burst r" "0 < Period r" "Period r mod Burst r = 0" "Burst r \<le> Period r" "Period r \<le> max_i64"
    "CHR 0x00 \<notin> set (Name r)" using assms by blast+
  have ei: "emissionInterval r = Period r div Burst r" using r(1,2) by (simp add: emissionInterval_def)
  have m: "Burst r * (Period r div Burst r) = Period r" using r(3) by (metis add_0_right mult_div_mod_eq)
  have p: "0 < Period r div Burst r" using r(4) by (simp add: pos_imp_zdiv_pos_iff [OF r(1)])
  have l: "Period r div Burst r \<le> Period r" using r(1,2) by (simp add: div_le_self_int)
  show "rule_ok r" using r(1,5) p by (simp add: rule_ok_def ei)
  show "Burst r * emissionInterval r = Period r" using m by (simp only: ei)
  show "emissionInterval r \<le> max_i64" unfolding ei using l r(5) by (rule order_trans)
  show "CHR 0x00 \<notin> set (Name r)" by (rule r(6))
qed

lemma standard_rules_names:
  "r \<in> set standard_rules \<Longrightarrow> r' \<in> set standard_rules \<Longrightarrow> Name r = Name r' \<Longrightarrow> r = r'"
proof -
  have "distinct (map Name standard_rules)" by (simp add: standard_rules_def)
  then have "inj_on Name (set standard_rules)" by (simp add: distinct_map)
  then show "r \<in> set standard_rules \<Longrightarrow> r' \<in> set standard_rules \<Longrightarrow> Name r = Name r' \<Longrightarrow> r = r'"
    by (auto dest: inj_onD)
qed

text \<open>
  C25: for every standard rule, in any window of the clock of width \<open>W\<close> a key is
  admitted at most its burst plus \<open>W\<close> divided by the emission interval, whatever requests for
  other keys and rules are interleaved and whatever the limiter's state was; in one instant it
  is at most the burst, so there is no boundary burst.
\<close>

theorem burst_bound:
  assumes "serve hash qs l = Some (ds, l')" and "r \<in> set standard_rules"
    and "\<forall>q \<in> set qs. rrule q \<in> set standard_rules \<and> 1 \<le> units q \<and> units q * emissionInterval (rrule q) \<le> max_i64"
    and "sorted (map at qs)" and "\<forall>q \<in> set qs. t0 \<le> at q \<and> at q \<le> t0 + W" and "0 \<le> W"
  shows "admitted key r qs ds \<le> Burst r + W div emissionInterval r"
proof -
  let ?ei = "emissionInterval r"
  note R = standard_rules_ok [OF assms(2)]
  have ei: "0 < ?ei" using R(1) by (simp add: rule_ok_def)
  have ok: "\<forall>q \<in> set qs. request_ok q"
    using assms(3) standard_rules_ok by (auto simp: request_ok_def)
  have same: "\<forall>q \<in> set qs. Name (rrule q) = Name r \<longrightarrow> rrule q = r"
    using assms(2,3) standard_rules_names by blast
  have "admitted key r qs ds * ?ei + base_tat t0 (tat_of hash l key r)
    \<le> max (base_tat t0 (tat_of hash l key r)) (t0 + W + Period r)"
    using serve_bound [OF assms(1) ok same R(4) assms(4,5)] .
  moreover have "t0 \<le> base_tat t0 (tat_of hash l key r)" by (rule base_tat_ge)
  moreover have "0 \<le> Period r" using R(1,2) by (metis rule_ok_def less_imp_le mult_nonneg_nonneg)
  ultimately have "admitted key r qs ds * ?ei \<le> W + Burst r * ?ei" using assms(6) R(2) by linarith
  then have "(admitted key r qs ds - Burst r) * ?ei \<le> W" by (simp add: left_diff_distrib)
  then have "admitted key r qs ds - Burst r \<le> W div ?ei" using le_div_iff_int [OF ei] by blast
  then show ?thesis by simp
qed

definition login_rule :: rule where
  "login_rule = \<lparr>Name = ''login_account'', Burst = 8, Period = minutes 15\<rparr>"

definition login_attempt :: "int \<Rightarrow> request" where
  "login_attempt t = \<lparr>at = t, rkey = ''a'', rrule = login_rule, units = 1\<rparr>"

theorem burst_bound_witness:
  "\<exists>ds l'. serve (\<lambda>_. 0) (replicate 20 (login_attempt 5)) NewLocal = Some (ds, l')
    \<and> admitted ''a'' login_rule (replicate 20 (login_attempt 5)) ds \<le> 8"
proof -
  have lr: "login_rule \<in> set standard_rules" by (simp add: login_rule_def standard_rules_def)
  have ok: "\<forall>q \<in> set (replicate 20 (login_attempt 5)). rrule q \<in> set standard_rules \<and> 1 \<le> units q
      \<and> units q * emissionInterval (rrule q) \<le> max_i64"
    using lr standard_rules_ok(3) [OF lr] by (simp add: login_attempt_def)
  have "\<forall>q \<in> set (replicate 20 (login_attempt 5)). request_ok q"
    using ok standard_rules_ok by (simp add: request_ok_def)
  then obtain ds l' where s: "serve (\<lambda>_. 0) (replicate 20 (login_attempt 5)) NewLocal = Some (ds, l')"
    using serve_total by blast
  have "admitted ''a'' login_rule (replicate 20 (login_attempt 5)) ds \<le> Burst login_rule + 0 div emissionInterval login_rule"
    by (rule burst_bound [OF s lr ok, of 5 0]) (simp_all add: login_attempt_def map_replicate)
  then show ?thesis using s by (auto simp: login_rule_def)
qed

text \<open>
  C26: a refused request leaves the limiter as it was and reports a positive
  \<open>RetryAfter\<close>; the same request made that much later, or at any time after, is admitted when
  it costs no more than the period, and made any earlier it is refused again.
\<close>

theorem retry_after:
  assumes "rule_ok r" and "1 \<le> n" and "n * emissionInterval r \<le> max_i64"
    and "AllowN hash now key r n l = Some (d, l')" and "\<not> Allowed d" and "n * emissionInterval r \<le> Period r"
  shows "l' = l \<and> 0 < RetryAfter d
    \<and> (\<forall>t \<ge> now. \<exists>d' l''. AllowN hash t key r n l' = Some (d', l'') \<and> (Allowed d' \<longleftrightarrow> now + RetryAfter d \<le> t))"
proof -
  let ?T = "tat_of hash l key r"
  note A = AllowN_tat(3,4) [OF assms(1-4,5)]
  have later: "base_tat t ?T + n * emissionInterval r \<le> t + Period r
      \<longleftrightarrow> base_tat now ?T + n * emissionInterval r \<le> t + Period r" if "now \<le> t" for t
  proof (cases "base_tat t ?T = base_tat now ?T")
    case False
    then have "base_tat t ?T = t" "base_tat now ?T \<le> t"
      using that by (auto simp: base_tat_def max_def split: option.splits if_splits)
    then show ?thesis using assms(6) by simp
  qed simp
  have "\<exists>d' l''. AllowN hash t key r n l = Some (d', l'') \<and> (Allowed d' \<longleftrightarrow> now + RetryAfter d \<le> t)" if "now \<le> t" for t
    using later [OF that] A(2) unfolding AllowN_spec [OF assms(1-3)] by auto
  then show ?thesis using A by auto
qed

lemma sweep_tat: "base_tat now (tat_of hash (snd (Sweep now' l)) key r) = base_tat now (tat_of hash l key r)"
  if "now' \<le> now" and d: "distinct (map fst (l (shard_of hash key r)))"
proof -
  let ?i = "shard_of hash key r" and ?k = "tat_key key r"
  have i: "?i < 256" by (simp add: shard_of_def)
  have flt: "map_of (filter (\<lambda>e. \<not> snd e < now') s) k
      = (case map_of s k of None \<Rightarrow> None | Some t \<Rightarrow> if t < now' then None else Some t)"
    if "distinct (map fst s)" for s :: shard and k
    using that by (induction s) (auto simp: map_of_eq_None_iff image_iff split: option.splits)
  show ?thesis using that(1) i flt [OF d, of ?k]
    by (auto simp: tat_of_def Sweep_def base_tat_def split: option.splits)
qed

text \<open>Every shard holds a key once; the operations keep it so.\<close>

definition limiter_ok :: "local_limiter \<Rightarrow> bool" where
  "limiter_ok l \<longleftrightarrow> (\<forall>i. distinct (map fst (l i)))"

lemma distinct_map_filter_fst: "distinct (map fst s) \<Longrightarrow> distinct (map fst (filter P s))"
  by (induction s) auto

lemma limiter_ok_ops:
  "limiter_ok NewLocal" "limiter_ok l \<Longrightarrow> limiter_ok (snd (Sweep now l))"
  "limiter_ok l \<Longrightarrow> AllowN hash now key r n l = Some (d, l') \<Longrightarrow> limiter_ok l'"
proof -
  show "limiter_ok NewLocal" by (simp add: limiter_ok_def NewLocal_def)
  show "limiter_ok (snd (Sweep now l))" if "limiter_ok l"
    using that by (simp add: limiter_ok_def Sweep_def distinct_map_filter_fst)
  have p: "distinct (map fst (put k v s))" if "distinct (map fst s)" for k v s
    using that by (auto simp: put_def distinct_map_filter_fst)
  show "limiter_ok l'" if "limiter_ok l" "AllowN hash now key r n l = Some (d, l')"
    using that p by (auto simp: limiter_ok_def AllowN_def Let_def split: if_splits)
qed

text \<open>
  \<open>Sweep\<close> only forgets what no longer matters: after it, the decision of every
  request at that instant or later is the one it would have been without the sweep, and the
  table only shrinks by the number of entries reported.
\<close>

theorem sweep_invisible:
  assumes "limiter_ok l" and "rule_ok r" and "1 \<le> n" and "n * emissionInterval r \<le> max_i64" and "swept \<le> now"
  shows "map_option fst (AllowN hash now key r n (snd (Sweep swept l))) = map_option fst (AllowN hash now key r n l)
    \<and> Size (snd (Sweep swept l)) + fst (Sweep swept l) = Size l"
proof -
  have "distinct (map fst (l (shard_of hash key r)))" using assms(1) by (simp add: limiter_ok_def)
  note b = sweep_tat [where hash = hash and key = key and r = r and l = l, OF assms(5) this]
  have len: "length (filter (\<lambda>e. \<not> snd e < swept) s) + length (filter (\<lambda>e. snd e < swept) s) = length s" for s :: shard
    using sum_length_filter_compl [of "\<lambda>e. snd e < swept" s] by simp
  have "Size (snd (Sweep swept l)) + fst (Sweep swept l) = Size l"
  proof -
    have "map (\<lambda>i. length (snd (Sweep swept l) i) + length (filter (\<lambda>e. snd e < swept) (l i))) [0..<256]
        = map (\<lambda>i. length (l i)) [0..<256]"
      by (rule map_cong) (use len in \<open>auto simp: Sweep_def\<close>)
    moreover have "Size (snd (Sweep swept l)) + fst (Sweep swept l)
      = sum_list (map (\<lambda>i. length (snd (Sweep swept l) i) + length (filter (\<lambda>e. snd e < swept) (l i))) [0..<256])"
      unfolding Size_def by (simp only: sum_list_addf) (simp add: Sweep_def)
    ultimately show ?thesis by (simp only: Size_def)
  qed
  then show ?thesis unfolding AllowN_spec [OF assms(2-4)] b by simp
qed

theorem retry_after_witness:
  "\<exists>d l'. AllowN (\<lambda>_. 0) 0 ''a'' login_rule 1 ((\<lambda>_. [])(0 := [(tat_key ''a'' login_rule, minutes 15)])) = Some (d, l')
     \<and> RetryAfter d = 112500000000
     \<and> (\<exists>d' l''. AllowN (\<lambda>_. 0) 112500000000 ''a'' login_rule 1 l' = Some (d', l'') \<and> Allowed d')"
proof -
  let ?l = "(\<lambda>_. [])(0 := [(tat_key ''a'' login_rule, minutes 15)])"
  have r: "rule_ok login_rule" "emissionInterval login_rule = 112500000000" "Period login_rule = 900000000000"
    by (simp_all add: login_rule_def rule_ok_def emissionInterval_def minutes_def)
  obtain d l' where d: "AllowN (\<lambda>_. 0) 0 ''a'' login_rule 1 ?l = Some (d, l')" "\<not> Allowed d" "RetryAfter d = 112500000000"
    by (subst (asm) AllowN_spec [OF r(1)]) (simp_all add: r tat_of_def shard_of_def base_tat_def minutes_def)
  have "l' = ?l \<and> 0 < RetryAfter d
    \<and> (\<forall>t \<ge> 0. \<exists>d' l''. AllowN (\<lambda>_. 0) t ''a'' login_rule 1 l' = Some (d', l'') \<and> (Allowed d' \<longleftrightarrow> 0 + RetryAfter d \<le> t))"
    by (rule retry_after [OF r(1) _ _ d(1,2)]) (simp_all add: r)
  then have "\<exists>d' l''. AllowN (\<lambda>_. 0) 112500000000 ''a'' login_rule 1 l' = Some (d', l'')
      \<and> (Allowed d' \<longleftrightarrow> 0 + RetryAfter d \<le> 112500000000)" by (elim conjE allE impE) simp_all
  then show ?thesis using d by auto
qed

theorem sweep_invisible_witness:
  "fst (Sweep 10 ((\<lambda>_. [])(0 := [(''k'', 3)]))) = 1
   \<and> Size (snd (Sweep 10 ((\<lambda>_. [])(0 := [(''k'', 3)])))) + 1 = Size ((\<lambda>_. [])(0 := [(''k'', 3)]))"
proof -
  let ?l = "(\<lambda>_. [])(0 := [(''k'', 3)])"
  have f: "fst (Sweep 10 ?l) = 1" by (simp add: Sweep_def upt_conv_Cons)
  have r: "rule_ok login_rule" "emissionInterval login_rule = 112500000000"
    by (simp_all add: login_rule_def rule_ok_def emissionInterval_def minutes_def)
  have "limiter_ok ?l" by (simp add: limiter_ok_def)
  from sweep_invisible [OF this r(1), of 1 10 10] f show ?thesis by (simp add: r)
qed

text \<open>A rule with more units than nanoseconds in its period has a zero interval and the division panics.\<close>

theorem zero_interval_panics:
  "AllowN (\<lambda>_. 0) 0 ''a'' \<lparr>Name = ''r'', Burst = 3, Period = 2\<rparr> 1 NewLocal = None"
  by (simp add: AllowN_def emissionInterval_def delayTolerance_def NewLocal_def Let_def wrap64_def)

end
