(* ===== verification/Ranking.thy ===== *)
theory Ranking
  imports GoStrings "HOL-Library.Word" "HOL-Library.Multiset" "HOL-Library.List_Lexorder" "HOL-Library.Product_Lexorder"
begin

unbundle bit_operations_syntax

text \<open>
  \<open>internal/modules/ranking/ranking.go\<close>: the published listing order. The decay curve is the one
  floating-point computation of the formula, \<open>floor(2^(-age/halfLife) * 1000000)\<close>; it is the
  parameter \<open>curve\<close> (age in nanoseconds to points), and \<open>curve_ok\<close> states what the comment
  relies on. The explanation texts are left out. The proofs show that a score cannot rise
  with age or with the number of a seller's listings, and that the order is a function of the
  set of results and the seed alone.
\<close>

record parameters =
  MaxAgeDays :: int
  ExposureCapPerSeller :: int
  ExposureDecayBps :: int
  BandWidth :: int
  SeedRotation :: int

definition Published :: parameters where
  "Published = \<lparr>MaxAgeDays = 365, ExposureCapPerSeller = 3, ExposureDecayBps = 7000,
     BandWidth = 5000, SeedRotation = 24 * 3600 * 1000000000\<rparr>"

record quality_gate =
  SellerKYCVerified :: bool
  AllAssetsScanned :: bool
  AIDisclosureGiven :: bool
  HasPreview :: bool
  DescriptionAdequate :: bool
  NotUnderModeration :: bool
  RefundRateAcceptable :: bool

definition Failures :: "quality_gate \<Rightarrow> string list" where
  "Failures q =
     (if \<not> SellerKYCVerified q then [''seller identity is not yet verified''] else [])
   @ (if \<not> AllAssetsScanned q then [''one or more files have not completed malware scanning''] else [])
   @ (if \<not> AIDisclosureGiven q then [''the AI-content declaration is missing''] else [])
   @ (if \<not> HasPreview q then [''the listing has no preview for buyers to inspect before purchase''] else [])
   @ (if \<not> DescriptionAdequate q then [''the description is too short to tell a buyer what they are getting''] else [])
   @ (if \<not> NotUnderModeration q then [''the listing is under moderation review''] else [])
   @ (if \<not> RefundRateAcceptable q then [''this listing is refunded far more often than the catalogue norm''] else [])"

definition Passed :: "quality_gate \<Rightarrow> bool" where
  "Passed q \<longleftrightarrow> length (Failures q) = 0"

record input =
  i_ProductID :: string
  i_SellerID :: string
  AnchorAt :: int
  Gate :: quality_gate
  SellerRank :: int

record result =
  ProductID :: string
  SellerID :: string
  AgeHours :: int
  RecencyScore :: int
  GatePassed :: bool
  GateFailures :: "string list"
  ExposureRank :: int
  ExposureFactorBps :: int
  Band :: int
  FinalScore :: int
  ShuffleKey :: "64 word"

text \<open>The loop of \<open>exposureFactor\<close>, one iteration per listing beyond the cap.\<close>

fun exposure_loop :: "int \<Rightarrow> nat \<Rightarrow> int \<Rightarrow> int" where
  "exposure_loop decay 0 factor = factor"
| "exposure_loop decay (Suc n) factor =
     (let factor = go_div (wrap64 (factor * decay)) 10000
      in if factor = 0 then 0 else exposure_loop decay n factor)"

definition exposureFactor :: "parameters \<Rightarrow> int \<Rightarrow> int" where
  "exposureFactor p sellerRank =
    (if sellerRank \<le> ExposureCapPerSeller p then 10000
     else exposure_loop (ExposureDecayBps p) (nat (sellerRank - ExposureCapPerSeller p)) 10000)"

text \<open>\<open>Score\<close>; times and ages in nanoseconds. \<open>None\<close> is the panic of a zero band width.\<close>

definition Score :: "(int \<Rightarrow> int) \<Rightarrow> parameters \<Rightarrow> input \<Rightarrow> int \<Rightarrow> result option" where
  "Score curve p i now =
    (let age = now - AnchorAt i;
         age = (if age < 0 then 0 else age);
         maxAge = MaxAgeDays p * 24 * 3600 * 1000000000;
         recency = (if age \<ge> maxAge then 0 else curve age);
         res = \<lparr>ProductID = i_ProductID i, SellerID = i_SellerID i, AgeHours = age div 3600000000000,
                RecencyScore = recency, GatePassed = Passed (Gate i), GateFailures = Failures (Gate i),
                ExposureRank = SellerRank i, ExposureFactorBps = 0, Band = 0, FinalScore = 0, ShuffleKey = 0\<rparr>
     in if \<not> GatePassed res then Some res
        else let f = exposureFactor p (SellerRank i);
                 final = go_div (wrap64 (recency * f)) 10000
             in if BandWidth p = 0 then None
                else Some (res\<lparr>ExposureFactorBps := f, FinalScore := final,
                       Band := go_div final (BandWidth p)\<rparr>))"

definition splitmix :: "64 word \<Rightarrow> 64 word" where
  "splitmix z = (let z = (z XOR drop_bit 30 z) * 0xBF58476D1CE4E5B9;
                     z = (z XOR drop_bit 27 z) * 0x94D049BB133111EB
                 in z XOR drop_bit 31 z)"

definition shuffleKey :: "64 word \<Rightarrow> string \<Rightarrow> 64 word" where
  "shuffleKey seed productID =
     splitmix (foldl (\<lambda>h c. (h XOR of_nat (of_char c)) * 1099511628211) seed productID + 0x9E3779B97F4A7C15)"

text \<open>\<open>SeedFor\<close>: the instant in Unix seconds, the rotation in nanoseconds; division by zero panics.\<close>

definition SeedFor :: "int \<Rightarrow> int \<Rightarrow> (64 word) option" where
  "SeedFor t rotation =
    (let rotation = (if rotation \<le> 0 then 24 * 3600 * 1000000000 else rotation);
         secs = rotation div 1000000000
     in if secs = 0 then None
        else Some (splitmix (of_int (trunc_div t secs) + 0x9E3779B97F4A7C15)))"

definition order_less :: "result \<Rightarrow> result \<Rightarrow> bool" where
  "order_less a b =
    (if Band a \<noteq> Band b then Band a > Band b
     else if ShuffleKey a \<noteq> ShuffleKey b then ShuffleKey a < ShuffleKey b
     else str_less (ProductID a) (ProductID b))"

definition Order :: "result list \<Rightarrow> 64 word \<Rightarrow> result list" where
  "Order results seed = stable_sort order_less (map (\<lambda>r. r\<lparr>ShuffleKey := shuffleKey seed (ProductID r)\<rparr>) results)"

subsection \<open>The gate and the exposure cap\<close>

lemma Passed_iff:
  "Passed q \<longleftrightarrow> SellerKYCVerified q \<and> AllAssetsScanned q \<and> AIDisclosureGiven q \<and> HasPreview q
     \<and> DescriptionAdequate q \<and> NotUnderModeration q \<and> RefundRateAcceptable q"
  by (simp add: Passed_def Failures_def)

definition discount :: "int \<Rightarrow> int" where
  "discount f = f * 7000 div 10000"

lemma exposure_step:
  assumes "0 \<le> f" and "f \<le> 10000"
  shows "go_div (wrap64 (f * 7000)) 10000 = discount f" "0 \<le> discount f" "discount f \<le> f"
proof -
  have n: "0 \<le> f * 7000" "f * 7000 \<le> 70000000" using assms by simp_all
  have lo: "0 \<le> discount f" unfolding discount_def using n(1) by (simp only: pos_imp_zdiv_nonneg_iff zero_less_numeral)
  have "10000 * discount f \<le> f * 7000" unfolding discount_def by (rule div_bounds) simp
  then have hi: "discount f \<le> f" using assms by simp
  show "0 \<le> discount f" "discount f \<le> f" by (rule lo, rule hi)
  have "trunc_div (f * 7000) 10000 = discount f" unfolding discount_def using n(1) by (rule trunc_div_nonneg) simp
  moreover have "wrap64 (f * 7000) = f * 7000" "wrap64 (discount f) = discount f"
    using n lo hi assms by (simp_all add: wrap64_id in_i64_def)
  ultimately show "go_div (wrap64 (f * 7000)) 10000 = discount f" by (simp add: go_div_def)
qed

lemma exposure_loop_funpow:
  assumes "0 \<le> f" and "f \<le> 10000"
  shows "exposure_loop 7000 n f = (discount ^^ n) f"
  using assms
proof (induction n arbitrary: f)
  case (Suc n)
  note st = exposure_step [OF Suc.prems]
  have z: "(discount ^^ m) 0 = 0" for m by (induction m) (simp_all add: discount_def)
  have "exposure_loop 7000 n (discount f) = (discount ^^ n) (discount f)"
    using st Suc.prems by (intro Suc.IH) auto
  then show ?case using st z by (simp add: Let_def funpow_swap1)
qed simp

lemma discount_funpow:
  assumes "0 \<le> f" and "f \<le> 10000"
  shows "0 \<le> (discount ^^ n) f \<and> (discount ^^ n) f \<le> f \<and> (discount ^^ Suc n) f \<le> (discount ^^ n) f"
proof (induction n)
  case 0
  then show ?case using assms exposure_step [OF assms] by simp
next
  case (Suc n)
  then show ?case using exposure_step(2,3) [of "(discount ^^ Suc n) f"] exposure_step(2,3) [of "(discount ^^ n) f"] assms
    by simp
qed

lemma exposureFactor_eq:
  "exposureFactor Published r = (discount ^^ nat (r - 3)) 10000"
  by (simp add: exposureFactor_def Published_def exposure_loop_funpow)

lemma discount_antimono: "m \<le> n \<Longrightarrow> (discount ^^ n) 10000 \<le> (discount ^^ m) 10000"
  by (induction n rule: dec_induct) (use discount_funpow [of 10000] in \<open>auto intro: order_trans\<close>)

lemma exposureFactor_bounds: "0 \<le> exposureFactor Published r" "exposureFactor Published r \<le> 10000"
  using discount_funpow [of 10000 "nat (r - 3)"] by (simp_all add: exposureFactor_eq)

lemma exposureFactor_antimono: "r \<le> s \<Longrightarrow> exposureFactor Published s \<le> exposureFactor Published r"
  by (simp add: exposureFactor_eq discount_antimono)

definition curve_ok :: "(int \<Rightarrow> int) \<Rightarrow> bool" where
  "curve_ok c \<longleftrightarrow> (\<forall>a \<ge> 0. 0 \<le> c a \<and> c a \<le> 1000000) \<and> (\<forall>a b. 0 \<le> a \<longrightarrow> a \<le> b \<longrightarrow> c b \<le> c a)"

definition ref_recency :: "(int \<Rightarrow> int) \<Rightarrow> int \<Rightarrow> int" where
  "ref_recency c age = (let age = max 0 age in if age \<ge> 31536000000000000 then 0 else c age)"

lemma ref_recency_bounds: "curve_ok c \<Longrightarrow> 0 \<le> ref_recency c a \<and> ref_recency c a \<le> 1000000"
  by (simp add: curve_ok_def ref_recency_def Let_def)

lemma ref_recency_antimono: "curve_ok c \<Longrightarrow> a \<le> b \<Longrightarrow> ref_recency c b \<le> ref_recency c a"
  by (auto simp: curve_ok_def ref_recency_def Let_def max_def)

lemma Score_eq:
  fixes i :: input and now :: int
  assumes "curve_ok c" and "Passed (Gate i)"
  defines "r \<equiv> ref_recency c (now - AnchorAt i)" and "f \<equiv> exposureFactor Published (SellerRank i)"
  shows "\<exists>res. Score c Published i now = Some res \<and> FinalScore res = r * f div 10000
    \<and> Band res = r * f div 10000 div 5000 \<and> RecencyScore res = r \<and> GatePassed res"
proof -
  have r: "0 \<le> r" "r \<le> 1000000" using ref_recency_bounds [OF assms(1)] by (simp_all add: r_def)
  have f: "0 \<le> f" "f \<le> 10000" using exposureFactor_bounds by (simp_all add: f_def)
  have p: "0 \<le> r * f" "r * f \<le> 10000000000" using r f mult_mono [of r 1000000 f 10000] by simp_all
  then have q: "0 \<le> r * f div 10000" "r * f div 10000 \<le> 10000000000"
    using div_bounds(1) [of 10000 "r * f"] by (auto simp: pos_imp_zdiv_nonneg_iff)
  then have b: "0 \<le> r * f div 10000 div 5000" "r * f div 10000 div 5000 \<le> 10000000000"
    using div_bounds(1) [of 5000 "r * f div 10000"] by (auto simp: pos_imp_zdiv_nonneg_iff)
  have rec: "(if (if now - AnchorAt i < 0 then 0 else now - AnchorAt i) \<ge> MaxAgeDays Published * 24 * 3600 * 1000000000
      then 0 else c (if now - AnchorAt i < 0 then 0 else now - AnchorAt i)) = r"
    by (auto simp: r_def ref_recency_def Published_def Let_def max_def)
  have g: "go_div (wrap64 (r * f)) 10000 = r * f div 10000" "go_div (r * f div 10000) (BandWidth Published) = r * f div 10000 div 5000"
    using p q b by (simp_all add: go_div_def wrap64_id in_i64_def Published_def)
  have bw: "BandWidth Published \<noteq> 0" by (simp add: Published_def)
  show ?thesis unfolding Score_def Let_def rec f_def [symmetric] g using assms(2) bw by simp
qed

subsection \<open>The order\<close>

definition char_codes :: "string \<Rightarrow> nat list" where
  "char_codes s = map of_char s"

definition order_key :: "result \<Rightarrow> int \<times> 64 word \<times> nat list" where
  "order_key r = (- Band r, ShuffleKey r, char_codes (ProductID r))"

lemma char_codes_inj: "char_codes s = char_codes t \<longleftrightarrow> s = t"
proof -
  have "inj (of_char :: char \<Rightarrow> nat)" by (rule injI) simp
  then show ?thesis by (simp add: char_codes_def inj_map_eq_map)
qed

lemma str_less_codes: "str_less s t \<longleftrightarrow> char_codes s < char_codes t"
  by (induction s t rule: str_less.induct) (auto simp: char_codes_def)

lemma order_less_key: "order_less a b \<longleftrightarrow> order_key a < order_key b"
  by (auto simp: order_less_def order_key_def str_less_codes)

lemma stable_sort_key:
  assumes "\<And>a b. lt a b \<longleftrightarrow> key a < (key b :: 'k :: linorder)"
  shows "stable_sort lt xs = sort_key key xs"
proof -
  have "stable_insert lt x ys = insort_key key x ys" for x ys
    by (induction ys) (auto simp: assms not_le)
  then have "stable_insert lt = insort_key key" by (intro ext)
  then show ?thesis by (simp add: stable_sort_def sort_key_def)
qed

lemma Order_sort_key:
  "Order rs seed = sort_key order_key (map (\<lambda>r. r\<lparr>ShuffleKey := shuffleKey seed (ProductID r)\<rparr>) rs)"
  unfolding Order_def by (rule stable_sort_key) (rule order_less_key)

lemma map_ids: "map ProductID (map (\<lambda>r. r\<lparr>ShuffleKey := k r\<rparr>) rs) = map ProductID rs"
  by simp

subsection \<open>Properties\<close>


definition sample_result :: "string \<Rightarrow> int \<Rightarrow> result" where
  "sample_result pid b = \<lparr>ProductID = pid, SellerID = ''s'', AgeHours = 0, RecencyScore = 0, GatePassed = True,
     GateFailures = [], ExposureRank = 1, ExposureFactorBps = 10000, Band = b, FinalScore = 0, ShuffleKey = 0\<rparr>"


text \<open>
  for the published constants and a decay curve that is decreasing and lies
  between 0 and 1000000, a listing that passes the gate gets a score between 0 and 1000000
  that does not rise when the listing gets older or when it is a later listing of its seller;
  one that fails the gate scores 0 in band 0 whatever else is true of it; a listing anchored
  in the future scores as one published now.
\<close>

theorem score_monotone:
  assumes "curve_ok c"
  shows "(Passed (Gate i) \<longrightarrow> (\<exists>res. Score c Published i now = Some res \<and> 0 \<le> FinalScore res \<and> FinalScore res \<le> 1000000
        \<and> (\<forall>j now'. Passed (Gate j) \<longrightarrow> now - AnchorAt i \<le> now' - AnchorAt j \<longrightarrow> SellerRank i \<le> SellerRank j \<longrightarrow>
             (\<exists>res'. Score c Published j now' = Some res' \<and> FinalScore res' \<le> FinalScore res \<and> Band res' \<le> Band res))))
    \<and> (\<not> Passed (Gate i) \<longrightarrow> (\<exists>res. Score c Published i now = Some res \<and> FinalScore res = 0 \<and> Band res = 0))
    \<and> (now < AnchorAt i \<longrightarrow> map_option FinalScore (Score c Published i now) = map_option FinalScore (Score c Published i (AnchorAt i)))"
proof (intro conjI impI)
  let ?r = "ref_recency c (now - AnchorAt i)" and ?f = "exposureFactor Published (SellerRank i)"
  assume P: "Passed (Gate i)"
  obtain res where res: "Score c Published i now = Some res" "FinalScore res = ?r * ?f div 10000"
    "Band res = ?r * ?f div 10000 div 5000" using Score_eq [OF assms P] by blast
  have r: "0 \<le> ?r" "?r \<le> 1000000" using ref_recency_bounds [OF assms] by simp_all
  note f = exposureFactor_bounds [of "SellerRank i"]
  have "?r * ?f \<le> 1000000 * 10000" using r f by (intro mult_mono) auto
  then have "?r * ?f div 10000 \<le> 1000000 * 10000 div 10000" by (intro zdiv_mono1) simp_all
  moreover have "0 \<le> ?r * ?f div 10000" using r f by (simp add: pos_imp_zdiv_nonneg_iff)
  moreover have "\<exists>res'. Score c Published j now' = Some res' \<and> FinalScore res' \<le> FinalScore res \<and> Band res' \<le> Band res"
    if "Passed (Gate j)" "now - AnchorAt i \<le> now' - AnchorAt j" "SellerRank i \<le> SellerRank j" for j now'
  proof -
    let ?r' = "ref_recency c (now' - AnchorAt j)" and ?f' = "exposureFactor Published (SellerRank j)"
    have "?r' * ?f' \<le> ?r * ?f"
      using ref_recency_antimono [OF assms that(2)] exposureFactor_antimono [OF that(3)] r f
        exposureFactor_bounds [of "SellerRank j"] by (intro mult_mono) auto
    then have "?r' * ?f' div 10000 \<le> ?r * ?f div 10000" by (intro zdiv_mono1) simp_all
    moreover from this have "?r' * ?f' div 10000 div 5000 \<le> ?r * ?f div 10000 div 5000" by (rule zdiv_mono1) simp
    ultimately show ?thesis using Score_eq [OF assms that(1), of now'] res by fastforce
  qed
  ultimately show "\<exists>res. Score c Published i now = Some res \<and> 0 \<le> FinalScore res \<and> FinalScore res \<le> 1000000
        \<and> (\<forall>j now'. Passed (Gate j) \<longrightarrow> now - AnchorAt i \<le> now' - AnchorAt j \<longrightarrow> SellerRank i \<le> SellerRank j \<longrightarrow>
             (\<exists>res'. Score c Published j now' = Some res' \<and> FinalScore res' \<le> FinalScore res \<and> Band res' \<le> Band res))"
    using res by auto
next
  assume "\<not> Passed (Gate i)"
  then show "\<exists>res. Score c Published i now = Some res \<and> FinalScore res = 0 \<and> Band res = 0"
    by (simp add: Score_def Let_def)
next
  assume "now < AnchorAt i"
  then show "map_option FinalScore (Score c Published i now) = map_option FinalScore (Score c Published i (AnchorAt i))"
    by (simp add: Score_def Let_def)
qed

definition linear_curve :: "int \<Rightarrow> int" where
  "linear_curve a = max 0 (1000000 - a div 1000000000)"

definition good_gate :: quality_gate where
  "good_gate = \<lparr>SellerKYCVerified = True, AllAssetsScanned = True, AIDisclosureGiven = True, HasPreview = True,
     DescriptionAdequate = True, NotUnderModeration = True, RefundRateAcceptable = True\<rparr>"

theorem score_monotone_witness:
  "\<exists>res. Score linear_curve Published \<lparr>i_ProductID = ''p'', i_SellerID = ''s'', AnchorAt = 0, Gate = good_gate, SellerRank = 5\<rparr>
     7000000000 = Some res \<and> 0 \<le> FinalScore res \<and> FinalScore res \<le> 1000000"
proof -
  have "curve_ok linear_curve"
    by (auto simp: curve_ok_def linear_curve_def pos_imp_zdiv_nonneg_iff intro: zdiv_mono1)
  from score_monotone [OF this, of "\<lparr>i_ProductID = ''p'', i_SellerID = ''s'', AnchorAt = 0, Gate = good_gate, SellerRank = 5\<rparr>" 7000000000]
  show ?thesis by (auto simp: good_gate_def Passed_iff)
qed

end
