(* ===== verification/Ledger.thy ===== *)
theory Ledger
  imports Money
begin

text \<open>
  \<open>internal/modules/ledger/ledger.go\<close> over the tables and triggers of
  \<open>db/migrations/0004_ledger.sql\<close> it relies on: accounts, journal entries, journal lines and the
  rolled-up balances. Identifiers are drawn from a counter (the code draws UUIDs that do not
  repeat). The proofs show that the journal stays balanced entry by entry and so in total,
  that a repeated idempotency key posts nothing, and that the rollup never changes a balance
  when every line up to its watermark is visible.
\<close>

datatype direction = Debit | Credit | OtherDir string

type_synonym kind = string

text \<open>An account code: a platform code, or the three parts of a seller's subsidiary account.\<close>

datatype acct_code = PlatformCode string | SellerCode nat string string

datatype acct_kind = Asset | Liability | Equity | Income | Expense

record account =
  a_id :: nat
  a_code :: acct_code
  a_kind :: acct_kind
  a_currency :: string
  is_control :: bool
  closed :: bool

text \<open>\<open>normal_balance\<close> is fixed by the kind (a CHECK of the table).\<close>

fun normal_balance :: "acct_kind \<Rightarrow> direction" where
  "normal_balance Asset = Debit"
| "normal_balance Expense = Debit"
| "normal_balance Liability = Credit"
| "normal_balance Equity = Credit"
| "normal_balance Income = Credit"

record ledger_line =
  AccountID :: nat
  Direction :: direction
  Amount :: money
  Memo :: string

record entry =
  Kind :: kind
  en_Currency :: string
  OccurredAt :: "int option"
  Description :: string
  ReferenceType :: string
  ReferenceID :: string
  IdempotencyKey :: string
  ReversesEntryID :: "nat option"
  Metadata :: "(string \<times> string) list"
  Lines :: "ledger_line list"

datatype ledger_error =
    KindRequired
  | DescriptionRequired
  | ReferenceRequired
  | ErrNoIdempotency
  | ErrEmptyEntry
  | ErrCurrencyMixed nat
  | AmountNotPositive nat
  | NoAccount nat
  | InvalidDirection nat
  | ErrUnbalanced int int
  | ErrAccountNotFound string
  | TrialBalanceBroken string int int
  | SqlError string
  | LedgerMoney money_error

subsection \<open>\<open>Validate\<close>\<close>

definition validate_line :: "string \<Rightarrow> nat \<times> ledger_line \<Rightarrow> int \<times> int \<Rightarrow> ledger_error + int \<times> int" where
  "validate_line cu il dc = (case il of (i, l) \<Rightarrow> case dc of (debits, credits) \<Rightarrow>
     if cur (Amount l) \<noteq> cu then Inl (ErrCurrencyMixed (i + 1))
     else if \<not> IsPositive (Amount l) then Inl (AmountNotPositive (i + 1))
     else if AccountID l = 0 then Inl (NoAccount (i + 1))
     else case Direction l of
       Debit \<Rightarrow> Inr (wrap64 (debits + minor (Amount l)), credits)
     | Credit \<Rightarrow> Inr (debits, wrap64 (credits + minor (Amount l)))
     | OtherDir d \<Rightarrow> Inl (InvalidDirection (i + 1)))"

definition Validate :: "entry \<Rightarrow> ledger_error + unit" where
  "Validate e =
    (if Kind e = [] then Inl KindRequired
     else if Description e = [] then Inl DescriptionRequired
     else if ReferenceType e = [] \<or> ReferenceID e = [] then Inl ReferenceRequired
     else if IdempotencyKey e = [] then Inl ErrNoIdempotency
     else if length (Lines e) < 2 then Inl ErrEmptyEntry
     else bindE (foldE (validate_line (en_Currency e)) (enumerate 0 (Lines e)) (0, 0)) (\<lambda>(debits, credits).
          if debits \<noteq> credits then Inl (ErrUnbalanced debits credits) else Inr ()))"

subsection \<open>The tables\<close>

record journal_entry =
  e_id :: nat
  e_public :: string
  e_kind :: kind
  e_currency :: string
  e_occurred :: int
  e_description :: string
  e_ref_type :: string
  e_ref_id :: string
  e_reverses :: "nat option"
  e_key :: string
  e_meta :: "(string \<times> string) list"

record journal_line =
  jl_seq :: nat
  jl_id :: nat
  jl_entry :: nat
  jl_no :: nat
  jl_account :: nat
  jl_dir :: direction
  jl_amount :: int
  jl_currency :: string
  jl_memo :: string

record balance_row =
  b_account :: nat
  b_debit :: int
  b_credit :: int
  b_through :: nat

record ledger =
  accounts :: "account list"
  entries :: "journal_entry list"
  jlines :: "journal_line list"
  balances :: "balance_row list"
  next_seq :: nat
  next_uuid :: nat

definition pub_id :: "string \<Rightarrow> nat \<Rightarrow> string" where
  "pub_id prefix n = prefix @ ''_'' @ dec_nat n"

definition entry_kinds :: "kind list" where
  "entry_kinds = [''order_capture'', ''platform_fee'', ''psp_fee'', ''tcs_collection'', ''tds_deduction'',
     ''seller_transfer'', ''settlement_release'', ''rolling_reserve_hold'', ''rolling_reserve_release'',
     ''refund'', ''transfer_reversal'', ''chargeback'', ''chargeback_representment_won'',
     ''payout'', ''tax_remittance'', ''adjustment'', ''opening_balance'', ''fx_revaluation'']"

text \<open>The domains \<open>currency_code\<close> and \<open>money_minor\<close>.\<close>

definition currency_code :: "string \<Rightarrow> bool" where
  "currency_code c \<longleftrightarrow> length c = 3 \<and> (\<forall>x \<in> set c. 65 \<le> (of_char x :: nat) \<and> (of_char x :: nat) \<le> 90)"

definition money_minor :: "int \<Rightarrow> bool" where
  "money_minor v \<longleftrightarrow> - 9000000000000000 \<le> v \<and> v \<le> 9000000000000000"

definition find_account :: "ledger \<Rightarrow> nat \<Rightarrow> account option" where
  "find_account l i = find (\<lambda>a. a_id a = i) (accounts l)"

definition find_entry :: "ledger \<Rightarrow> string \<Rightarrow> journal_entry option" where
  "find_entry l key = find (\<lambda>e. e_key e = key) (entries l)"

text \<open>\<open>INSERT INTO journal_entries\<close> with the table's checks.\<close>

definition insert_entry :: "journal_entry \<Rightarrow> ledger \<Rightarrow> ledger_error + ledger" where
  "insert_entry je l =
    (if e_kind je \<notin> set entry_kinds then Inl (SqlError ''journal_entries_kind_check'')
     else if \<not> currency_code (e_currency je) then Inl (SqlError ''currency_code'')
     else if char_count (e_description je) < 1 \<or> 500 < char_count (e_description je) then Inl (SqlError ''journal_entries_description_check'')
     else if char_count (e_ref_type je) < 1 \<or> 60 < char_count (e_ref_type je) then Inl (SqlError ''journal_entries_reference_type_check'')
     else if (case e_reverses je of None \<Rightarrow> False | Some r \<Rightarrow> r \<notin> set (map e_id (entries l))) then Inl (SqlError ''journal_entries_reverses_entry_id_fkey'')
     else if e_key je \<in> set (map e_key (entries l)) then Inl (SqlError ''journal_entries_idempotency_uq'')
     else Inr (l\<lparr>entries := entries l @ [je]\<rparr>))"

text \<open>
  \<open>INSERT INTO journal_lines\<close> with its checks and the trigger \<open>journal_line_account_rules\<close>; the
  sequence is drawn even when the row is refused.
\<close>

definition insert_line :: "journal_entry \<Rightarrow> nat \<times> ledger_line \<Rightarrow> ledger \<Rightarrow> ledger_error + ledger" where
  "insert_line je il l = (case il of (i, ln) \<Rightarrow>
     case find_account l (AccountID ln) of
       None \<Rightarrow> Inl (SqlError ''ledger account does not exist'')
     | Some a \<Rightarrow>
       if is_control a then Inl (SqlError ''ledger account is a control account'')
       else if closed a then Inl (SqlError ''ledger account is closed'')
       else if a_currency a \<noteq> cur (Amount ln) then Inl (SqlError ''line currency does not match account currency'')
       else if e_currency je \<noteq> cur (Amount ln) then Inl (SqlError ''line currency does not match entry currency'')
       else if 32767 < i + 1 then Inl (SqlError ''smallint out of range'')
       else if \<not> (0 < minor (Amount ln) \<and> money_minor (minor (Amount ln))) then Inl (SqlError ''amount_minor'')
       else if Direction ln \<noteq> Debit \<and> Direction ln \<noteq> Credit then Inl (SqlError ''ledger_direction'')
       else if 240 < char_count (Memo ln) then Inl (SqlError ''journal_lines_memo_check'')
       else Inr (l\<lparr>jlines := jlines l @
              [\<lparr>jl_seq = next_seq l, jl_id = next_uuid l, jl_entry = e_id je, jl_no = i + 1,
                jl_account = AccountID ln, jl_dir = Direction ln, jl_amount = minor (Amount ln),
                jl_currency = cur (Amount ln), jl_memo = Memo ln\<rparr>],
              next_seq := next_seq l + 1, next_uuid := next_uuid l + 1\<rparr>))"

record posted =
  EntryID :: nat
  PublicID :: string
  Replayed :: bool

text \<open>\<open>Post\<close> at the clock reading \<open>now\<close>.\<close>

definition Post :: "int \<Rightarrow> entry \<Rightarrow> ledger \<Rightarrow> ledger_error + posted \<times> ledger" where
  "Post now e l = bindE (Validate e) (\<lambda>_.
     case find_entry l (IdempotencyKey e) of
       Some x \<Rightarrow> Inr (\<lparr>EntryID = e_id x, PublicID = e_public x, Replayed = True\<rparr>, l)
     | None \<Rightarrow>
         let entryID = next_uuid l;
             publicID = pub_id ''jrn'' entryID;
             occurred = (case OccurredAt e of None \<Rightarrow> now | Some t \<Rightarrow> t);
             je = \<lparr>e_id = entryID, e_public = publicID, e_kind = Kind e, e_currency = en_Currency e,
                   e_occurred = occurred, e_description = Description e, e_ref_type = ReferenceType e,
                   e_ref_id = ReferenceID e, e_reverses = ReversesEntryID e, e_key = IdempotencyKey e,
                   e_meta = Metadata e\<rparr>
         in bindE (insert_entry je (l\<lparr>next_uuid := entryID + 1\<rparr>)) (\<lambda>l.
            bindE (foldE (insert_line je) (enumerate 0 (Lines e)) l) (\<lambda>l.
            Inr (\<lparr>EntryID = entryID, PublicID = publicID, Replayed = False\<rparr>, l))))"

subsection \<open>The deferred balance check\<close>

definition entry_lines :: "ledger \<Rightarrow> nat \<Rightarrow> journal_line list" where
  "entry_lines l i = filter (\<lambda>x. jl_entry x = i) (jlines l)"

definition dir_sum :: "direction \<Rightarrow> journal_line list \<Rightarrow> int" where
  "dir_sum d xs = sum_list (map jl_amount (filter (\<lambda>x. jl_dir x = d) xs))"

definition journal_entry_must_balance :: "ledger \<Rightarrow> nat \<Rightarrow> ledger_error + unit" where
  "journal_entry_must_balance l target =
    (let xs = entry_lines l target; dr = dir_sum Debit xs; cr = dir_sum Credit xs; n = length xs
     in if \<not> in_i64 dr \<or> \<not> in_i64 cr then Inl (SqlError ''bigint out of range'')
        else if n = 0 then Inl (SqlError ''journal entry has no lines'')
        else if n < 2 then Inl (SqlError ''journal entry has a single line'')
        else if dr \<noteq> cr then Inl (SqlError ''journal entry does not balance'')
        else Inr ())"

text \<open>COMMIT runs the constraint triggers of the rows the transaction inserted.\<close>

definition commit_check :: "ledger \<Rightarrow> ledger \<Rightarrow> ledger_error + unit" where
  "commit_check before l =
     foldE (\<lambda>i _. journal_entry_must_balance l i)
       (map e_id (drop (length (entries before)) (entries l))
        @ map jl_entry (drop (length (jlines before)) (jlines l))) ()"

subsection \<open>Accounts and balances\<close>

definition AccountByCode :: "ledger \<Rightarrow> string \<Rightarrow> ledger_error + nat" where
  "AccountByCode l code = (case find (\<lambda>a. a_code a = PlatformCode code \<and> \<not> closed a) (accounts l) of
     None \<Rightarrow> Inl (ErrAccountNotFound code)
   | Some a \<Rightarrow> Inr (a_id a))"

text \<open>\<open>seller_ledger_account\<close> of 0011: look the code up, or open the account.\<close>

definition SellerAccount :: "nat \<Rightarrow> string \<Rightarrow> string \<Rightarrow> ledger \<Rightarrow> ledger_error + nat \<times> ledger" where
  "SellerAccount sellerID purpose cu l =
    (if purpose \<noteq> ''payable'' \<and> purpose \<noteq> ''reserve'' then Inl (SqlError ''unknown seller account purpose'')
     else if \<not> currency_code cu then Inl (SqlError ''currency_code'')
     else let code = SellerCode sellerID purpose cu in
       case find (\<lambda>a. a_code a = code) (accounts l) of
         Some a \<Rightarrow> Inr (a_id a, l)
       | None \<Rightarrow> Inr (next_uuid l, l\<lparr>accounts := accounts l @
             [\<lparr>a_id = next_uuid l, a_code = code, a_kind = Liability, a_currency = cu,
               is_control = False, closed = False\<rparr>], next_uuid := next_uuid l + 1\<rparr>))"

definition find_balance :: "ledger \<Rightarrow> nat \<Rightarrow> balance_row option" where
  "find_balance l i = find (\<lambda>b. b_account b = i) (balances l)"

text \<open>\<open>ledger_balance\<close>: the rolled-up part plus the tail after the watermark.\<close>

definition Balance :: "ledger \<Rightarrow> nat \<Rightarrow> ledger_error + int" where
  "Balance l i = (case find_account l i of
     None \<Rightarrow> Inl (SqlError ''ledger account does not exist'')
   | Some a \<Rightarrow>
     let (rd, rc, wm) = (case find_balance l i of None \<Rightarrow> (0, 0, 0) | Some b \<Rightarrow> (b_debit b, b_credit b, b_through b));
         tail = filter (\<lambda>x. jl_account x = i \<and> jl_seq x > wm) (jlines l);
         tdr = dir_sum Debit tail; tcr = dir_sum Credit tail; dr = rd + tdr; cr = rc + tcr;
         v = (if normal_balance (a_kind a) = Debit then dr - cr else cr - dr)
     in if in_i64 tdr \<and> in_i64 tcr \<and> in_i64 dr \<and> in_i64 cr \<and> in_i64 v then Inr v
        else Inl (SqlError ''bigint out of range''))"

definition BalanceOf :: "ledger \<Rightarrow> string \<Rightarrow> string \<Rightarrow> ledger_error + money" where
  "BalanceOf l code cu = bindE (AccountByCode l code) (\<lambda>i. bindE (Balance l i) (\<lambda>v. wrapE LedgerMoney (New v cu)))"

text \<open>\<open>ledger_rollup\<close>: every account with lines between its watermark and the ceiling advances.\<close>

definition through_of :: "ledger \<Rightarrow> nat \<Rightarrow> nat" where
  "through_of l i = (case find_balance l i of None \<Rightarrow> 0 | Some b \<Rightarrow> b_through b)"

definition upsert_balance :: "ledger \<Rightarrow> nat \<Rightarrow> nat \<Rightarrow> balance_row list \<Rightarrow> balance_row list" where
  "upsert_balance l ceiling i bs =
    (let xs = filter (\<lambda>x. jl_account x = i \<and> jl_seq x > through_of l i \<and> jl_seq x \<le> ceiling) (jlines l);
         dr = dir_sum Debit xs; cr = dir_sum Credit xs
     in if \<exists>b \<in> set bs. b_account b = i
        then map (\<lambda>b. if b_account b = i then b\<lparr>b_debit := b_debit b + dr, b_credit := b_credit b + cr, b_through := ceiling\<rparr> else b) bs
        else bs @ [\<lparr>b_account = i, b_debit = dr, b_credit = cr, b_through = ceiling\<rparr>])"

definition touched :: "ledger \<Rightarrow> nat \<Rightarrow> nat list" where
  "touched l ceiling = remdups (map jl_account
     (filter (\<lambda>x. jl_seq x > through_of l (jl_account x) \<and> jl_seq x \<le> ceiling) (jlines l)))"

definition Rollup :: "ledger \<Rightarrow> ledger_error + nat \<times> ledger" where
  "Rollup l =
    (let ceiling = foldl max 0 (map jl_seq (jlines l));
         bs = fold (upsert_balance l ceiling) (touched l ceiling) (balances l)
     in if \<forall>b \<in> set bs. money_minor (b_debit b) \<and> money_minor (b_credit b)
        then Inr (length (touched l ceiling), l\<lparr>balances := bs\<rparr>)
        else Inl (SqlError ''money_minor''))"

subsection \<open>Trial balance\<close>

record trial_row =
  tb_Currency :: string
  Debits :: int
  Credits :: int
  Difference :: int

definition line_currency :: "ledger \<Rightarrow> journal_line \<Rightarrow> string option" where
  "line_currency l x = map_option a_currency (find_account l (jl_account x))"

definition currencies_of :: "ledger \<Rightarrow> string list" where
  "currencies_of l = stable_sort str_less (remdups (map the (filter (\<lambda>c. c \<noteq> None) (map (line_currency l) (jlines l)))))"

definition trial_row_for :: "ledger \<Rightarrow> string \<Rightarrow> ledger_error + trial_row" where
  "trial_row_for l c =
    (let xs = filter (\<lambda>x. line_currency l x = Some c) (jlines l);
         dr = dir_sum Debit xs; cr = dir_sum Credit xs
     in if in_i64 dr \<and> in_i64 cr \<and> in_i64 (dr - cr)
        then Inr \<lparr>tb_Currency = c, Debits = dr, Credits = cr, Difference = dr - cr\<rparr>
        else Inl (SqlError ''bigint out of range''))"

definition TrialBalance :: "ledger \<Rightarrow> ledger_error + trial_row list" where
  "TrialBalance l = mapE (trial_row_for l) (currencies_of l)"

definition AssertBalanced :: "ledger \<Rightarrow> ledger_error + unit" where
  "AssertBalanced l = bindE (TrialBalance l) (\<lambda>rows. foldE (\<lambda>r _.
     if Difference r \<noteq> 0 then Inl (TrialBalanceBroken (tb_Currency r) (Debits r) (Credits r)) else Inr ()) rows ())"

subsection \<open>Statements\<close>

record entry_line =
  AccountCode :: acct_code
  el_Direction :: direction
  el_Amount :: money
  el_Memo :: string

record entry_detail =
  ed_PublicID :: string
  ed_Kind :: kind
  ed_Description :: string
  ed_OccurredAt :: int
  ed_Lines :: "entry_line list"

text \<open>The join, in the order \<open>occurred_at, id, line_no\<close>.\<close>

definition statement_less :: "journal_entry \<times> journal_line \<Rightarrow> journal_entry \<times> journal_line \<Rightarrow> bool" where
  "statement_less x y =
    (if e_occurred (fst x) \<noteq> e_occurred (fst y) then e_occurred (fst x) < e_occurred (fst y)
     else if e_id (fst x) \<noteq> e_id (fst y) then e_id (fst x) < e_id (fst y)
     else jl_no (snd x) < jl_no (snd y))"

definition statement_rows :: "ledger \<Rightarrow> string \<Rightarrow> string \<Rightarrow> (journal_entry \<times> journal_line) list" where
  "statement_rows l rt ri = stable_sort statement_less
     (concat (map (\<lambda>e. map (\<lambda>x. (e, x)) (entry_lines l (e_id e)))
       (filter (\<lambda>e. e_ref_type e = rt \<and> e_ref_id e = ri) (entries l))))"

definition add_statement_row :: "ledger \<Rightarrow> journal_entry \<times> journal_line \<Rightarrow> entry_detail list \<Rightarrow> ledger_error + entry_detail list" where
  "add_statement_row l r details = (case r of (e, x) \<Rightarrow>
     let out = details; out = (if out = [] \<or> ed_PublicID (last out) \<noteq> e_public e
                then out @ [\<lparr>ed_PublicID = e_public e, ed_Kind = e_kind e, ed_Description = e_description e,
                       ed_OccurredAt = e_occurred e, ed_Lines = []\<rparr>]
                else out)
     in bindE (wrapE LedgerMoney (New (jl_amount x) (jl_currency x))) (\<lambda>m.
        case find_account l (jl_account x) of
          None \<Rightarrow> Inr details
        | Some a \<Rightarrow> Inr (butlast out @ [(last out)\<lparr>ed_Lines := ed_Lines (last out) @
            [\<lparr>AccountCode = a_code a, el_Direction = jl_dir x, el_Amount = m, el_Memo = jl_memo x\<rparr>]\<rparr>])))"

definition EntriesFor :: "ledger \<Rightarrow> string \<Rightarrow> string \<Rightarrow> ledger_error + entry_detail list" where
  "EntriesFor l rt ri = foldE (add_statement_row l) (statement_rows l rt ri) []"

subsection \<open>Well-formed journals\<close>

definition entry_balanced :: "ledger \<Rightarrow> nat \<Rightarrow> bool" where
  "entry_balanced l i \<longleftrightarrow> 2 \<le> length (entry_lines l i)
     \<and> dir_sum Debit (entry_lines l i) = dir_sum Credit (entry_lines l i)"

definition account_lines :: "ledger \<Rightarrow> nat \<Rightarrow> journal_line list" where
  "account_lines l i = filter (\<lambda>x. jl_account x = i) (jlines l)"

definition line_wf :: "ledger \<Rightarrow> journal_line \<Rightarrow> bool" where
  "line_wf l x \<longleftrightarrow> 0 < jl_amount x \<and> (jl_dir x = Debit \<or> jl_dir x = Credit) \<and> 0 < jl_seq x \<and> jl_seq x < next_seq l
     \<and> line_currency l x = Some (jl_currency x)
     \<and> (\<exists>e \<in> set (entries l). e_id e = jl_entry x \<and> e_currency e = jl_currency x)"

definition balance_wf :: "ledger \<Rightarrow> balance_row \<Rightarrow> bool" where
  "balance_wf l b \<longleftrightarrow> b_through b < next_seq l
     \<and> b_debit b = dir_sum Debit (filter (\<lambda>x. jl_seq x \<le> b_through b) (account_lines l (b_account b)))
     \<and> b_credit b = dir_sum Credit (filter (\<lambda>x. jl_seq x \<le> b_through b) (account_lines l (b_account b)))"

definition ledger_wf :: "ledger \<Rightarrow> bool" where
  "ledger_wf l \<longleftrightarrow> 0 < next_seq l \<and> 0 < next_uuid l
     \<and> distinct (map e_key (entries l)) \<and> distinct (map e_id (entries l)) \<and> (\<forall>e \<in> set (entries l). e_id e < next_uuid l)
     \<and> distinct (map a_id (accounts l)) \<and> (\<forall>a \<in> set (accounts l). a_id a < next_uuid l)
     \<and> (\<forall>x \<in> set (jlines l). line_wf l x)
     \<and> distinct (map b_account (balances l)) \<and> (\<forall>b \<in> set (balances l). balance_wf l b)"

definition ledger_ok :: "ledger \<Rightarrow> bool" where
  "ledger_ok l \<longleftrightarrow> ledger_wf l \<and> (\<forall>e \<in> set (entries l). entry_balanced l (e_id e))"

lemma dir_sum_append [simp]: "dir_sum d (xs @ ys) = dir_sum d xs + dir_sum d ys"
  by (simp add: dir_sum_def)

lemma dir_sum_Nil [simp]: "dir_sum d [] = 0"
  by (simp add: dir_sum_def)

lemma dir_sum_Cons: "dir_sum d (x # xs) = (if jl_dir x = d then jl_amount x else 0) + dir_sum d xs"
  by (simp add: dir_sum_def)

text \<open>One step of a unit of work only appends, and its new lines belong to its new entries.\<close>

definition ledger_ext :: "ledger \<Rightarrow> ledger \<Rightarrow> bool" where
  "ledger_ext l l' \<longleftrightarrow> (\<exists>es xs as. entries l' = entries l @ es \<and> jlines l' = jlines l @ xs
     \<and> accounts l' = accounts l @ as \<and> balances l' = balances l \<and> next_seq l \<le> next_seq l' \<and> next_uuid l \<le> next_uuid l'
     \<and> (\<forall>x \<in> set xs. jl_entry x \<in> e_id ` set es) \<and> (\<forall>e \<in> set es. next_uuid l \<le> e_id e))"

lemma ledger_ext_refl [simp]: "ledger_ext l l"
  by (simp add: ledger_ext_def)

lemma ledger_ext_trans:
  assumes "ledger_ext l1 l2" and "ledger_ext l2 l3"
  shows "ledger_ext l1 l3"
proof -
  from assms(1) obtain es xs as where 1: "entries l2 = entries l1 @ es" "jlines l2 = jlines l1 @ xs"
    "accounts l2 = accounts l1 @ as" "balances l2 = balances l1" "next_seq l1 \<le> next_seq l2" "next_uuid l1 \<le> next_uuid l2"
    "\<forall>x \<in> set xs. jl_entry x \<in> e_id ` set es" "\<forall>e \<in> set es. next_uuid l1 \<le> e_id e"
    unfolding ledger_ext_def by blast
  from assms(2) obtain es' xs' as' where 2: "entries l3 = entries l2 @ es'" "jlines l3 = jlines l2 @ xs'"
    "accounts l3 = accounts l2 @ as'" "balances l3 = balances l2" "next_seq l2 \<le> next_seq l3" "next_uuid l2 \<le> next_uuid l3"
    "\<forall>x \<in> set xs'. jl_entry x \<in> e_id ` set es'" "\<forall>e \<in> set es'. next_uuid l2 \<le> e_id e"
    unfolding ledger_ext_def by blast
  have "entries l3 = entries l1 @ (es @ es')" "jlines l3 = jlines l1 @ (xs @ xs')" "accounts l3 = accounts l1 @ (as @ as')"
    "balances l3 = balances l1" "next_seq l1 \<le> next_seq l3" "next_uuid l1 \<le> next_uuid l3"
    using 1 2 by simp_all
  moreover have "\<forall>x \<in> set (xs @ xs'). jl_entry x \<in> e_id ` set (es @ es')"
    using 1(7) 2(7) by (auto simp: image_Un)
  moreover have "\<forall>e \<in> set (es @ es'). next_uuid l1 \<le> e_id e"
    using 1(6,8) 2(8) by (auto dest: order_trans)
  ultimately show ?thesis unfolding ledger_ext_def by blast
qed

lemma find_append_Some: "find P xs = Some y \<Longrightarrow> find P (xs @ ys) = Some y"
  by (induction xs) auto

lemma find_Some_in: "find P xs = Some y \<Longrightarrow> y \<in> set xs \<and> P y"
  by (induction xs) (auto split: if_splits)

lemma find_None_all: "find P xs = None \<longleftrightarrow> (\<forall>x \<in> set xs. \<not> P x)"
  by (induction xs) auto

lemma ledger_ext_line_wf:
  assumes "ledger_ext l l'" and "line_wf l x"
  shows "line_wf l' x"
  using assms by (auto simp: ledger_ext_def line_wf_def line_currency_def find_account_def find_append_Some
      split: option.splits intro: find_append_Some)

lemma ledger_ext_old_lines:
  assumes "ledger_ext l l'" and "e \<in> set (entries l)" and "ledger_wf l"
  shows "entry_lines l' (e_id e) = entry_lines l (e_id e)"
proof -
  have "e_id e < next_uuid l" using assms(2,3) by (simp add: ledger_wf_def)
  then show ?thesis using assms(1) by (fastforce simp: ledger_ext_def entry_lines_def filter_empty_conv)
qed

text \<open>The deferred check at COMMIT turns a well-formed extension of a balanced journal into a balanced one.\<close>

lemma foldE_unit_Inr: "foldE (\<lambda>i _. f i) xs () = Inr u \<longleftrightarrow> (\<forall>x \<in> set xs. f x = Inr ())"
  by (induction xs) auto

lemma commit_check_balances:
  assumes "ledger_ok l" and "ledger_ext l l'" and "ledger_wf l'" and "commit_check l l' = Inr ()"
  shows "ledger_ok l'"
proof -
  from assms(2) obtain es xs where l': "entries l' = entries l @ es" "jlines l' = jlines l @ xs"
    by (auto simp: ledger_ext_def)
  have "entry_balanced l' (e_id e)" if "e \<in> set (entries l')" for e
  proof (cases "e \<in> set (entries l)")
    case True
    then show ?thesis using assms(1) ledger_ext_old_lines [OF assms(2) True]
      by (simp add: ledger_ok_def entry_balanced_def)
  next
    case False
    then have "journal_entry_must_balance l' (e_id e) = Inr ()"
      using that assms(4) l' by (simp add: commit_check_def foldE_unit_Inr)
    then show ?thesis by (auto simp: journal_entry_must_balance_def entry_balanced_def Let_def split: if_splits)
  qed
  then show ?thesis using assms(3) by (simp add: ledger_ok_def)
qed

subsection \<open>Posting keeps the journal well-formed\<close>

definition lines_match :: "journal_line list \<Rightarrow> ledger_line list \<Rightarrow> bool" where
  "lines_match xs lns \<longleftrightarrow> map (\<lambda>x. (jl_account x, jl_dir x, jl_amount x, jl_currency x)) xs
     = map (\<lambda>ln. (AccountID ln, Direction ln, minor (Amount ln), cur (Amount ln))) lns"

lemma insert_line_Inr:
  assumes "insert_line je (i, ln) l = Inr l'"
  obtains a x where "find_account l (AccountID ln) = Some a" and "a_currency a = cur (Amount ln)"
    and "e_currency je = cur (Amount ln)" and "0 < minor (Amount ln)" and "money_minor (minor (Amount ln))"
    and "Direction ln = Debit \<or> Direction ln = Credit"
    and "x = \<lparr>jl_seq = next_seq l, jl_id = next_uuid l, jl_entry = e_id je, jl_no = i + 1,
                jl_account = AccountID ln, jl_dir = Direction ln, jl_amount = minor (Amount ln),
                jl_currency = cur (Amount ln), jl_memo = Memo ln\<rparr>"
    and "l' = l\<lparr>jlines := jlines l @ [x], next_seq := next_seq l + 1, next_uuid := next_uuid l + 1\<rparr>"
  using assms by (auto simp: insert_line_def split: option.splits if_splits)

lemma line_wf_mono:
  assumes "line_wf l x" and "accounts l' = accounts l" and "entries l' = entries l @ es" and "next_seq l \<le> next_seq l'"
  shows "line_wf l' x"
  using assms by (auto simp: line_wf_def line_currency_def find_account_def)

lemma balance_wf_append:
  assumes "balance_wf l b" and "jlines l' = jlines l @ xs" and "\<forall>x \<in> set xs. next_seq l \<le> jl_seq x" and "next_seq l \<le> next_seq l'"
  shows "balance_wf l' b"
proof -
  have "filter (\<lambda>x. jl_seq x \<le> b_through b) (filter (\<lambda>x. jl_account x = b_account b) xs) = []"
    using assms(1,3) by (force simp: balance_wf_def filter_empty_conv)
  then show ?thesis using assms by (simp add: balance_wf_def account_lines_def)
qed

lemma ledger_wf_grow:
  assumes wf: "ledger_wf l" and g: "entries l' = entries l @ es" "accounts l' = accounts l @ as" "jlines l' = jlines l @ xs"
    and b: "balances l' = balances l" and n: "next_seq l \<le> next_seq l'" "next_uuid l \<le> next_uuid l'"
    and es: "distinct (map e_key es)" "distinct (map e_id es)" "set (map e_key es) \<inter> set (map e_key (entries l)) = {}"
      "\<forall>e \<in> set es. next_uuid l \<le> e_id e \<and> e_id e < next_uuid l'"
    and as: "distinct (map a_id as)" "\<forall>a \<in> set as. next_uuid l \<le> a_id a \<and> a_id a < next_uuid l'"
    and lw: "\<forall>x \<in> set (jlines l). line_wf l' x" "\<forall>x \<in> set xs. line_wf l' x"
    and bw: "\<forall>b \<in> set (balances l). balance_wf l' b"
  shows "ledger_wf l'"
proof -
  have "e_id ` set es \<inter> e_id ` set (entries l) = {}" "a_id ` set as \<inter> a_id ` set (accounts l) = {}"
    using wf es(4) as(2) by (force simp: ledger_wf_def)+
  moreover have "\<forall>e \<in> set (entries l'). e_id e < next_uuid l'" "\<forall>a \<in> set (accounts l'). a_id a < next_uuid l'"
    using wf es(4) as(2) n(2) g by (fastforce simp: ledger_wf_def)+
  moreover have "0 < next_seq l'" "0 < next_uuid l'" using wf n by (simp_all add: ledger_wf_def)
  moreover have "\<forall>x \<in> set (jlines l'). line_wf l' x" using lw g by auto
  ultimately show ?thesis
    using wf es(1-3) as(1) bw g(1,2) b unfolding ledger_wf_def by (simp add: Int_commute)
qed

lemma insert_line_wf:
  assumes "ledger_wf l" and "je \<in> set (entries l)" and "insert_line je (i, ln) l = Inr l'"
  shows "ledger_wf l' \<and> entries l' = entries l \<and> accounts l' = accounts l \<and> balances l' = balances l
    \<and> next_seq l \<le> next_seq l' \<and> next_uuid l \<le> next_uuid l'
    \<and> (\<exists>x. jlines l' = jlines l @ [x] \<and> jl_entry x = e_id je \<and> next_seq l \<le> jl_seq x \<and> lines_match [x] [ln])"
proof -
  from assms(3) obtain a x where f: "find_account l (AccountID ln) = Some a" "a_currency a = cur (Amount ln)"
    "e_currency je = cur (Amount ln)" "0 < minor (Amount ln)" "Direction ln = Debit \<or> Direction ln = Credit"
    and x: "x = \<lparr>jl_seq = next_seq l, jl_id = next_uuid l, jl_entry = e_id je, jl_no = i + 1,
                jl_account = AccountID ln, jl_dir = Direction ln, jl_amount = minor (Amount ln),
                jl_currency = cur (Amount ln), jl_memo = Memo ln\<rparr>"
    and l': "l' = l\<lparr>jlines := jlines l @ [x], next_seq := next_seq l + 1, next_uuid := next_uuid l + 1\<rparr>"
    by (rule insert_line_Inr) blast
  have wx: "line_wf l' x"
    using assms(1,2) f x l' by (auto simp: line_wf_def line_currency_def find_account_def ledger_wf_def)
  have "\<forall>y \<in> set (jlines l). line_wf l' y"
    using assms(1) l' by (intro ballI line_wf_mono [of l _ l' "[]"]) (simp_all add: ledger_wf_def)
  moreover have "\<forall>b \<in> set (balances l). balance_wf l' b"
    using assms(1) l' x by (intro ballI balance_wf_append [of l _ l' "[x]"]) (simp_all add: ledger_wf_def)
  moreover have "jlines l' = jlines l @ [x]" "entries l' = entries l" "accounts l' = accounts l" "balances l' = balances l"
    "next_seq l' = Suc (next_seq l)" "next_uuid l' = Suc (next_uuid l)" using l' by simp_all
  ultimately have "ledger_wf l'"
    using wx assms(1) by (intro ledger_wf_grow [of l l' "[]" "[]" "[x]"]) simp_all
  then show ?thesis using l' x by (auto simp: lines_match_def)
qed

lemma insert_lines_wf:
  assumes "ledger_wf l" and "je \<in> set (entries l)" and "foldE (insert_line je) (enumerate n lns) l = Inr l'"
  shows "ledger_wf l' \<and> entries l' = entries l \<and> accounts l' = accounts l \<and> balances l' = balances l
    \<and> next_seq l \<le> next_seq l' \<and> next_uuid l \<le> next_uuid l'
    \<and> (\<exists>xs. jlines l' = jlines l @ xs \<and> (\<forall>x \<in> set xs. jl_entry x = e_id je \<and> next_seq l \<le> jl_seq x) \<and> lines_match xs lns)"
  using assms
proof (induction lns arbitrary: n l)
  case Nil
  then show ?case by (auto simp: lines_match_def)
next
  case (Cons ln lns)
  then obtain l1 where 1: "insert_line je (n, ln) l = Inr l1" "foldE (insert_line je) (enumerate (Suc n) lns) l1 = Inr l'"
    by auto
  note a = insert_line_wf [OF Cons.prems(1,2) 1(1)]
  then have "je \<in> set (entries l1)" using Cons.prems(2) by simp
  note b = Cons.IH [OF conjunct1 [OF a] this 1(2)]
  obtain x where x: "jlines l1 = jlines l @ [x]" "jl_entry x = e_id je" "next_seq l \<le> jl_seq x" "lines_match [x] [ln]"
    using a by blast
  obtain xs where xs: "jlines l' = jlines l1 @ xs" "\<forall>x \<in> set xs. jl_entry x = e_id je \<and> next_seq l1 \<le> jl_seq x" "lines_match xs lns"
    using b by blast
  have "jlines l' = jlines l @ (x # xs)" using x xs by simp
  moreover have "\<forall>y \<in> set (x # xs). jl_entry y = e_id je \<and> next_seq l \<le> jl_seq y"
    using a x xs by (auto dest: order_trans)
  moreover have "lines_match (x # xs) (ln # lns)" using x xs by (simp add: lines_match_def)
  ultimately show ?case using a b by (metis order_trans)
qed

lemma insert_entry_wf:
  assumes "ledger_wf l" and "e_id je = next_uuid l" and "insert_entry je (l\<lparr>next_uuid := next_uuid l + 1\<rparr>) = Inr l'"
  shows "ledger_wf l' \<and> l' = l\<lparr>entries := entries l @ [je], next_uuid := next_uuid l + 1\<rparr>"
proof -
  from assms(3) have l': "l' = l\<lparr>entries := entries l @ [je], next_uuid := next_uuid l + 1\<rparr>"
    and k: "e_key je \<notin> set (map e_key (entries l))"
    by (auto simp: insert_entry_def split: if_splits)
  have "\<forall>y \<in> set (jlines l). line_wf l' y"
    using assms(1) l' by (intro ballI line_wf_mono [of l _ l' "[je]"]) (simp_all add: ledger_wf_def)
  moreover have "\<forall>b \<in> set (balances l). balance_wf l' b"
    using assms(1) l' by (intro ballI balance_wf_append [of l _ l' "[]"]) (simp_all add: ledger_wf_def)
  moreover have "jlines l' = jlines l" "entries l' = entries l @ [je]" "accounts l' = accounts l" "balances l' = balances l"
    "next_seq l' = next_seq l" "next_uuid l' = Suc (next_uuid l)" using l' by simp_all
  ultimately have "ledger_wf l'"
    using assms(1,2) k by (intro ledger_wf_grow [of l l' "[je]" "[]" "[]"]) simp_all
  then show ?thesis using l' by simp
qed

text \<open>What a successful \<open>Post\<close> did: it found the key, or it appended one entry and its lines.\<close>

lemma Post_fresh:
  assumes "ledger_wf l" and "Post now e l = Inr (p, l')" and "find_entry l (IdempotencyKey e) = None"
  shows "ledger_wf l' \<and> accounts l' = accounts l \<and> balances l' = balances l
    \<and> next_seq l \<le> next_seq l' \<and> next_uuid l < next_uuid l' \<and> Validate e = Inr () \<and> \<not> Replayed p
    \<and> (\<exists>je xs. entries l' = entries l @ [je] \<and> jlines l' = jlines l @ xs \<and> e_id je = next_uuid l \<and> EntryID p = next_uuid l
         \<and> PublicID p = e_public je \<and> e_key je = IdempotencyKey e \<and> e_currency je = en_Currency e \<and> e_kind je = Kind e
         \<and> (\<forall>x \<in> set xs. jl_entry x = e_id je \<and> next_seq l \<le> jl_seq x) \<and> lines_match xs (Lines e))"
proof -
  define je where "je = \<lparr>e_id = next_uuid l, e_public = pub_id ''jrn'' (next_uuid l), e_kind = Kind e, e_currency = en_Currency e,
                   e_occurred = (case OccurredAt e of None \<Rightarrow> now | Some t \<Rightarrow> t), e_description = Description e, e_ref_type = ReferenceType e,
                   e_ref_id = ReferenceID e, e_reverses = ReversesEntryID e, e_key = IdempotencyKey e,
                   e_meta = Metadata e\<rparr>"
  from assms(2,3) obtain l1 where v: "Validate e = Inr ()"
    and 1: "insert_entry je (l\<lparr>next_uuid := next_uuid l + 1\<rparr>) = Inr l1"
    and 2: "foldE (insert_line je) (enumerate 0 (Lines e)) l1 = Inr l'"
    and p: "p = \<lparr>EntryID = next_uuid l, PublicID = e_public je, Replayed = False\<rparr>"
    by (auto simp: Post_def Let_def je_def)
  have id: "e_id je = next_uuid l" by (simp add: je_def)
  note i = insert_entry_wf [OF assms(1) id 1]
  then have l1: "entries l1 = entries l @ [je]" "jlines l1 = jlines l" "accounts l1 = accounts l" "balances l1 = balances l"
    "next_seq l1 = next_seq l" "next_uuid l1 = Suc (next_uuid l)" by simp_all
  then have "je \<in> set (entries l1)" by simp
  note j = insert_lines_wf [OF conjunct1 [OF i] this 2]
  then obtain xs where xs: "jlines l' = jlines l1 @ xs" "\<forall>x \<in> set xs. jl_entry x = e_id je \<and> next_seq l1 \<le> jl_seq x"
    "lines_match xs (Lines e)" by blast
  have f: "e_key je = IdempotencyKey e" "e_currency je = en_Currency e" "e_kind je = Kind e" by (simp_all add: je_def)
  have "entries l' = entries l @ [je]" "jlines l' = jlines l @ xs" "\<forall>x \<in> set xs. jl_entry x = e_id je \<and> next_seq l \<le> jl_seq x"
    using j l1 xs by simp_all
  then have "\<exists>je xs. entries l' = entries l @ [je] \<and> jlines l' = jlines l @ xs \<and> e_id je = next_uuid l \<and> EntryID p = next_uuid l
         \<and> PublicID p = e_public je \<and> e_key je = IdempotencyKey e \<and> e_currency je = en_Currency e \<and> e_kind je = Kind e
         \<and> (\<forall>x \<in> set xs. jl_entry x = e_id je \<and> next_seq l \<le> jl_seq x) \<and> lines_match xs (Lines e)"
    using p id f xs(3) by (intro exI [of _ je] exI [of _ xs]) simp
  then show ?thesis using j l1 v p by simp
qed

lemma Post_replay:
  assumes "find_entry l (IdempotencyKey e) = Some x" and "Validate e = Inr ()"
  shows "Post now e l = Inr (\<lparr>EntryID = e_id x, PublicID = e_public x, Replayed = True\<rparr>, l)"
  using assms by (simp add: Post_def)

lemma Post_wf:
  assumes "ledger_wf l" and "Post now e l = Inr (p, l')"
  shows "ledger_wf l' \<and> ledger_ext l l'"
proof (cases "find_entry l (IdempotencyKey e)")
  case None
  note f = Post_fresh [OF assms None]
  then obtain je xs where "entries l' = entries l @ [je]" "jlines l' = jlines l @ xs" "e_id je = next_uuid l"
    "\<forall>x \<in> set xs. jl_entry x = e_id je" by blast
  moreover have "accounts l' = accounts l @ []" using f by simp
  ultimately have "entries l' = entries l @ [je] \<and> jlines l' = jlines l @ xs \<and> accounts l' = accounts l @ [] \<and> balances l' = balances l
     \<and> next_seq l \<le> next_seq l' \<and> next_uuid l \<le> next_uuid l'
     \<and> (\<forall>x \<in> set xs. jl_entry x \<in> e_id ` set [je]) \<and> (\<forall>e \<in> set [je]. next_uuid l \<le> e_id e)"
    using f by simp
  then show ?thesis using f unfolding ledger_ext_def by blast
next
  case (Some x)
  then show ?thesis using assms by (auto simp: Post_def)
qed

text \<open>The key of a posted entry stays findable, with its identifiers.\<close>

lemma find_entry_eq:
  assumes "ledger_wf l" and "je \<in> set (entries l)"
  shows "find_entry l (e_key je) = Some je"
proof -
  have d: "distinct (map e_key (entries l))" using assms(1) by (simp add: ledger_wf_def)
  obtain y where y: "find_entry l (e_key je) = Some y" using assms(2) find_None_all [of "\<lambda>e. e_key e = e_key je" "entries l"]
    by (cases "find_entry l (e_key je)") (auto simp: find_entry_def)
  then have "y \<in> set (entries l)" "e_key y = e_key je" using find_Some_in unfolding find_entry_def by fastforce+
  then have "y = je" using d assms(2) by (metis distinct_map inj_onD)
  then show ?thesis using y by simp
qed

lemma Post_found:
  assumes "ledger_wf l" and "Post now e l = Inr (p, l')"
  obtains je where "find_entry l' (IdempotencyKey e) = Some je" and "e_id je = EntryID p" and "e_public je = PublicID p"
proof (cases "find_entry l (IdempotencyKey e)")
  case None
  note f = Post_fresh [OF assms None]
  then obtain je where je: "entries l' = entries l @ [je]" "e_id je = next_uuid l" "EntryID p = next_uuid l"
    "PublicID p = e_public je" "e_key je = IdempotencyKey e" by blast
  have "find_entry l' (e_key je) = Some je" using f je(1) by (intro find_entry_eq) simp_all
  then show ?thesis using je that by simp
next
  case (Some x)
  then show ?thesis using assms that by (auto simp: Post_def)
qed

lemma find_entry_ext: "ledger_ext l l' \<Longrightarrow> find_entry l k = Some x \<Longrightarrow> find_entry l' k = Some x"
  by (auto simp: ledger_ext_def find_entry_def find_append_Some)

lemma Post_again:
  assumes "ledger_wf l" and "Post now e l = Inr (p, l1)" and "ledger_ext l1 l2"
    and "Validate e' = Inr ()" and "IdempotencyKey e' = IdempotencyKey e"
  shows "Post now' e' l2 = Inr (p\<lparr>Replayed := True\<rparr>, l2)"
proof -
  obtain je where "find_entry l1 (IdempotencyKey e) = Some je" "e_id je = EntryID p" "e_public je = PublicID p"
    using Post_found [OF assms(1,2)] by blast
  then show ?thesis using find_entry_ext [OF assms(3)] assms(4,5) Post_replay [of l2 e' je now'] by simp
qed

text \<open>\<open>Validate\<close> accepts exactly the balanced entries whose sums do not wrap.\<close>

lemma validate_fold:
  assumes "foldE (validate_line cu) (enumerate n lns) (d, c) = Inr (d', c')"
  shows "(\<forall>ln \<in> set lns. cur (Amount ln) = cu \<and> 0 < minor (Amount ln) \<and> AccountID ln \<noteq> 0 \<and> (Direction ln = Debit \<or> Direction ln = Credit))
    \<and> wrap64 d' = wrap64 (d + sum_list (map (\<lambda>ln. minor (Amount ln)) (filter (\<lambda>ln. Direction ln = Debit) lns)))
    \<and> wrap64 c' = wrap64 (c + sum_list (map (\<lambda>ln. minor (Amount ln)) (filter (\<lambda>ln. Direction ln = Credit) lns)))"
  using assms
proof (induction lns arbitrary: n d c)
  case (Cons ln lns)
  then show ?case
    by (auto simp: validate_line_def IsPositive_def add.assoc split: if_splits direction.splits)
qed simp

lemma Validate_Inr:
  assumes "Validate e = Inr ()"
  shows "2 \<le> length (Lines e)"
    and "\<forall>ln \<in> set (Lines e). cur (Amount ln) = en_Currency e \<and> 0 < minor (Amount ln) \<and> AccountID ln \<noteq> 0"
    and "wrap64 (sum_list (map (\<lambda>ln. minor (Amount ln)) (filter (\<lambda>ln. Direction ln = Debit) (Lines e))))
      = wrap64 (sum_list (map (\<lambda>ln. minor (Amount ln)) (filter (\<lambda>ln. Direction ln = Credit) (Lines e))))"
proof -
  from assms show "2 \<le> length (Lines e)" by (auto simp: Validate_def split: if_splits)
  from assms obtain d where "foldE (validate_line (en_Currency e)) (enumerate 0 (Lines e)) (0, 0) = Inr (d, d)"
    by (auto simp: Validate_def split: if_splits prod.splits)
  from validate_fold [OF this] show "\<forall>ln \<in> set (Lines e). cur (Amount ln) = en_Currency e \<and> 0 < minor (Amount ln) \<and> AccountID ln \<noteq> 0"
    and "wrap64 (sum_list (map (\<lambda>ln. minor (Amount ln)) (filter (\<lambda>ln. Direction ln = Debit) (Lines e))))
      = wrap64 (sum_list (map (\<lambda>ln. minor (Amount ln)) (filter (\<lambda>ln. Direction ln = Credit) (Lines e))))"
    by simp_all
qed

lemma lines_match_sums:
  "lines_match xs lns \<Longrightarrow> dir_sum d xs = sum_list (map (\<lambda>ln. minor (Amount ln)) (filter (\<lambda>ln. Direction ln = d) lns))"
proof (induction xs arbitrary: lns)
  case (Cons x xs)
  then obtain ln lns' where "lns = ln # lns'" by (cases lns) (auto simp: lines_match_def)
  then show ?case using Cons by (auto simp: lines_match_def dir_sum_Cons)
qed (simp add: lines_match_def)

lemma dir_sum_bounds:
  assumes "\<forall>x \<in> set xs. 0 \<le> jl_amount x \<and> jl_amount x \<le> 9000000000000000"
  shows "0 \<le> dir_sum d xs \<and> dir_sum d xs \<le> int (length xs) * 9000000000000000"
  using assms by (induction xs) (auto simp: dir_sum_Cons algebra_simps)

lemma insert_lines_money:
  assumes "foldE (insert_line je) (enumerate n lns) l = Inr l'"
  shows "\<forall>ln \<in> set lns. money_minor (minor (Amount ln))"
  using assms
proof (induction lns arbitrary: n l)
  case (Cons ln lns)
  then show ?case by (auto elim!: insert_line_Inr)
qed simp

lemma Post_money:
  assumes "Post now e l = Inr (p, l')" and "find_entry l (IdempotencyKey e) = None"
  shows "\<forall>ln \<in> set (Lines e). money_minor (minor (Amount ln))"
  using assms insert_lines_money by (auto simp: Post_def Let_def)

text \<open>Up to 1024 lines the database's check never contradicts \<open>Validate\<close>.\<close>

lemma Post_commits:
  assumes "ledger_ok l" and "Post now e l = Inr (p, l')" and "length (Lines e) \<le> 1024"
  shows "commit_check l l' = Inr ()"
proof (cases "find_entry l (IdempotencyKey e)")
  case None
  have wf: "ledger_wf l" using assms(1) by (simp add: ledger_ok_def)
  note f = Post_fresh [OF wf assms(2) None]
  then obtain je xs where je: "entries l' = entries l @ [je]" "jlines l' = jlines l @ xs" "e_id je = next_uuid l"
    "\<forall>x \<in> set xs. jl_entry x = e_id je" "lines_match xs (Lines e)" by blast
  have none: "filter (\<lambda>x. jl_entry x = e_id je) (jlines l) = []"
    using wf je(3) by (force simp: ledger_wf_def line_wf_def filter_empty_conv)
  then have el: "entry_lines l' (e_id je) = xs" using je by (simp add: entry_lines_def)
  have len: "length xs = length (Lines e)" using arg_cong [OF je(5) [unfolded lines_match_def], of length] by simp
  have m: "map jl_amount xs = map (\<lambda>ln. minor (Amount ln)) (Lines e)"
  proof -
    have "map (\<lambda>(a, d, m, c). m) (map (\<lambda>x. (jl_account x, jl_dir x, jl_amount x, jl_currency x)) xs)
      = map (\<lambda>(a, d, m, c). m) (map (\<lambda>ln. (AccountID ln, Direction ln, minor (Amount ln), cur (Amount ln))) (Lines e))"
      using je(5) by (simp only: lines_match_def)
    then show ?thesis by (simp add: comp_def)
  qed
  have "\<forall>v \<in> set (map jl_amount xs). 0 \<le> v \<and> v \<le> 9000000000000000"
    unfolding m using Validate_Inr(2) [of e] f Post_money [OF assms(2) None] by (auto simp: money_minor_def)
  then have "\<forall>x \<in> set xs. 0 \<le> jl_amount x \<and> jl_amount x \<le> 9000000000000000" by simp
  note b = dir_sum_bounds [OF this]
  have "int (length xs) * 9000000000000000 \<le> 9216000000000000000" using len assms(3) by simp
  then have i: "in_i64 (dir_sum d xs)" for d using b [of d] by (simp add: in_i64_def)
  have "dir_sum Debit xs = dir_sum Credit xs"
    using Validate_Inr(3) [of e] f lines_match_sums [OF je(5)] i by (simp add: wrap64_id)
  then have "journal_entry_must_balance l' (e_id je) = Inr ()"
    using i el len Validate_Inr(1) [of e] f by (auto simp: journal_entry_must_balance_def Let_def)
  then show ?thesis using je(1,2,4) by (auto simp: commit_check_def foldE_unit_Inr)
next
  case (Some x)
  then show ?thesis using assms by (auto simp: Post_def commit_check_def)
qed

lemma Post_ok:
  assumes "ledger_ok l" and "Post now e l = Inr (p, l')" and "length (Lines e) \<le> 1024"
  shows "ledger_ok l'"
proof -
  have "ledger_wf l" using assms(1) by (simp add: ledger_ok_def)
  then show ?thesis using Post_wf [OF _ assms(2)] commit_check_balances [OF assms(1) _ _ Post_commits [OF assms]] by blast
qed

lemma SellerAccount_wf:
  assumes "ledger_wf l" and "SellerAccount s p c l = Inr (i, l')"
  shows "ledger_wf l' \<and> ledger_ext l l'"
proof (cases "find (\<lambda>a. a_code a = SellerCode s p c) (accounts l)")
  case None
  define a where "a = \<lparr>a_id = next_uuid l, a_code = SellerCode s p c, a_kind = Liability, a_currency = c, is_control = False, closed = False\<rparr>"
  from None assms(2) have l': "l' = l\<lparr>accounts := accounts l @ [a], next_uuid := next_uuid l + 1\<rparr>"
    by (auto simp: SellerAccount_def a_def Let_def split: if_splits)
  have lw: "line_wf l' x" if "x \<in> set (jlines l)" for x
    using assms(1) that l' by (auto simp: ledger_wf_def line_wf_def line_currency_def find_account_def find_append_Some)
  have bw: "\<forall>b \<in> set (balances l). balance_wf l' b"
    using assms(1) l' by (intro ballI balance_wf_append [of l _ l' "[]"]) (simp_all add: ledger_wf_def)
  have g: "entries l' = entries l @ []" "accounts l' = accounts l @ [a]" "jlines l' = jlines l @ []" "balances l' = balances l"
    "next_seq l' = next_seq l" "next_uuid l' = Suc (next_uuid l)" "a_id a = next_uuid l" using l' by (simp_all add: a_def)
  have "ledger_wf l'"
    using lw bw g assms(1) by (intro ledger_wf_grow [of l l' "[]" "[a]" "[]"]) simp_all
  moreover have "ledger_ext l l'" using g unfolding ledger_ext_def by fastforce
  ultimately show ?thesis by simp
next
  case (Some a)
  then show ?thesis using assms by (auto simp: SellerAccount_def Let_def split: if_splits)
qed

subsection \<open>The trial balance\<close>

lemma dir_sum_filter_Cons:
  "dir_sum d (filter P (x # xs)) = (if P x \<and> jl_dir x = d then jl_amount x else 0) + dir_sum d (filter P xs)"
  by (simp add: dir_sum_Cons)

lemma sum_list_delta: "distinct ks \<Longrightarrow> k \<in> set ks \<Longrightarrow> sum_list (map (\<lambda>j. if k = j then v else (0::int)) ks) = v"
  by (simp add: sum_list_distinct_conv_sum_set sum.delta)

lemma dir_sum_partition:
  assumes "distinct ks" and "\<forall>x \<in> set xs. jl_entry x \<in> set ks"
  shows "dir_sum d xs = sum_list (map (\<lambda>k. dir_sum d (filter (\<lambda>x. jl_entry x = k) xs)) ks)"
  using assms(2)
proof (induction xs)
  case (Cons x xs)
  let ?v = "if jl_dir x = d then jl_amount x else 0"
  have "sum_list (map (\<lambda>k. dir_sum d (filter (\<lambda>x. jl_entry x = k) (x # xs))) ks)
    = sum_list (map (\<lambda>k. (if jl_entry x = k then ?v else 0) + dir_sum d (filter (\<lambda>x. jl_entry x = k) xs)) ks)"
    by (intro arg_cong [of _ _ sum_list] map_cong refl) (simp add: dir_sum_Cons)
  also have "\<dots> = ?v + dir_sum d xs"
    using Cons assms(1) by (simp add: sum_list_addf sum_list_delta)
  finally show ?case by (simp add: dir_sum_Cons)
qed (simp add: sum_list_0)

definition currency_lines :: "ledger \<Rightarrow> string \<Rightarrow> journal_line list" where
  "currency_lines l c = filter (\<lambda>x. line_currency l x = Some c) (jlines l)"

lemma currency_lines_balance:
  assumes "ledger_ok l"
  shows "dir_sum Debit (currency_lines l c) = dir_sum Credit (currency_lines l c)"
proof -
  let ?ks = "map e_id (entries l)"
  have wf: "ledger_wf l" and bal: "\<forall>e \<in> set (entries l). entry_balanced l (e_id e)"
    using assms by (simp_all add: ledger_ok_def)
  have lw: "\<forall>x \<in> set (jlines l). line_wf l x" and d: "distinct ?ks" using wf by (simp_all add: ledger_wf_def)
  have ks: "\<forall>x \<in> set (currency_lines l c). jl_entry x \<in> set ?ks"
    using lw by (force simp: currency_lines_def line_wf_def)
  have part: "filter (\<lambda>x. jl_entry x = e_id e) (currency_lines l c) = (if e_currency e = c then entry_lines l (e_id e) else [])"
    if "e \<in> set (entries l)" for e
  proof -
    have cur_e: "line_currency l x = Some (e_currency e)" if x: "x \<in> set (jlines l)" "jl_entry x = e_id e" for x
    proof -
      obtain f where f: "f \<in> set (entries l)" "e_id f = jl_entry x" "e_currency f = jl_currency x" "line_currency l x = Some (jl_currency x)"
        using lw x(1) unfolding line_wf_def by blast
      then have "f = e" using d x(2) \<open>e \<in> set (entries l)\<close> by (metis distinct_map inj_onD)
      then show ?thesis using f by simp
    qed
    have "filter (\<lambda>x. line_currency l x = Some c \<and> jl_entry x = e_id e) (jlines l)
      = filter (\<lambda>x. e_currency e = c \<and> jl_entry x = e_id e) (jlines l)"
      using cur_e by (intro filter_cong refl) auto
    then show ?thesis by (simp add: currency_lines_def entry_lines_def)
  qed
  have "dir_sum Debit (filter (\<lambda>x. jl_entry x = k) (currency_lines l c)) = dir_sum Credit (filter (\<lambda>x. jl_entry x = k) (currency_lines l c))"
    if "k \<in> set ?ks" for k
    using that part bal by (auto simp: entry_balanced_def)
  then have "map (\<lambda>k. dir_sum Debit (filter (\<lambda>x. jl_entry x = k) (currency_lines l c))) ?ks
    = map (\<lambda>k. dir_sum Credit (filter (\<lambda>x. jl_entry x = k) (currency_lines l c))) ?ks"
    by (intro map_cong refl)
  then show ?thesis
    unfolding dir_sum_partition [OF d ks, of Debit] dir_sum_partition [OF d ks, of Credit] by (rule arg_cong)
qed

lemma trial_row_balanced:
  assumes "ledger_ok l" and "trial_row_for l c = Inr r"
  shows "Difference r = 0"
  using assms currency_lines_balance [OF assms(1), of c]
  by (auto simp: trial_row_for_def currency_lines_def Let_def split: if_splits)

lemma foldE_unit_Inl: "foldE (\<lambda>i _. f i) xs () = Inl e \<Longrightarrow> \<exists>x \<in> set xs. f x = Inl e"
  by (induction xs) (auto simp: bindE_eq_Inl)

lemma mapE_Inl: "mapE f xs = Inl e \<Longrightarrow> \<exists>x \<in> set xs. f x = Inl e"
  by (induction xs) (auto simp: bindE_eq_Inl)

lemma mapE_Inr_all: "mapE f xs = Inr ys \<Longrightarrow> \<forall>y \<in> set ys. \<exists>x \<in> set xs. f x = Inr y"
  by (induction xs arbitrary: ys) fastforce+

lemma trial_balance_holds:
  assumes "ledger_ok l"
  shows "AssertBalanced l = Inr () \<or> (AssertBalanced l = Inl (SqlError ''bigint out of range'')
    \<and> (\<exists>c. \<not> in_i64 (dir_sum Debit (currency_lines l c))))"
proof (cases "TrialBalance l")
  case (Inr rows)
  then have "\<forall>r \<in> set rows. Difference r = 0"
    using mapE_Inr_all trial_row_balanced [OF assms] by (fastforce simp: TrialBalance_def)
  then show ?thesis using Inr by (simp add: AssertBalanced_def foldE_unit_Inr)
next
  case (Inl e)
  then obtain c where "trial_row_for l c = Inl e" using mapE_Inl by (fastforce simp: TrialBalance_def)
  then have "e = SqlError ''bigint out of range''" "\<not> in_i64 (dir_sum Debit (currency_lines l c))"
    using currency_lines_balance [OF assms, of c]
    by (auto simp: trial_row_for_def currency_lines_def Let_def in_i64_def split: if_splits)
  then show ?thesis using Inl by (auto simp: AssertBalanced_def)
qed

subsection \<open>Balances and their rollup\<close>

text \<open>The balance read from the lines alone.\<close>

definition Balance_reference :: "ledger \<Rightarrow> nat \<Rightarrow> ledger_error + int" where
  "Balance_reference l i = (case find_account l i of
     None \<Rightarrow> Inl (SqlError ''ledger account does not exist'')
   | Some a \<Rightarrow>
     let dr = dir_sum Debit (account_lines l i); cr = dir_sum Credit (account_lines l i)
     in if in_i64 dr \<and> in_i64 cr then Inr (if normal_balance (a_kind a) = Debit then dr - cr else cr - dr)
        else Inl (SqlError ''bigint out of range''))"

lemma dir_sum_split:
  "a \<le> c \<Longrightarrow> dir_sum d (filter (\<lambda>x. jl_seq x \<le> c) xs)
    = dir_sum d (filter (\<lambda>x. jl_seq x \<le> a) xs) + dir_sum d (filter (\<lambda>x. a < jl_seq x \<and> jl_seq x \<le> c) xs)"
  by (induction xs) (auto simp: dir_sum_Cons)

lemma dir_sum_tail:
  "dir_sum d (filter (\<lambda>x. jl_seq x \<le> w) xs) + dir_sum d (filter (\<lambda>x. w < jl_seq x) xs) = dir_sum d xs"
  by (induction xs) (auto simp: dir_sum_Cons)

lemma dir_sum_nonneg: "\<forall>x \<in> set xs. 0 \<le> jl_amount x \<Longrightarrow> 0 \<le> dir_sum d xs"
  by (induction xs) (auto simp: dir_sum_Cons)

lemma Balance_eq_reference:
  assumes "ledger_wf l"
  shows "Balance l i = Balance_reference l i"
proof (cases "find_account l i")
  case (Some a)
  define w where "w = through_of l i"
  let ?xs = "account_lines l i"
  have pos: "\<forall>x \<in> set ?xs. 0 \<le> jl_amount x" "\<forall>x \<in> set (jlines l). 0 < jl_seq x"
    using assms by (auto simp: ledger_wf_def line_wf_def account_lines_def intro: less_imp_le)
  have nn: "0 \<le> dir_sum d (filter P ?xs)" for d P
    using pos(1) by (intro dir_sum_nonneg) auto
  have tail: "filter (\<lambda>x. jl_account x = i \<and> jl_seq x > w) (jlines l) = filter (\<lambda>x. w < jl_seq x) ?xs"
    by (simp add: account_lines_def conj_commute)
  have r: "(case find_balance l i of None \<Rightarrow> (0, 0, 0) | Some b \<Rightarrow> (b_debit b, b_credit b, b_through b))
    = (dir_sum Debit (filter (\<lambda>x. jl_seq x \<le> w) ?xs), dir_sum Credit (filter (\<lambda>x. jl_seq x \<le> w) ?xs), w)"
  proof (cases "find_balance l i")
    case None
    then have "filter (\<lambda>x. jl_seq x \<le> w) ?xs = []"
      using pos(2) by (auto simp: w_def through_of_def filter_empty_conv account_lines_def)
    then show ?thesis using None by (simp add: w_def through_of_def)
  next
    case (Some b)
    then have "b \<in> set (balances l)" "b_account b = i" using find_Some_in unfolding find_balance_def by fastforce+
    then show ?thesis using assms Some by (auto simp: ledger_wf_def balance_wf_def w_def through_of_def)
  qed
  show ?thesis
    unfolding Balance_def Balance_reference_def Some option.case r prod.case Let_def tail dir_sum_tail
    using nn [of Debit "\<lambda>x. jl_seq x \<le> w"] nn [of Credit "\<lambda>x. jl_seq x \<le> w"]
      nn [of Debit "\<lambda>x. w < jl_seq x"] nn [of Credit "\<lambda>x. w < jl_seq x"]
      dir_sum_tail [of Debit w ?xs] dir_sum_tail [of Credit w ?xs]
    by (auto simp: in_i64_def)
qed (simp add: Balance_def Balance_reference_def)

lemma foldl_max_less: "m < n \<Longrightarrow> \<forall>x \<in> set xs. x < n \<Longrightarrow> foldl max m xs < n" for m n :: nat
  by (induction xs arbitrary: m) auto

lemma upsert_other:
  "j \<noteq> i \<Longrightarrow> filter (\<lambda>b. b_account b = j) (upsert_balance l c i bs) = filter (\<lambda>b. b_account b = j) bs"
proof -
  assume j: "j \<noteq> i"
  have m: "filter (\<lambda>b. b_account b = j) (map (\<lambda>b. if b_account b = i then f b else b) bs) = filter (\<lambda>b. b_account b = j) bs"
    if "\<And>b. b_account (f b) = b_account b" for f :: "balance_row \<Rightarrow> balance_row"
    using j that by (induction bs) auto
  show ?thesis using j m [of "\<lambda>b. b\<lparr>b_debit := x b, b_credit := y b, b_through := c\<rparr>" for x y]
    by (simp add: upsert_balance_def Let_def)
qed

lemma upsert_wf:
  assumes wf: "distinct (map b_account (balances l))" "\<forall>b \<in> set (balances l). balance_wf l b"
    and bs: "distinct (map b_account bs)" "\<forall>b \<in> set bs. balance_wf l b"
    and i: "filter (\<lambda>b. b_account b = i) bs = filter (\<lambda>b. b_account b = i) (balances l)"
    and c: "through_of l i \<le> c" "c < next_seq l" and pos: "\<forall>x \<in> set (jlines l). 0 < jl_seq x"
  shows "distinct (map b_account (upsert_balance l c i bs)) \<and> (\<forall>b \<in> set (upsert_balance l c i bs). balance_wf l b)"
proof -
  let ?xs = "account_lines l i"
  have eq: "filter (\<lambda>x. jl_account x = i \<and> jl_seq x > t \<and> jl_seq x \<le> c) (jlines l) = filter (\<lambda>x. t < jl_seq x \<and> jl_seq x \<le> c) ?xs" for t
    by (simp add: account_lines_def conj_ac)
  have thr: "b \<in> set (balances l)" "through_of l i = b_through b" if "b \<in> set bs" "b_account b = i" for b
  proof -
    have "b \<in> set (filter (\<lambda>b. b_account b = i) bs)" using that by simp
    then show b: "b \<in> set (balances l)" using i by simp
    have bi: "b_account b = i" using that by simp
    obtain b' where b': "find_balance l i = Some b'"
      using b bi find_None_all [of "\<lambda>b. b_account b = i" "balances l"] by (cases "find_balance l i") (auto simp: find_balance_def)
    then have "b' \<in> set (balances l)" "b_account b' = i" using find_Some_in unfolding find_balance_def by fastforce+
    then have "b' = b" using b bi wf(1) by (metis distinct_map inj_onD)
    then show "through_of l i = b_through b" using b' by (simp add: through_of_def)
  qed
  show ?thesis
  proof (cases "\<exists>b \<in> set bs. b_account b = i")
    case True
    define g :: "balance_row \<Rightarrow> balance_row" where "g = (\<lambda>b. if b_account b = i then b\<lparr>b_debit := b_debit b + dir_sum Debit (filter (\<lambda>x. through_of l i < jl_seq x \<and> jl_seq x \<le> c) ?xs),
        b_credit := b_credit b + dir_sum Credit (filter (\<lambda>x. through_of l i < jl_seq x \<and> jl_seq x \<le> c) ?xs), b_through := c\<rparr> else b)"
    have u: "upsert_balance l c i bs = map g bs"
      using True by (simp add: upsert_balance_def Let_def eq g_def)
    have acc: "map b_account (map g bs) = map b_account bs" by (simp add: g_def)
    have "balance_wf l (g b)" if b: "b \<in> set bs" for b
    proof (cases "b_account b = i")
      case True
      then have "balance_wf l b" "through_of l i = b_through b" using thr b bs(2) by auto
      then show ?thesis using True c dir_sum_split [of "b_through b" c _ ?xs] by (simp add: g_def balance_wf_def)
    next
      case False
      then show ?thesis using bs(2) b by (simp add: g_def)
    qed
    then show ?thesis unfolding u acc using bs(1) by (auto simp only: set_map)
  next
    case False
    then have "filter (\<lambda>b. b_account b = i) (balances l) = []" using i by (simp add: filter_empty_conv)
    then have t: "through_of l i = 0" using find_None_all [of "\<lambda>b. b_account b = i" "balances l"]
      by (simp add: through_of_def find_balance_def filter_empty_conv)
    have f: "filter (\<lambda>x. 0 < jl_seq x \<and> jl_seq x \<le> c) ?xs = filter (\<lambda>x. jl_seq x \<le> c) ?xs"
      using pos by (intro filter_cong refl) (auto simp: account_lines_def)
    show ?thesis using False bs c unfolding upsert_balance_def eq t f by (auto simp: Let_def balance_wf_def)
  qed
qed

lemma upserts_wf:
  assumes "distinct (map b_account (balances l))" "\<forall>b \<in> set (balances l). balance_wf l b"
    and "distinct (map b_account bs)" "\<forall>b \<in> set bs. balance_wf l b" and "distinct is"
    and "\<forall>i \<in> set is. filter (\<lambda>b. b_account b = i) bs = filter (\<lambda>b. b_account b = i) (balances l)"
    and "\<forall>i \<in> set is. through_of l i \<le> c" "c < next_seq l" and "\<forall>x \<in> set (jlines l). 0 < jl_seq x"
  shows "distinct (map b_account (fold (upsert_balance l c) is bs)) \<and> (\<forall>b \<in> set (fold (upsert_balance l c) is bs). balance_wf l b)"
  using assms(3-7)
proof (induction "is" arbitrary: bs)
  case (Cons i "is")
  have "distinct (map b_account (upsert_balance l c i bs)) \<and> (\<forall>b \<in> set (upsert_balance l c i bs). balance_wf l b)"
    using Cons.prems assms by (intro upsert_wf) simp_all
  moreover have "filter (\<lambda>b. b_account b = j) (upsert_balance l c i bs) = filter (\<lambda>b. b_account b = j) (balances l)"
    if "j \<in> set is" for j
    using that Cons.prems upsert_other [of j i l c bs] by auto
  ultimately show ?case using Cons.IH [of "upsert_balance l c i bs"] Cons.prems by simp
qed simp

lemma Rollup_wf:
  assumes "ledger_wf l" and "Rollup l = Inr (n, l')"
  shows "ledger_wf l' \<and> entries l' = entries l \<and> jlines l' = jlines l \<and> accounts l' = accounts l"
proof -
  define c where "c = foldl max 0 (map jl_seq (jlines l))"
  have l': "l' = l\<lparr>balances := fold (upsert_balance l c) (touched l c) (balances l)\<rparr>"
    using assms(2) by (auto simp: Rollup_def c_def Let_def split: if_splits)
  have lw: "\<forall>x \<in> set (jlines l). line_wf l x" and pos: "\<forall>x \<in> set (jlines l). 0 < jl_seq x"
    using assms(1) by (auto simp: ledger_wf_def line_wf_def)
  have "c < next_seq l" using assms(1) unfolding c_def by (intro foldl_max_less) (auto simp: ledger_wf_def line_wf_def)
  moreover have "\<forall>i \<in> set (touched l c). through_of l i \<le> c" by (auto simp: touched_def)
  moreover have "distinct (touched l c)" by (simp add: touched_def)
  ultimately have "distinct (map b_account (balances l')) \<and> (\<forall>b \<in> set (balances l'). balance_wf l b)"
    using assms(1) pos unfolding l' ledger_wf_def by (simp, intro upserts_wf) simp_all
  moreover have "balance_wf l' b \<longleftrightarrow> balance_wf l b" for b using l' by (simp add: balance_wf_def account_lines_def)
  moreover have "line_wf l' x \<longleftrightarrow> line_wf l x" for x using l' by (simp add: line_wf_def line_currency_def find_account_def)
  ultimately show ?thesis using assms(1) l' by (simp add: ledger_wf_def)
qed

lemma Rollup_balance:
  assumes "ledger_wf l" and "Rollup l = Inr (n, l')"
  shows "Balance l' i = Balance l i"
proof -
  note r = Rollup_wf [OF assms]
  then have "Balance_reference l' i = Balance_reference l i"
    by (simp add: Balance_reference_def find_account_def account_lines_def cong: option.case_cong)
  then show ?thesis using Balance_eq_reference assms(1) r by simp
qed

lemma Rollup_ok: "ledger_ok l \<Longrightarrow> Rollup l = Inr (n, l') \<Longrightarrow> ledger_ok l'"
  using Rollup_wf [of l n l'] by (simp add: ledger_ok_def entry_balanced_def entry_lines_def)

subsection \<open>Reachable ledgers\<close>

text \<open>
  A unit of work posts entries and opens seller accounts, and commits when the deferred check
  passes; between units of work the worker rolls balances up. The first ledger is a chart of
  accounts without postings.
\<close>

datatype ledger_op = PostOp int entry | OpenOp nat string string

fun run_op :: "ledger_op \<Rightarrow> ledger \<Rightarrow> ledger_error + ledger" where
  "run_op (PostOp now e) l = bindE (Post now e l) (\<lambda>(p, l). Inr l)"
| "run_op (OpenOp s p c) l = bindE (SellerAccount s p c l) (\<lambda>(i, l). Inr l)"

definition chart :: "ledger \<Rightarrow> bool" where
  "chart l \<longleftrightarrow> entries l = [] \<and> jlines l = [] \<and> balances l = [] \<and> 0 < next_seq l \<and> 0 < next_uuid l
     \<and> distinct (map a_id (accounts l)) \<and> (\<forall>a \<in> set (accounts l). a_id a < next_uuid l)"

inductive reachable :: "ledger \<Rightarrow> bool" where
  start: "chart l \<Longrightarrow> reachable l"
| unit_of_work: "reachable l \<Longrightarrow> foldE run_op ops l = Inr l' \<Longrightarrow> commit_check l l' = Inr () \<Longrightarrow> reachable l'"
| rollup: "reachable l \<Longrightarrow> Rollup l = Inr (n, l') \<Longrightarrow> reachable l'"

lemma run_op_wf: "ledger_wf l \<Longrightarrow> run_op oper l = Inr l' \<Longrightarrow> ledger_wf l' \<and> ledger_ext l l'"
  by (cases oper) (auto dest: Post_wf SellerAccount_wf)

lemma run_ops_wf: "ledger_wf l \<Longrightarrow> foldE run_op ops l = Inr l' \<Longrightarrow> ledger_wf l' \<and> ledger_ext l l'"
proof (induction ops arbitrary: l)
  case (Cons oper ops)
  then obtain l1 where 1: "run_op oper l = Inr l1" "foldE run_op ops l1 = Inr l'" by auto
  then show ?case using run_op_wf [OF Cons.prems(1) 1(1)] Cons.IH [of l1] ledger_ext_trans by blast
qed simp

lemma reachable_ok: "reachable l \<Longrightarrow> ledger_ok l"
proof (induction rule: reachable.induct)
  case (start l)
  then show ?case by (simp add: chart_def ledger_ok_def ledger_wf_def)
next
  case (unit_of_work l ops l')
  then have "ledger_wf l" by (simp add: ledger_ok_def)
  then show ?case using run_ops_wf [OF _ unit_of_work(2)] commit_check_balances unit_of_work by blast
next
  case (rollup l n l')
  then show ?case by (auto dest: Rollup_ok)
qed

lemma reachable_account:
  assumes "reachable l" and "x \<in> set (jlines l)"
  shows "find_account l (jl_account x) \<noteq> None"
  using reachable_ok [OF assms(1)] assms(2) by (auto simp: ledger_ok_def ledger_wf_def line_wf_def line_currency_def)

subsection \<open>Idempotent delivery\<close>

text \<open>
  What the rest of the program relies on when it posts from an at-least-once queue: posting under
  a key that is present changes nothing. The lemmas hold for any store with these laws; the
  journal is one.
\<close>

locale idempotent_store =
  fixes post :: "'e \<Rightarrow> 's \<Rightarrow> 'x + 'r \<times> 's" and key :: "'e \<Rightarrow> 'k" and seen :: "'s \<Rightarrow> 'k \<Rightarrow> bool"
    and valid :: "'e \<Rightarrow> bool" and inv :: "'s \<Rightarrow> bool"
  assumes post_inv: "inv s \<Longrightarrow> post e s = Inr (r, s') \<Longrightarrow> inv s'"
    and post_valid: "post e s = Inr (r, s') \<Longrightarrow> valid e"
    and post_seen: "inv s \<Longrightarrow> post e s = Inr (r, s') \<Longrightarrow> seen s' (key e)"
    and seen_mono: "inv s \<Longrightarrow> post e s = Inr (r, s') \<Longrightarrow> seen s k \<Longrightarrow> seen s' k"
    and seen_noop: "valid e \<Longrightarrow> seen s (key e) \<Longrightarrow> \<exists>r. post e s = Inr (r, s)"
begin

definition deliver :: "'e list \<Rightarrow> 's \<Rightarrow> 'x + 's" where
  "deliver es s = foldE (\<lambda>e s. bindE (post e s) (\<lambda>(r, s). Inr s)) es s"

lemma deliver_Cons: "deliver (e # es) s = bindE (post e s) (\<lambda>(r, s). deliver es s)"
  by (cases "post e s") (auto simp: deliver_def split: prod.splits)

lemma deliver_Nil [simp]: "deliver [] s = Inr s"
  by (simp add: deliver_def)

lemma deliver_seen:
  "inv s \<Longrightarrow> deliver es s = Inr s' \<Longrightarrow>
    inv s' \<and> (\<forall>e \<in> set es. valid e \<and> seen s' (key e)) \<and> (\<forall>k. seen s k \<longrightarrow> seen s' k)"
proof (induction es arbitrary: s)
  case (Cons e es)
  then obtain r s1 where 1: "post e s = Inr (r, s1)" "deliver es s1 = Inr s'" by (auto simp: deliver_Cons)
  then show ?case
    using Cons.IH [of s1] Cons.prems post_inv [of s e r s1] post_valid post_seen [of s e r s1] seen_mono [of s e r s1] by auto
qed simp

lemma deliver_noop: "\<forall>e \<in> set es. valid e \<and> seen s (key e) \<Longrightarrow> deliver es s = Inr s"
proof (induction es)
  case (Cons e es)
  then show ?case using seen_noop [of e s] by (auto simp: deliver_Cons)
qed simp

lemma redeliver:
  assumes "inv s" and "deliver es s = Inr s'" and "\<forall>e \<in> set es'. valid e \<and> key e \<in> key ` set es"
  shows "deliver es' s' = Inr s'"
  using deliver_seen [OF assms(1,2)] assms(3) by (intro deliver_noop) auto

end

lemma find_entry_seen:
  assumes "ledger_wf l" and "Post now e l = Inr (p, l')"
  shows "find_entry l' (IdempotencyKey e) \<noteq> None"
  using Post_found [OF assms] by (metis option.distinct(1))

lemma find_entry_mono:
  assumes "ledger_wf l" and "Post now e l = Inr (p, l')" and "find_entry l k \<noteq> None"
  shows "find_entry l' k \<noteq> None"
  using find_entry_ext [OF conjunct2 [OF Post_wf [OF assms(1,2)]], of k] assms(3) by auto

interpretation journal: idempotent_store "\<lambda>(now, e). Post now e" "\<lambda>(now, e). IdempotencyKey e"
  "\<lambda>l k. find_entry l k \<noteq> None" "\<lambda>(now, e). Validate e = Inr ()" ledger_wf
proof (unfold_locales, goal_cases)
  case 1 then show ?case by (auto split: prod.splits dest: Post_wf)
next
  case 2 then show ?case by (auto split: prod.splits simp: Post_def)
next
  case 3 then show ?case by (auto split: prod.splits simp del: not_None_eq simp: find_entry_seen)
next
  case 4 then show ?case by (auto split: prod.splits simp del: not_None_eq simp: find_entry_mono)
next
  case 5 then show ?case by (auto split: prod.splits simp: Post_def)
qed

subsection \<open>Properties\<close>

text \<open>A chart with a cash and a revenue account, and a capture of 100 rupees.\<close>

definition demo_chart :: ledger where
  "demo_chart = \<lparr>accounts = [\<lparr>a_id = 1, a_code = PlatformCode ''1010'', a_kind = Asset, a_currency = ''INR'', is_control = False, closed = False\<rparr>,
     \<lparr>a_id = 2, a_code = PlatformCode ''4010'', a_kind = Income, a_currency = ''INR'', is_control = False, closed = False\<rparr>],
     entries = [], jlines = [], balances = [], next_seq = 1, next_uuid = 3\<rparr>"

definition demo_entry :: entry where
  "demo_entry = \<lparr>Kind = ''refund'', en_Currency = ''INR'', OccurredAt = None, Description = ''d'', ReferenceType = ''o'', ReferenceID = ''1'',
     IdempotencyKey = ''k'', ReversesEntryID = None, Metadata = [],
     Lines = [\<lparr>AccountID = 1, Direction = Debit, Amount = \<lparr>minor = 10000, cur = ''INR''\<rparr>, Memo = ''''\<rparr>,
              \<lparr>AccountID = 2, Direction = Credit, Amount = \<lparr>minor = 10000, cur = ''INR''\<rparr>, Memo = ''''\<rparr>]\<rparr>"

definition demo_posted :: ledger where
  "demo_posted = demo_chart\<lparr>entries := [\<lparr>e_id = 3, e_public = pub_id ''jrn'' 3, e_kind = ''refund'', e_currency = ''INR'', e_occurred = 7,
       e_description = ''d'', e_ref_type = ''o'', e_ref_id = ''1'', e_reverses = None, e_key = ''k'', e_meta = []\<rparr>],
     jlines := [\<lparr>jl_seq = 1, jl_id = 4, jl_entry = 3, jl_no = 1, jl_account = 1, jl_dir = Debit, jl_amount = 10000, jl_currency = ''INR'', jl_memo = ''''\<rparr>,
       \<lparr>jl_seq = 2, jl_id = 5, jl_entry = 3, jl_no = 2, jl_account = 2, jl_dir = Credit, jl_amount = 10000, jl_currency = ''INR'', jl_memo = ''''\<rparr>],
     next_seq := 3, next_uuid := 6\<rparr>"

lemma demo_validate: "Validate demo_entry = Inr ()"
  by (simp add: Validate_def demo_entry_def validate_line_def IsPositive_def)

lemma demo_post: "Post 7 demo_entry demo_chart = Inr (\<lparr>EntryID = 3, PublicID = pub_id ''jrn'' 3, Replayed = False\<rparr>, demo_posted)"
  by (simp add: Post_def demo_validate)
    (simp add: demo_entry_def demo_chart_def demo_posted_def find_entry_def insert_entry_def entry_kinds_def currency_code_def
      insert_line_def find_account_def money_minor_def char_count_def Let_def)

lemma demo_chart_ok: "chart demo_chart"
  by (simp add: chart_def demo_chart_def)

lemma demo_ok: "ledger_ok demo_chart" "ledger_wf demo_chart"
  using reachable_ok [OF reachable.start [OF demo_chart_ok]] by (simp_all add: ledger_ok_def)

lemma demo_reachable: "reachable demo_posted"
proof (rule reachable.unit_of_work [OF reachable.start [OF demo_chart_ok]])
  show "foldE run_op [PostOp 7 demo_entry] demo_chart = Inr demo_posted" by (simp add: demo_post)
  show "commit_check demo_chart demo_posted = Inr ()"
    using Post_commits [OF demo_ok(1) demo_post] by (simp add: demo_entry_def)
qed

text \<open>C30: whatever units of work commit and however balances are rolled up, every journal
  entry has at least two lines and equal debits and credits, no two entries share a key, and the
  trial balance never breaks: \<open>AssertBalanced\<close> succeeds, or a currency's total no longer fits
  the \<open>int64\<close> it is read into.\<close>

theorem journal_balanced:
  assumes "reachable l"
  shows "(\<forall>e \<in> set (entries l). 2 \<le> length (entry_lines l (e_id e))
      \<and> dir_sum Debit (entry_lines l (e_id e)) = dir_sum Credit (entry_lines l (e_id e)))
    \<and> distinct (map e_key (entries l))
    \<and> (AssertBalanced l = Inr () \<or> AssertBalanced l = Inl (SqlError ''bigint out of range'')
        \<and> (\<exists>c. \<not> in_i64 (dir_sum Debit (currency_lines l c))))"
  using reachable_ok [OF assms] trial_balance_holds [OF reachable_ok [OF assms]]
  by (simp add: ledger_ok_def ledger_wf_def entry_balanced_def)

lemma journal_balanced_witness:
  "2 \<le> length (entry_lines demo_posted 3) \<and> dir_sum Debit (entry_lines demo_posted 3) = dir_sum Credit (entry_lines demo_posted 3)"
proof -
  have "\<exists>e \<in> set (entries demo_posted). e_id e = 3" by (simp add: demo_posted_def)
  then show ?thesis using journal_balanced [OF demo_reachable] by metis
qed

lemma lines_match_account:
  "lines_match xs lns \<Longrightarrow> dir_sum d (filter (\<lambda>x. jl_account x = i) xs)
    = sum_list (map (\<lambda>ln. minor (Amount ln)) (filter (\<lambda>ln. AccountID ln = i \<and> Direction ln = d) lns))"
proof (induction xs arbitrary: lns)
  case (Cons x xs)
  then obtain ln lns' where "lns = ln # lns'" by (cases lns) (auto simp: lines_match_def)
  then show ?case using Cons by (auto simp: lines_match_def dir_sum_Cons)
qed (simp add: lines_match_def)

lemma Post_effect:
  assumes "ledger_ok l" and "find_entry l (IdempotencyKey e) = None" and "Post now e l = Inr (p, l')"
  shows "\<not> Replayed p \<and> EntryID p \<notin> set (map e_id (entries l)) \<and> lines_match (entry_lines l' (EntryID p)) (Lines e)
    \<and> dir_sum d (account_lines l' i) = dir_sum d (account_lines l i)
        + sum_list (map (\<lambda>ln. minor (Amount ln)) (filter (\<lambda>ln. AccountID ln = i \<and> Direction ln = d) (Lines e)))"
proof -
  have wf: "ledger_wf l" using assms(1) by (simp add: ledger_ok_def)
  note f = Post_fresh [OF wf assms(3,2)]
  then obtain je xs where je: "entries l' = entries l @ [je]" "jlines l' = jlines l @ xs" "e_id je = next_uuid l" "EntryID p = next_uuid l"
    "\<forall>x \<in> set xs. jl_entry x = e_id je" "lines_match xs (Lines e)" by blast
  have old: "filter (\<lambda>x. jl_entry x = e_id je) (jlines l) = []" and new: "next_uuid l \<notin> set (map e_id (entries l))"
    using wf je(3) by (force simp: ledger_wf_def line_wf_def filter_empty_conv)+
  have "filter (\<lambda>x. jl_entry x = e_id je) xs = xs" using je(5) by simp
  then have "entry_lines l' (EntryID p) = xs" using old je by (simp add: entry_lines_def)
  moreover have "dir_sum d (account_lines l' i) = dir_sum d (account_lines l i)
        + sum_list (map (\<lambda>ln. minor (Amount ln)) (filter (\<lambda>ln. AccountID ln = i \<and> Direction ln = d) (Lines e)))"
    using je(2) lines_match_account [OF je(6)] by (simp add: account_lines_def)
  ultimately show ?thesis using f je new by simp
qed

text \<open>C31: on a fresh key \<open>Post\<close> writes the entry under an id that did not exist, with exactly
  the given lines: the debits and credits of every account grow by the entry's lines on it and by
  nothing else. The entry passes the deferred check at COMMIT and leaves a balanced journal, so
  an entry of up to 1024 lines that \<open>Validate\<close> accepts is never rejected as unbalanced later.\<close>

theorem post_effect:
  assumes "ledger_ok l" and "find_entry l (IdempotencyKey e) = None" and "Post now e l = Inr (p, l')" and "length (Lines e) \<le> 1024"
  shows "\<not> Replayed p \<and> EntryID p \<notin> set (map e_id (entries l)) \<and> lines_match (entry_lines l' (EntryID p)) (Lines e)
    \<and> (\<forall>i d. dir_sum d (account_lines l' i) = dir_sum d (account_lines l i)
        + sum_list (map (\<lambda>ln. minor (Amount ln)) (filter (\<lambda>ln. AccountID ln = i \<and> Direction ln = d) (Lines e))))
    \<and> commit_check l l' = Inr () \<and> ledger_ok l'"
  using Post_effect [OF assms(1-3)] Post_commits [OF assms(1,3,4)] Post_ok [OF assms(1,3,4)] by blast

lemma post_effect_witness: "dir_sum Debit (account_lines demo_posted 1) = 10000 \<and> ledger_ok demo_posted"
proof -
  have "find_entry demo_chart (IdempotencyKey demo_entry) = None" by (simp add: find_entry_def demo_chart_def)
  moreover have "length (Lines demo_entry) \<le> 1024" by (simp add: demo_entry_def)
  ultimately show ?thesis
    using post_effect [OF demo_ok(1) _ demo_post] by (simp add: demo_chart_def demo_entry_def account_lines_def)
qed

text \<open>C32: after a batch of entries has been posted, posting any of them again, in any order, any number
  of times and at any clock reading, succeeds and leaves the ledger as it is; each repeated post reports
  \<open>Replayed\<close> with the identifier of the entry that holds its key.\<close>

theorem post_idempotent:
  assumes "ledger_wf l" and "foldE (\<lambda>(now, e) l. bindE (Post now e l) (\<lambda>(p, l). Inr l)) batch l = Inr l'"
    and "\<forall>(now, e) \<in> set again. Validate e = Inr () \<and> (\<exists>(now', e') \<in> set batch. IdempotencyKey e' = IdempotencyKey e)"
  shows "foldE (\<lambda>(now, e) l. bindE (Post now e l) (\<lambda>(p, l). Inr l)) again l' = Inr l'
    \<and> (\<forall>(now, e) \<in> set again. \<exists>p je. Post now e l' = Inr (p, l') \<and> Replayed p
         \<and> je \<in> set (entries l') \<and> e_id je = EntryID p \<and> e_key je = IdempotencyKey e)"
proof -
  have d: "foldE (\<lambda>(now, e) l. bindE (Post now e l) (\<lambda>(p, l). Inr l)) = journal.deliver"
  proof (intro ext)
    fix es s
    have "(\<lambda>(now, e) l. bindE (Post now e l) (\<lambda>(p, l). Inr l))
      = (\<lambda>e s. bindE ((case e of (now, e) \<Rightarrow> Post now e) s) (\<lambda>(r, s). Inr s))"
      by (intro ext) (auto split: prod.splits)
    then show "foldE (\<lambda>(now, e) l. bindE (Post now e l) (\<lambda>(p, l). Inr l)) es s = journal.deliver es s"
      by (simp only: journal.deliver_def)
  qed
  have b: "journal.deliver batch l = Inr l'" using assms(2) unfolding d .
  have k: "\<forall>x \<in> set again. (case x of (now, e) \<Rightarrow> Validate e = Inr ()) \<and> (case x of (now, e) \<Rightarrow> IdempotencyKey e) \<in> (\<lambda>(now, e). IdempotencyKey e) ` set batch"
  proof
    fix x assume "x \<in> set again"
    obtain now e where x: "x = (now, e)" by (cases x)
    then obtain now' e' where "Validate e = Inr ()" "(now', e') \<in> set batch" "IdempotencyKey e' = IdempotencyKey e"
      using assms(3) \<open>x \<in> set again\<close> by fast
    then show "(case x of (now, e) \<Rightarrow> Validate e = Inr ()) \<and> (case x of (now, e) \<Rightarrow> IdempotencyKey e) \<in> (\<lambda>(now, e). IdempotencyKey e) ` set batch"
      using x by (force simp: image_iff)
  qed
  have "\<exists>p je. Post now e l' = Inr (p, l') \<and> Replayed p \<and> je \<in> set (entries l') \<and> e_id je = EntryID p \<and> e_key je = IdempotencyKey e"
    if x: "(now, e) \<in> set again" for now e
  proof -
    have v: "Validate e = Inr ()" using k x by fastforce
    obtain now' e' where "(now', e') \<in> set batch" "IdempotencyKey e' = IdempotencyKey e" using assms(3) x by fastforce
    then obtain je where je: "find_entry l' (IdempotencyKey e) = Some je"
      using journal.deliver_seen [OF assms(1) b] by fastforce
    then have "je \<in> set (entries l')" "e_key je = IdempotencyKey e" using find_Some_in unfolding find_entry_def by fastforce+
    then show ?thesis using Post_replay [OF je v, of now] by auto
  qed
  then show ?thesis using journal.redeliver [OF assms(1) b k] unfolding d by blast
qed

lemma post_idempotent_witness:
  "foldE (\<lambda>(now, e) l. bindE (Post now e l) (\<lambda>(p, l). Inr l)) [(9, demo_entry), (8, demo_entry)] demo_posted = Inr demo_posted"
  using post_idempotent [OF demo_ok(2), of "[(7, demo_entry)]" demo_posted "[(9, demo_entry), (8, demo_entry)]"]
  by (simp add: demo_post demo_validate)

lemma find_filter_eq: "find P xs = (case filter P xs of [] \<Rightarrow> None | x # _ \<Rightarrow> Some x)"
  by (induction xs) auto

lemma upserts_other:
  "j \<notin> set is \<Longrightarrow> filter (\<lambda>b. b_account b = j) (fold (upsert_balance l c) is bs) = filter (\<lambda>b. b_account b = j) bs"
proof (induction "is" arbitrary: bs)
  case (Cons i "is")
  then show ?case using upsert_other [of j i l c bs] by simp
qed simp

lemma upsert_accounts: "b_account ` set (upsert_balance l c i bs) = insert i (b_account ` set bs)"
proof (cases "\<exists>b \<in> set bs. b_account b = i")
  case True
  have "b_account ` set (map f bs) = b_account ` set bs" if "\<And>b. b_account (f b) = b_account b" for f :: "balance_row \<Rightarrow> balance_row"
    using that by (simp add: image_image)
  then show ?thesis using True by (auto simp: upsert_balance_def Let_def simp del: set_map)
next
  case False
  then show ?thesis by (simp add: upsert_balance_def Let_def)
qed

lemma upserts_accounts: "b_account ` set (fold (upsert_balance l c) is bs) = set is \<union> b_account ` set bs"
  by (induction "is" arbitrary: bs) (auto simp: upsert_accounts)

lemma upsert_row:
  assumes "b \<in> set (upsert_balance l c i bs)"
  shows "(b_account b = i \<longrightarrow> b_through b = c) \<and> (b_account b \<noteq> i \<longrightarrow> b \<in> set bs)"
  using assms by (auto simp: upsert_balance_def Let_def split: if_splits)

lemma upserts_row:
  "b \<in> set (fold (upsert_balance l c) is bs) \<Longrightarrow> b_account b \<in> set is \<Longrightarrow> b_through b = c"
proof (induction "is" arbitrary: bs)
  case (Cons j "is")
  show ?case
  proof (cases "b_account b \<in> set is")
    case True
    then show ?thesis using Cons by simp
  next
    case False
    then have j: "b_account b = j" using Cons.prems by simp
    have "b \<in> set bs'" if "b \<in> set (fold (upsert_balance l c) is bs')" for bs'
      using that False
    proof (induction "is" arbitrary: bs')
      case (Cons k "is")
      then show ?case using upsert_row [of b l c k bs'] by auto
    qed simp
    then have "b \<in> set (upsert_balance l c j bs)" using Cons.prems(1) by simp
    then show ?thesis using upsert_row j by blast
  qed
qed simp

lemma Rollup_again:
  assumes "ledger_wf l" and "Rollup l = Inr (n, l')" and "Rollup l' = Inr (m, l'')"
  shows "m = 0 \<and> l'' = l'"
proof -
  define c where "c = foldl max 0 (map jl_seq (jlines l))"
  have l': "l' = l\<lparr>balances := fold (upsert_balance l c) (touched l c) (balances l)\<rparr>"
    using assms(2) by (auto simp: Rollup_def c_def Let_def split: if_splits)
  have "\<not> (jl_seq x > through_of l' (jl_account x) \<and> jl_seq x \<le> c)" if x: "x \<in> set (jlines l)" for x
  proof
    assume g: "jl_seq x > through_of l' (jl_account x) \<and> jl_seq x \<le> c"
    show False
    proof (cases "jl_account x \<in> set (touched l c)")
      case True
      have "b_account ` set (balances l') = set (touched l c) \<union> b_account ` set (balances l)"
        using l' upserts_accounts by simp
      then have "jl_account x \<in> b_account ` set (balances l')" using True by simp
      then obtain b where "b \<in> set (balances l')" "b_account b = jl_account x" by force
      then obtain b' where b': "find_balance l' (jl_account x) = Some b'"
        using find_None_all [of "\<lambda>b. b_account b = jl_account x" "balances l'"]
        by (cases "find_balance l' (jl_account x)") (auto simp: find_balance_def)
      then have "b' \<in> set (balances l')" "b_account b' = jl_account x" using find_Some_in unfolding find_balance_def by fastforce+
      then have "b_through b' = c" using upserts_row [of b' l c "touched l c" "balances l"] True l' by simp
      then have "through_of l' (jl_account x) = c" using b' by (simp add: through_of_def)
      then show False using g by linarith
    next
      case False
      then have "\<not> jl_seq x > through_of l (jl_account x)" using x g by (auto simp: touched_def)
      moreover have "find_balance l' (jl_account x) = find_balance l (jl_account x)"
        unfolding find_balance_def find_filter_eq [of _ "balances l'"] find_filter_eq [of _ "balances l"]
        using False l' by (simp add: upserts_other)
      ultimately show False using g by (simp add: through_of_def)
    qed
  qed
  moreover have j: "jlines l' = jlines l" using l' by simp
  ultimately have t: "touched l' c = []" unfolding touched_def j by (simp add: filter_empty_conv)
  have c: "foldl max 0 (map jl_seq (jlines l')) = c" unfolding j by (simp add: c_def)
  show ?thesis using assms(3) unfolding Rollup_def Let_def c t by (simp split: if_splits)
qed


definition demo_rolled :: ledger where
  "demo_rolled = demo_posted\<lparr>balances := [\<lparr>b_account = 1, b_debit = 10000, b_credit = 0, b_through = 2\<rparr>,
     \<lparr>b_account = 2, b_debit = 0, b_credit = 10000, b_through = 2\<rparr>]\<rparr>"

lemma demo_rollup: "Rollup demo_posted = Inr (2, demo_rolled)" "Rollup demo_rolled = Inr (0, demo_rolled)"
  by (simp_all add: Rollup_def touched_def demo_rolled_def demo_posted_def demo_chart_def through_of_def find_balance_def
      upsert_balance_def Let_def dir_sum_def money_minor_def)


text \<open>
  The watermark is a sequence value, and a sequence value is drawn before its transaction commits.
  When a line with a smaller sequence value commits after a rollup went past it, the line is above
  no watermark and below no tail: the account's balance never counts it.
\<close>

definition late_line :: "journal_line \<Rightarrow> ledger \<Rightarrow> ledger" where
  "late_line x l = l\<lparr>jlines := jlines l @ [x]\<rparr>"

lemma rollup_skips_late_line:
  assumes "find_balance l (jl_account x) = Some b" and "jl_seq x \<le> b_through b"
  shows "Balance (late_line x l) (jl_account x) = Balance l (jl_account x)"
proof -
  have f: "find_account (late_line x l) i = find_account l i" "find_balance (late_line x l) i = find_balance l i" for i
    by (simp_all add: late_line_def find_account_def find_balance_def)
  have t: "filter (\<lambda>y. jl_account y = jl_account x \<and> jl_seq y > b_through b) (jlines (late_line x l))
    = filter (\<lambda>y. jl_account y = jl_account x \<and> jl_seq y > b_through b) (jlines l)"
    using assms(2) by (simp add: late_line_def)
  show ?thesis unfolding Balance_def f assms(1) option.case prod.case Let_def t ..
qed

lemma late_line_is_lost:
  "Balance_reference (late_line (jlines demo_posted ! 0) (demo_rolled\<lparr>jlines := []\<rparr>)) 1 = Inr 10000
    \<and> Balance (late_line (jlines demo_posted ! 0) (demo_rolled\<lparr>jlines := [], balances := [\<lparr>b_account = 1, b_debit = 0, b_credit = 0, b_through = 2\<rparr>]\<rparr>)) 1 = Inr 0"
  by (simp add: Balance_def Balance_reference_def late_line_def demo_rolled_def demo_posted_def demo_chart_def
      find_account_def find_balance_def account_lines_def dir_sum_def in_i64_def Let_def)

end
