(* ===== verification/Store.thy ===== *)
theory Store
  imports Ledger "HOL-Library.Word"
begin

text \<open>
  \<open>internal/platform/db/db.go\<close>: the transaction contract. A transaction runs a closure on the
  state it sees and commits or leaves no trace in the database; what the closure did outside the
  database (variables it captured, calls to a provider) stays done. Serialization failures,
  deadlocks and races on an idempotency index run the closure again on a fresh state, at most
  \<open>maxRetry\<close> more times. The proofs show atomicity, the bound on runs and waits, and that an
  invariant of committed states survives; the ledger is the instance.
\<close>

unbundle bit_operations_syntax

subsection \<open>Database errors\<close>

text \<open>Wrapping with \<open>%w\<close> keeps the chain \<open>errors.As\<close> and \<open>errors.Is\<close> search.\<close>

datatype 'e db_error =
    PgError string string string
  | ErrRollback
  | ErrNoRows
  | Cancelled
  | App 'e
  | Wrapped string "'e db_error"

fun root_error :: "'e db_error \<Rightarrow> 'e db_error" where
  "root_error (Wrapped w e) = root_error e"
| "root_error e = e"

definition idempotencyConstraints :: "string list" where
  "idempotencyConstraints = [''journal_entries_idempotency_uq'', ''idempotency_keys_unique_idx'',
     ''provider_webhook_events_uq'', ''jobs_unique_key_idx'']"

definition isRetryable :: "'e db_error \<Rightarrow> bool" where
  "isRetryable err = (case root_error err of
     PgError code con msg \<Rightarrow>
       if code = ''40001'' \<or> code = ''40P01'' then True
       else if code = ''23505'' then con \<in> set idempotencyConstraints else False
   | _ \<Rightarrow> False)"

definition constraint_of :: "string \<Rightarrow> 'e db_error \<Rightarrow> string option" where
  "constraint_of code err = (case root_error err of
     PgError c con msg \<Rightarrow> (if c = code then Some con else None)
   | _ \<Rightarrow> None)"

definition IsUniqueViolation :: "'e db_error \<Rightarrow> string option" where
  "IsUniqueViolation err = constraint_of ''23505'' err"

definition IsForeignKeyViolation :: "'e db_error \<Rightarrow> string option" where
  "IsForeignKeyViolation err = constraint_of ''23503'' err"

definition IsCheckViolation :: "'e db_error \<Rightarrow> string option" where
  "IsCheckViolation err = constraint_of ''23514'' err"

definition IsRaisedException :: "'e db_error \<Rightarrow> string option" where
  "IsRaisedException err = (case root_error err of
     PgError c con msg \<Rightarrow> (if c = ''P0001'' then Some msg else None)
   | _ \<Rightarrow> None)"

definition IsNoRows :: "'e db_error \<Rightarrow> bool" where
  "IsNoRows err = (case root_error err of ErrNoRows \<Rightarrow> True | _ \<Rightarrow> False)"

subsection \<open>Transactions\<close>

datatype isolation = ReadCommitted | RepeatableRead | Serializable

record tx_options =
  Name :: string
  Isolation :: "isolation option"
  ReadOnly :: bool

definition tx_defaults :: "tx_options \<Rightarrow> tx_options" where
  "tx_defaults opts = opts\<lparr>
     Isolation := (case Isolation opts of None \<Rightarrow> Some ReadCommitted | i \<Rightarrow> i),
     Name := (if Name opts = '''' then ''tx'' else Name opts)\<rparr>"

text \<open>
  What the server and the other transactions do, by attempt: what they committed before the
  attempt starts, whether \<open>BEGIN\<close> fails, and the outcome of \<open>COMMIT\<close> (deferred checks and
  conflicts), given the state the attempt saw and the one it built. \<open>ctx_done\<close> says whether the
  context ended during the wait before the attempt.
\<close>

record ('s, 'e) server =
  others :: "nat \<Rightarrow> 's \<Rightarrow> 's"
  begin_fails :: "nat \<Rightarrow> 'e db_error option"
  commit :: "nat \<Rightarrow> 's \<Rightarrow> 's \<Rightarrow> 'e db_error option"
  ctx_done :: "nat \<Rightarrow> bool"

type_synonym ('s, 'w, 'e) closure = "nat \<Rightarrow> 's \<Rightarrow> 'w \<Rightarrow> ('e db_error + unit) \<times> 's \<times> 'w"

definition runOnce :: "('s, 'e) server \<Rightarrow> tx_options \<Rightarrow> nat \<Rightarrow> ('s, 'w, 'e) closure \<Rightarrow> 's \<Rightarrow> 'w
    \<Rightarrow> ('e db_error + unit) \<times> 's \<times> 'w" where
  "runOnce d opts k fn s w = (case begin_fails d k of
     Some e \<Rightarrow> (Inl (Wrapped (''db: begin '' @ Name opts) e), s, w)
   | None \<Rightarrow> (case fn k s w of
       (Inl e, s', w') \<Rightarrow> (Inl e, s, w')
     | (Inr u, s', w') \<Rightarrow> (case commit d k s s' of
         Some e \<Rightarrow> (Inl (Wrapped (''db: commit '' @ Name opts) e), s, w')
       | None \<Rightarrow> (Inr (), s', w'))))"

definition maxRetry :: nat where
  "maxRetry = 5"

definition next_backoff :: "int \<Rightarrow> int" where
  "next_backoff b = (if 2 * b > 500000000 then 500000000 else 2 * b)"

text \<open>
  The retry loop with \<open>n\<close> attempts left; the last component lists the upper bounds of the jittered
  waits, in nanoseconds.
\<close>

fun tx_loop :: "('s, 'e) server \<Rightarrow> tx_options \<Rightarrow> ('s, 'w, 'e) closure \<Rightarrow> nat \<Rightarrow> nat \<Rightarrow> int \<Rightarrow> 'e db_error \<Rightarrow> 's \<Rightarrow> 'w
    \<Rightarrow> ('e db_error + unit) \<times> 's \<times> 'w \<times> int list" where
  "tx_loop d opts fn 0 k b lastErr s w =
     (Inl (Wrapped (''db: '' @ Name opts @ '' exhausted '' @ dec_nat maxRetry @ '' retries'') lastErr), s, w, [])"
| "tx_loop d opts fn (Suc n) k b lastErr s w =
    (if 0 < k \<and> ctx_done d k then (Inl Cancelled, s, w, [b])
     else let (waits, b') = (if 0 < k then ([b], next_backoff b) else ([], b)) in
       case runOnce d opts k fn (others d k s) w of
         (Inr u, s', w') \<Rightarrow> (Inr (), s', w', waits)
       | (Inl e, s', w') \<Rightarrow>
           if root_error e = ErrRollback then (Inr (), s', w', waits)
           else if \<not> isRetryable e then (Inl e, s', w', waits)
           else (case tx_loop d opts fn n (Suc k) b' e s' w' of (r, s'', w'', ws) \<Rightarrow> (r, s'', w'', waits @ ws)))"

definition InTx :: "('s, 'e) server \<Rightarrow> tx_options \<Rightarrow> ('s, 'w, 'e) closure \<Rightarrow> 's \<Rightarrow> 'w
    \<Rightarrow> ('e db_error + unit) \<times> 's \<times> 'w \<times> int list" where
  "InTx d opts fn s w = tx_loop d (tx_defaults opts) fn (maxRetry + 1) 0 5000000 ErrNoRows s w"

subsection \<open>Jitter\<close>

text \<open>\<open>splitmix64\<close> over an atomic counter.\<close>

definition splitmix_seed :: "64 word" where
  "splitmix_seed = 0x2545F4914F6CDD1D"

definition splitmix :: "64 word \<Rightarrow> 64 word" where
  "splitmix z0 = (let z = (z0 XOR drop_bit 30 z0) * 0xBF58476D1CE4E5B9;
     z = (z XOR drop_bit 27 z) * 0x94D049BB133111EB
   in z XOR drop_bit 31 z)"

definition jitter :: "64 word \<Rightarrow> int \<Rightarrow> int \<times> 64 word" where
  "jitter counter d = (if d \<le> 0 then (0, counter)
     else let counter' = counter + 0x9E3779B97F4A7C15 in (uint (splitmix counter') mod d, counter'))"

subsection \<open>Statement labels\<close>

definition ident_char :: "char \<Rightarrow> bool" where
  "ident_char c = (let n = (of_char c :: nat) in c = CHR ''_'' \<or> (97 \<le> n \<and> n \<le> 122) \<or> (65 \<le> n \<and> n \<le> 90) \<or> (48 \<le> n \<and> n \<le> 57))"

definition sanitiseIdent :: "string \<Rightarrow> string" where
  "sanitiseIdent s0 = (let s = trim_set [CHR ''('', CHR '')'', CHR '','', CHR '';'', CHR 0x22] s0; s = take 24 s in
     if \<exists>c \<in> set s. \<not> ident_char c then ''expr'' else if s = '''' then ''expr'' else to_lower s)"

definition first_line :: "string \<Rightarrow> string" where
  "first_line s = (let l = takeWhile (\<lambda>c. c \<noteq> CHR 0x0A) s in if l \<noteq> [] \<and> length l < length s then l else s)"

definition opName :: "string \<Rightarrow> string" where
  "opName sql = (let s = first_line (trim_space sql); s = take 48 s; f = str_fields s in
     if f = [] then ''unknown''
     else let verb = to_lower (hd f) in
       if verb \<in> {''select'', ''insert'', ''update'', ''delete'', ''with''}
       then (if 2 < length f then verb @ ''_'' @ sanitiseIdent (last f) else verb)
       else verb)"

subsection \<open>What a transaction leaves behind\<close>

text \<open>The state after the other transactions of the attempts \<open>k, ..., k + n - 1\<close>.\<close>

definition after_others :: "('s, 'e) server \<Rightarrow> nat \<Rightarrow> nat \<Rightarrow> 's \<Rightarrow> 's" where
  "after_others d k n s = fold (others d) [k..<k + n] s"

lemma after_others_0 [simp]: "after_others d k 0 s = s"
  by (simp add: after_others_def)

lemma after_others_Suc: "after_others d k (Suc n) s = after_others d (Suc k) n (others d k s)"
  by (simp add: after_others_def upt_conv_Cons del: upt_Suc)

lemma runOnce_cases:
  assumes "runOnce d opts k fn s w = (r, s', w')"
  shows "(\<exists>e. r = Inl e \<and> s' = s)
    \<or> (r = Inr () \<and> fn k s w = (Inr (), s', w') \<and> begin_fails d k = None \<and> commit d k s s' = None)"
  using assms by (auto simp: runOnce_def split: option.splits prod.splits sum.splits)

definition committed_run :: "('s, 'e) server \<Rightarrow> ('s, 'w, 'e) closure \<Rightarrow> nat \<Rightarrow> 's \<Rightarrow> 's \<Rightarrow> 'w \<Rightarrow> bool" where
  "committed_run d fn k s s' w' \<longleftrightarrow>
     (\<exists>w. fn k s w = (Inr (), s', w')) \<and> begin_fails d k = None \<and> commit d k s s' = None"

definition rolled_back :: "('s, 'e) server \<Rightarrow> tx_options \<Rightarrow> ('s, 'w, 'e) closure \<Rightarrow> nat \<Rightarrow> 's \<Rightarrow> 'w \<Rightarrow> bool" where
  "rolled_back d opts fn k s w' \<longleftrightarrow> (\<exists>w e. runOnce d opts k fn s w = (Inl e, s, w') \<and> root_error e = ErrRollback)"

lemma tx_loop_outcome:
  assumes "tx_loop d opts fn n k b lastErr s w = (r, s', w', ws)"
  shows "(\<exists>e j. r = Inl e \<and> j \<le> n \<and> s' = after_others d k j s)
    \<or> (\<exists>j < n. r = Inr () \<and> s' = after_others d k (Suc j) s \<and> rolled_back d opts fn (k + j) s' w')
    \<or> (\<exists>j < n. r = Inr () \<and> committed_run d fn (k + j) (after_others d k (Suc j) s) s' w')"
  using assms
proof (induction n arbitrary: k b lastErr s w r s' w' ws)
  case 0
  then show ?case by auto
next
  case (Suc n)
  show ?case
  proof (cases "0 < k \<and> ctx_done d k")
    case True
    then have "r = Inl Cancelled" "s' = after_others d k 0 s" using Suc.prems by auto
    then show ?thesis by blast
  next
    case False
    let ?s = "others d k s"
    obtain r1 s1 w1 where run: "runOnce d opts k fn ?s w = (r1, s1, w1)" by (cases "runOnce d opts k fn ?s w")
    consider (ok) "r1 = Inr ()" "fn k ?s w = (Inr (), s1, w1)" "begin_fails d k = None" "commit d k ?s s1 = None"
      | (rb) e where "r1 = Inl e" "s1 = ?s" "root_error e = ErrRollback"
      | (no) e where "r1 = Inl e" "s1 = ?s" "root_error e \<noteq> ErrRollback" "\<not> isRetryable e"
      | (again) e where "r1 = Inl e" "s1 = ?s" "root_error e \<noteq> ErrRollback" "isRetryable e"
      using runOnce_cases [OF run] by metis
    then show ?thesis
    proof cases
      case ok
      then have "r = Inr ()" "s' = s1" "w' = w1" using Suc.prems False run by (auto split: if_splits)
      moreover have "committed_run d fn (k + 0) (after_others d k (Suc 0) s) s1 w1"
        using ok by (auto simp: committed_run_def after_others_Suc)
      ultimately show ?thesis by blast
    next
      case rb
      then have "r = Inr ()" "s' = after_others d k (Suc 0) s" "w' = w1"
        using Suc.prems False run by (auto simp: after_others_Suc split: if_splits)
      moreover have "rolled_back d opts fn (k + 0) (after_others d k (Suc 0) s) w1"
        using rb run by (auto simp: rolled_back_def after_others_Suc)
      ultimately show ?thesis by blast
    next
      case no
      then have "r = Inl e" "s' = after_others d k (Suc 0) s" using Suc.prems False run by (auto simp: after_others_Suc split: if_splits)
      then show ?thesis by (intro disjI1 exI [of _ e] exI [of _ "Suc 0"]) simp
    next
      case again
      then obtain b' ws' where "tx_loop d opts fn n (Suc k) b' e ?s w1 = (r, s', w', ws')"
        using Suc.prems False run by (auto split: if_splits prod.splits)
      note ih = Suc.IH [OF this]
      have a: "after_others d (Suc k) j ?s = after_others d k (Suc j) s" for j by (simp add: after_others_Suc)
      from ih [unfolded a] show ?thesis
      proof (elim disjE exE conjE)
        fix e' j assume "r = Inl e'" "j \<le> n" "s' = after_others d k (Suc j) s"
        then show ?thesis by (intro disjI1 exI [of _ e'] exI [of _ "Suc j"]) simp
      next
        fix j assume "j < n" "r = Inr ()" "s' = after_others d k (Suc (Suc j)) s" "rolled_back d opts fn (Suc k + j) s' w'"
        then show ?thesis by (intro disjI2 disjI1 exI [of _ "Suc j"]) simp
      next
        fix j assume "j < n" "r = Inr ()" "committed_run d fn (Suc k + j) (after_others d k (Suc (Suc j)) s) s' w'"
        then show ?thesis by (intro disjI2 exI [of _ "Suc j"]) simp
      qed
    qed
  qed
qed

text \<open>The waits are a prefix of the doubling sequence.\<close>

fun wait_bounds :: "nat \<Rightarrow> int \<Rightarrow> int list" where
  "wait_bounds 0 b = []"
| "wait_bounds (Suc n) b = b # wait_bounds n (next_backoff b)"

lemma tx_loop_waits:
  "0 < k \<Longrightarrow> tx_loop d opts fn n k b lastErr s w = (r, s', w', ws) \<Longrightarrow> \<exists>m. ws = take m (wait_bounds n b)"
proof (induction n arbitrary: k b lastErr s w r s' w' ws)
  case (Suc n)
  show ?case
  proof (cases "\<exists>s1 w1 e. runOnce d opts k fn (others d k s) w = (Inl e, s1, w1) \<and> root_error e \<noteq> ErrRollback \<and> isRetryable e \<and> \<not> ctx_done d k")
    case True
    then obtain s1 w1 e ws' where "tx_loop d opts fn n (Suc k) (next_backoff b) e s1 w1 = (r, s', w', ws')" "ws = b # ws'"
      using Suc.prems by (auto split: prod.splits)
    then obtain m where "ws = take (Suc m) (wait_bounds (Suc n) b)" using Suc.IH [of "Suc k"] by fastforce
    then show ?thesis by blast
  next
    case False
    then have "ws = take 1 (wait_bounds (Suc n) b)"
      using Suc.prems by (auto split: prod.splits sum.splits if_splits)
    then show ?thesis by blast
  qed
qed simp

lemma tx_loop_first_waits:
  assumes "tx_loop d opts fn (Suc n) 0 b lastErr s w = (r, s', w', ws)"
  shows "\<exists>m. ws = take m (wait_bounds n b)"
proof (cases "\<exists>s1 w1 e. runOnce d opts 0 fn (others d 0 s) w = (Inl e, s1, w1) \<and> root_error e \<noteq> ErrRollback \<and> isRetryable e")
  case True
  then obtain s1 w1 e where "tx_loop d opts fn n (Suc 0) b e s1 w1 = (r, s', w', ws)"
    using assms by (auto split: prod.splits)
  from tx_loop_waits [OF _ this] show ?thesis by simp
next
  case False
  then have "ws = []" using assms by (auto split: prod.splits sum.splits if_splits)
  then show ?thesis by (intro exI [of _ 0]) simp
qed

lemma InTx_waits:
  assumes "InTx d opts fn s w = (r, s', w', ws)"
  shows "\<exists>m. ws = take m [5000000, 10000000, 20000000, 40000000, 80000000]"
proof -
  have "wait_bounds 5 5000000 = [5000000, 10000000, 20000000, 40000000, 80000000]"
    by (simp add: numeral_eq_Suc next_backoff_def)
  moreover have "\<exists>m. ws = take m (wait_bounds 5 5000000)"
    using assms by (intro tx_loop_first_waits [of d "tx_defaults opts" fn 5]) (simp add: InTx_def maxRetry_def)
  ultimately show ?thesis by simp
qed

text \<open>C34: a transaction is all or nothing. \<open>InTx\<close> answers with an error only when the database is what the other
  transactions made of it; it answers success only when exactly one run of the closure, on the state
  the others left, was committed, or the closure asked to roll back and left nothing. At most six
  runs are attempted, numbered 0 to 5, and between them it waits at most 5, 10, 20, 40 and 80 milliseconds.\<close>

theorem tx_atomic:
  assumes "InTx d opts fn s w = (r, s', w', ws)"
  shows "(case r of
      Inl e \<Rightarrow> \<exists>j \<le> 6. s' = after_others d 0 j s
    | Inr u \<Rightarrow> \<exists>j < 6. let seen = after_others d 0 (Suc j) s in
        (s' = seen \<and> rolled_back d (tx_defaults opts) fn j s' w') \<or> committed_run d fn j seen s' w')
    \<and> (\<exists>m. ws = take m [5000000, 10000000, 20000000, 40000000, 80000000])"
proof -
  have "tx_loop d (tx_defaults opts) fn 6 0 5000000 ErrNoRows s w = (r, s', w', ws)"
    using assms by (simp add: InTx_def maxRetry_def)
  from tx_loop_outcome [OF this] show ?thesis
    using InTx_waits [OF assms] by (auto simp: Let_def)
qed

text \<open>A closure that adds 1, against a serialization failure of the first run.\<close>

definition demo_server :: "(int, unit) server" where
  "demo_server = \<lparr>others = (\<lambda>k s. s + 10), begin_fails = (\<lambda>k. None),
     commit = (\<lambda>k s s'. if k = 0 then Some (PgError ''40001'' '''' '''') else None), ctx_done = (\<lambda>k. False)\<rparr>"

lemma demo_tx: "InTx demo_server \<lparr>Name = ''n'', Isolation = None, ReadOnly = False\<rparr> (\<lambda>k s w. (Inr (), s + 1, w + 1)) 0 (0::int)
    = (Inr (), 21, 2, [5000000])"
  by (simp add: InTx_def maxRetry_def eval_nat_numeral runOnce_def demo_server_def tx_defaults_def isRetryable_def Let_def)

lemma tx_atomic_witness:
  "\<exists>j < 6. committed_run demo_server (\<lambda>k s w. (Inr (), s + 1, w + 1)) j (after_others demo_server 0 (Suc j) 0) 21 (2::int)"
  using tx_atomic [OF demo_tx] by (auto simp: Let_def rolled_back_def runOnce_def demo_server_def split: if_splits)

subsection \<open>Invariants of committed states\<close>

locale unit_of_work =
  fixes d :: "('s, 'e) server" and fn :: "('s, 'w, 'e) closure" and I :: "'s \<Rightarrow> bool"
  assumes others_keep: "I s \<Longrightarrow> I (others d k s)"
    and commit_keeps: "I s \<Longrightarrow> fn k s w = (Inr (), s', w') \<Longrightarrow> commit d k s s' = None \<Longrightarrow> I s'"
begin

lemma after_others_keep: "I s \<Longrightarrow> I (after_others d k n s)"
proof (induction n arbitrary: k s)
  case (Suc n)
  then show ?case using others_keep by (simp add: after_others_Suc)
qed simp

lemma InTx_keeps:
  assumes "I s" and "InTx d opts fn s w = (r, s', w', ws)"
  shows "I s'"
proof -
  have "tx_loop d (tx_defaults opts) fn 6 0 5000000 ErrNoRows s w = (r, s', w', ws)"
    using assms(2) by (simp add: InTx_def maxRetry_def)
  from tx_loop_outcome [OF this] show ?thesis
    using after_others_keep [OF assms(1)] commit_keeps unfolding committed_run_def by metis
qed

end

text \<open>
  The ledger's unit of work: the closure runs postings and account openings, COMMIT runs the
  deferred checks, and the other transactions are units of work of the same kind.
\<close>

definition ledger_db_error :: "ledger_error \<Rightarrow> ledger_error db_error" where
  "ledger_db_error e = (case e of
     SqlError c \<Rightarrow> (if c \<in> set idempotencyConstraints then PgError ''23505'' c '''' else PgError ''23514'' c '''')
   | _ \<Rightarrow> App e)"

definition ledger_closure :: "ledger_op list \<Rightarrow> (ledger, 'w, ledger_error) closure" where
  "ledger_closure ops k l w = (case foldE run_op ops l of
     Inl e \<Rightarrow> (Inl (ledger_db_error e), l, w)
   | Inr l' \<Rightarrow> (Inr (), l', w))"

definition run_unit :: "ledger_op list \<Rightarrow> ledger \<Rightarrow> ledger" where
  "run_unit ops l = (case foldE run_op ops l of
     Inl e \<Rightarrow> l
   | Inr l' \<Rightarrow> (case commit_check l l' of Inl e \<Rightarrow> l | Inr u \<Rightarrow> l'))"

definition ledger_server :: "(nat \<Rightarrow> ledger_op list list) \<Rightarrow> (nat \<Rightarrow> ledger_error db_error option) \<Rightarrow> (nat \<Rightarrow> ledger_error db_error option)
    \<Rightarrow> (nat \<Rightarrow> bool) \<Rightarrow> (ledger, ledger_error) server" where
  "ledger_server bg begins conflicts done = \<lparr>others = (\<lambda>k. fold run_unit (bg k)), begin_fails = begins,
     commit = (\<lambda>k l l'. case conflicts k of Some e \<Rightarrow> Some e
        | None \<Rightarrow> (case commit_check l l' of Inl e \<Rightarrow> Some (ledger_db_error e) | Inr u \<Rightarrow> None)),
     ctx_done = done\<rparr>"

lemma run_unit_ok: "ledger_ok l \<Longrightarrow> ledger_ok (run_unit ops l)"
  using run_ops_wf [of l ops] commit_check_balances [of l]
  by (auto simp: run_unit_def ledger_ok_def split: sum.splits)

lemma run_units_ok: "ledger_ok l \<Longrightarrow> ledger_ok (fold run_unit units l)"
  by (induction units arbitrary: l) (simp_all add: run_unit_ok)

interpretation ledger_tx: unit_of_work "ledger_server bg begins conflicts done" "ledger_closure ops" ledger_ok
proof (unfold_locales, goal_cases)
  case 1
  then show ?case by (simp add: ledger_server_def run_units_ok)
next
  case (2 l k w l' w')
  then have f: "foldE run_op ops l = Inr l'" by (auto simp: ledger_closure_def split: sum.splits)
  have "commit_check l l' = Inr ()" using 2(3) by (auto simp: ledger_server_def split: option.splits sum.splits)
  moreover have "ledger_wf l" using 2(1) by (simp add: ledger_ok_def)
  ultimately show ?case using run_ops_wf [OF _ f] commit_check_balances [OF 2(1)] by blast
qed



subsection \<open>Jitter and labels\<close>

text \<open>The jittered wait lies in [0, d), and a wait of zero or less is none.\<close>

lemma jitter_bounds: "0 \<le> fst (jitter c d) \<and> fst (jitter c d) \<le> max 0 (d - 1)"
proof (cases "d \<le> 0")
  case False
  then have "uint (splitmix (c + 0x9E3779B97F4A7C15)) mod d < d" by simp
  then show ?thesis using False by (simp add: jitter_def Let_def)
qed (simp add: jitter_def)

definition label_char :: "char \<Rightarrow> bool" where
  "label_char c \<longleftrightarrow> ident_char c \<and> lower_char c = c"

lemma lower_ident: "ident_char c \<Longrightarrow> label_char (lower_char c)"
  by (auto simp: label_char_def ident_char_def lower_char_def Let_def)

lemma sanitiseIdent_label: "length (sanitiseIdent s) \<le> 24 \<and> sanitiseIdent s \<noteq> [] \<and> (\<forall>c \<in> set (sanitiseIdent s). label_char c)"
proof -
  have e: "\<forall>c \<in> set ''expr''. label_char c" by (simp add: label_char_def ident_char_def lower_char_def)
  define t where "t = take 24 (trim_set [CHR ''('', CHR '')'', CHR '','', CHR '';'', CHR 0x22] s)"
  have "sanitiseIdent s = ''expr'' \<or> (sanitiseIdent s = to_lower t \<and> t \<noteq> [] \<and> (\<forall>c \<in> set t. ident_char c))"
    by (auto simp: sanitiseIdent_def t_def [symmetric] Let_def)
  moreover have "length t \<le> 24" by (simp add: t_def)
  ultimately show ?thesis using e lower_ident by (elim disjE) (auto simp: to_lower_def)
qed

text \<open>A label of one of the five verbs has at most 31 characters, all lower-case letters, digits and underscores.\<close>

lemma opName_label:
  assumes "str_fields (take 48 (first_line (trim_space sql))) = f" and "f \<noteq> []"
    and "to_lower (hd f) \<in> {''select'', ''insert'', ''update'', ''delete'', ''with''}"
  shows "length (opName sql) \<le> 31 \<and> (\<forall>c \<in> set (opName sql). label_char c)"
proof -
  have v: "length (to_lower (hd f)) \<le> 6" "\<forall>c \<in> set (to_lower (hd f)). label_char c" "label_char CHR ''_''"
    using assms(3) by (auto simp: label_char_def ident_char_def lower_char_def)
  have o: "opName sql = (if 2 < length f then to_lower (hd f) @ ''_'' @ sanitiseIdent (last f) else to_lower (hd f))"
    using assms by (simp add: opName_def Let_def)
  show ?thesis
  proof (cases "2 < length f")
    case True
    have "length (opName sql) = length (to_lower (hd f)) + 1 + length (sanitiseIdent (last f))" using o True by simp
    moreover have "\<forall>c \<in> set (opName sql). label_char c" using o True v sanitiseIdent_label [of "last f"] by auto
    ultimately show ?thesis using v(1) sanitiseIdent_label [of "last f"] by linarith
  next
    case False
    then show ?thesis using o v by simp
  qed
qed

end
