(* ===== verification/Outbox.thy ===== *)
theory Outbox
  imports GoStrings
begin

text \<open>
  \<open>internal/outbox/outbox.go\<close> over the table \<open>outbox_messages\<close> of
  \<open>db/migrations/0001_infrastructure.sql\<close>: publishing inside a transaction, claiming a batch,
  running the handlers, acknowledging, rescheduling with backoff, dead-lettering and replay. The
  proofs show that messages sharing an ordering key are claimed one at a time and oldest first,
  that a message leaves the queue only when every handler succeeded or its attempts are used up,
  and the exact backoff schedule.
\<close>

subsection \<open>Messages and rows\<close>

record message =
  ID :: nat
  Topic :: string
  AggregateType :: string
  AggregateID :: string
  Payload :: string
  Headers :: "(string \<times> string) list"
  Attempts :: int
  CreatedAt :: int
  OrderingKey :: string

definition topics :: "string list" where
  "topics = [''order.paid'', ''order.fulfilled'', ''order.refunded'', ''order.cancelled'', ''license.issued'',
     ''payment.captured'', ''payment.failed'', ''transfer.released'', ''chargeback.opened'', ''dispute.opened'',
     ''seller.kyc_updated'', ''product.published'', ''product.flagged'', ''asset.scanned'', ''grievance.received'',
     ''notification.queued'', ''settlement.due'', ''reconciliation.difference'']"

record outbox_row =
  o_id :: nat
  o_topic :: string
  o_agg_type :: string
  o_agg_id :: string
  o_payload :: string
  o_headers :: "(string \<times> string) list"
  o_created :: int
  o_available :: int
  o_locked_at :: "int option"
  o_locked_by :: "string option"
  o_attempts :: int
  o_dispatched :: "int option"
  o_failed :: "int option"
  o_last_error :: "string option"
  o_key :: "string option"

type_synonym outbox = "outbox_row list"

datatype outbox_error =
    FieldsRequired
  | PublishFailed string
  | NotDeadLettered nat

definition nullIfEmpty :: "string \<Rightarrow> string option" where
  "nullIfEmpty s = (if s = '''' then None else Some s)"

definition truncate_to :: "nat \<Rightarrow> string \<Rightarrow> string" where
  "truncate_to n s = (if length s \<le> n then s else take n s @ ''...'')"

text \<open>\<open>headers[k] = v\<close>.\<close>

definition set_header :: "string \<Rightarrow> string \<Rightarrow> (string \<times> string) list \<Rightarrow> (string \<times> string) list" where
  "set_header k v hs = filter (\<lambda>p. fst p \<noteq> k) hs @ [(k, v)]"

text \<open>\<open>INSERT INTO outbox_messages\<close>; \<open>jsonb\<close> is the server's reading of a JSON text, \<open>None\<close> on bad JSON.\<close>

definition insert_message :: "(string \<Rightarrow> string option) \<Rightarrow> int \<Rightarrow> message \<Rightarrow> outbox \<Rightarrow> outbox_error + outbox" where
  "insert_message jsonb now m ob =
    (if char_count (Topic m) < 1 \<or> 80 < char_count (Topic m) then Inl (PublishFailed ''outbox_messages_topic_check'')
     else if char_count (AggregateType m) < 1 \<or> 60 < char_count (AggregateType m) then Inl (PublishFailed ''outbox_messages_aggregate_type_check'')
     else if ID m \<in> set (map o_id ob) then Inl (PublishFailed ''outbox_messages_pkey'')
     else case jsonb (Payload m) of
       None \<Rightarrow> Inl (PublishFailed ''invalid input syntax for type json'')
     | Some p \<Rightarrow> Inr (ob @ [\<lparr>o_id = ID m, o_topic = Topic m, o_agg_type = AggregateType m, o_agg_id = AggregateID m,
         o_payload = p, o_headers = Headers m, o_created = now, o_available = now, o_locked_at = None, o_locked_by = None,
         o_attempts = 0, o_dispatched = None, o_failed = None, o_last_error = None, o_key = nullIfEmpty (OrderingKey m)\<rparr>]))"

text \<open>\<open>Publish\<close>, given the request id of the context and a fresh identifier.\<close>

definition Publish :: "(string \<Rightarrow> string option) \<Rightarrow> string \<Rightarrow> nat \<Rightarrow> int \<Rightarrow> message \<Rightarrow> outbox \<Rightarrow> outbox_error + nat \<times> outbox" where
  "Publish jsonb rid fresh now m ob =
    (if Topic m = '''' \<or> AggregateType m = '''' \<or> AggregateID m = '''' then Inl FieldsRequired
     else let payload = (if Payload m = '''' then ''{}'' else Payload m);
              i = (if ID m = 0 then fresh else ID m);
              headers = (if rid \<noteq> '''' then set_header ''request_id'' rid (Headers m) else Headers m)
          in bindE (insert_message jsonb now (m\<lparr>ID := i, Payload := payload, Headers := headers\<rparr>) ob) (\<lambda>ob. Inr (i, ob)))"

definition PublishJSON :: "(string \<Rightarrow> string option) \<Rightarrow> ('p \<Rightarrow> outbox_error + string) \<Rightarrow> string \<Rightarrow> nat \<Rightarrow> int
    \<Rightarrow> string \<Rightarrow> string \<Rightarrow> string \<Rightarrow> 'p \<Rightarrow> string \<Rightarrow> outbox \<Rightarrow> outbox_error + nat \<times> outbox" where
  "PublishJSON jsonb marshal rid fresh now topic aggregateType aggregateID payload orderingKey ob =
     bindE (marshal payload) (\<lambda>buf. Publish jsonb rid fresh now
       \<lparr>ID = 0, Topic = topic, AggregateType = aggregateType, AggregateID = aggregateID, Payload = buf, Headers = [],
        Attempts = 0, CreatedAt = 0, OrderingKey = orderingKey\<rparr> ob)"

subsection \<open>The dispatcher\<close>

text \<open>A handler sees the message and the world, and may fail with an error text.\<close>

type_synonym 'w handler = "message \<Rightarrow> 'w \<Rightarrow> string option \<times> 'w"

record 'w dispatcher =
  handlers :: "string \<Rightarrow> 'w handler list"
  workerID :: string
  batchSize :: int
  maxAttempts :: int
  baseBackoff :: int
  maxBackoff :: int

definition NewDispatcher :: "string \<Rightarrow> string \<Rightarrow> int \<Rightarrow> int \<Rightarrow> 'w dispatcher" where
  "NewDispatcher correlation worker batch attempts =
    \<lparr>handlers = (\<lambda>t. []), workerID = (if worker = '''' then correlation else worker),
     batchSize = (if batch \<le> 0 then 100 else batch), maxAttempts = (if attempts \<le> 0 then 12 else attempts),
     baseBackoff = 2000000000, maxBackoff = 600000000000\<rparr>"

definition On :: "string \<Rightarrow> 'w handler \<Rightarrow> 'w dispatcher \<Rightarrow> 'w dispatcher" where
  "On topic h d = d\<lparr>handlers := (handlers d)(topic := handlers d topic @ [h])\<rparr>"

definition lock_timeout :: int where
  "lock_timeout = 300000000000"

definition pending :: "outbox_row \<Rightarrow> bool" where
  "pending r \<longleftrightarrow> o_dispatched r = None \<and> o_failed r = None"

definition unlocked :: "int \<Rightarrow> outbox_row \<Rightarrow> bool" where
  "unlocked now r = (case o_locked_at r of None \<Rightarrow> True | Some t \<Rightarrow> t < now - lock_timeout)"

definition blocked :: "outbox \<Rightarrow> outbox_row \<Rightarrow> bool" where
  "blocked ob m = (\<exists>older \<in> set ob. o_key older \<noteq> None \<and> o_key older = o_key m \<and> pending older \<and> o_id older < o_id m)"

definition claimable :: "int \<Rightarrow> outbox \<Rightarrow> outbox_row \<Rightarrow> bool" where
  "claimable now ob r \<longleftrightarrow> pending r \<and> o_available r \<le> now \<and> unlocked now r \<and> \<not> blocked ob r"

definition claim_less :: "outbox_row \<Rightarrow> outbox_row \<Rightarrow> bool" where
  "claim_less a b = (if o_available a \<noteq> o_available b then o_available a < o_available b else o_id a < o_id b)"

text \<open>The rows another transaction holds are skipped (\<open>SKIP LOCKED\<close>): \<open>held\<close>.\<close>

definition claim_ids :: "int \<Rightarrow> (nat \<Rightarrow> bool) \<Rightarrow> int \<Rightarrow> outbox \<Rightarrow> nat list" where
  "claim_ids limit held now ob = take (nat limit) (map o_id (filter (\<lambda>r. \<not> held (o_id r))
     (stable_sort claim_less (filter (claimable now ob) ob))))"

definition claim_row :: "string \<Rightarrow> int \<Rightarrow> outbox_row \<Rightarrow> outbox_row" where
  "claim_row worker now r = r\<lparr>o_locked_at := Some now, o_locked_by := Some worker, o_attempts := o_attempts r + 1\<rparr>"

definition row_message :: "outbox_row \<Rightarrow> message" where
  "row_message r = \<lparr>ID = o_id r, Topic = o_topic r, AggregateType = o_agg_type r, AggregateID = o_agg_id r, Payload = o_payload r,
     Headers = o_headers r, Attempts = o_attempts r, CreatedAt = o_created r,
     OrderingKey = (case o_key r of None \<Rightarrow> '''' | Some k \<Rightarrow> k)\<rparr>"

definition claim :: "'w dispatcher \<Rightarrow> (nat \<Rightarrow> bool) \<Rightarrow> int \<Rightarrow> outbox \<Rightarrow> message list \<times> outbox" where
  "claim d held now ob =
    (let ids = claim_ids (batchSize d) held now ob;
         ob' = map (\<lambda>r. if o_id r \<in> set ids then claim_row (workerID d) now r else r) ob
     in (map row_message (filter (\<lambda>r. o_id r \<in> set ids) ob'), ob'))"

definition update_row :: "nat \<Rightarrow> (outbox_row \<Rightarrow> outbox_row) \<Rightarrow> outbox \<Rightarrow> outbox" where
  "update_row i f ob = map (\<lambda>r. if o_id r = i then f r else r) ob"

text \<open>The statement may fail (\<open>ok\<close> false); the failure is only logged.\<close>

definition ack :: "bool \<Rightarrow> int \<Rightarrow> message \<Rightarrow> outbox \<Rightarrow> outbox" where
  "ack ok now m ob = (if ok then update_row (ID m) (\<lambda>r. r\<lparr>o_dispatched := Some now, o_locked_at := None, o_locked_by := None\<rparr>) ob else ob)"

fun backoff_loop :: "nat \<Rightarrow> int \<Rightarrow> int \<Rightarrow> int" where
  "backoff_loop 0 mx b = b"
| "backoff_loop (Suc n) mx b = (if b < mx then backoff_loop n mx (b * 2) else b)"

definition backoffFor :: "'w dispatcher \<Rightarrow> int \<Rightarrow> int" where
  "backoffFor d attempt = (let b = backoff_loop (nat (attempt - 1)) (maxBackoff d) (baseBackoff d)
     in if b > maxBackoff d then maxBackoff d else b)"

definition nack :: "'w dispatcher \<Rightarrow> bool \<Rightarrow> int \<Rightarrow> message \<Rightarrow> string \<Rightarrow> outbox \<Rightarrow> outbox" where
  "nack d ok now m cause ob =
    (if \<not> ok then ob
     else if Attempts m \<ge> maxAttempts d
     then update_row (ID m) (\<lambda>r. r\<lparr>o_failed := Some now, o_locked_at := None, o_locked_by := None,
            o_last_error := Some (truncate_to 2000 cause)\<rparr>) ob
     else update_row (ID m) (\<lambda>r. r\<lparr>o_available := now + backoffFor d (Attempts m), o_locked_at := None, o_locked_by := None,
            o_last_error := Some (truncate_to 2000 cause)\<rparr>) ob)"

text \<open>Every handler runs; the first error is kept.\<close>

fun run_handlers :: "'w handler list \<Rightarrow> message \<Rightarrow> string option \<Rightarrow> 'w \<Rightarrow> string option \<times> 'w" where
  "run_handlers [] m firstErr w = (firstErr, w)"
| "run_handlers (h # hs) m firstErr w = (case h m w of (e, w') \<Rightarrow>
     run_handlers hs m (if firstErr = None then e else firstErr) w')"

definition process :: "'w dispatcher \<Rightarrow> bool \<Rightarrow> int \<Rightarrow> message \<Rightarrow> outbox \<times> 'w \<Rightarrow> outbox \<times> 'w" where
  "process d ok now m st = (case st of (ob, w) \<Rightarrow>
     let hs = handlers d (Topic m)
     in if hs = [] then (ack ok now m ob, w)
        else case run_handlers hs m None w of
          (None, w') \<Rightarrow> (ack ok now m ob, w')
        | (Some cause, w') \<Rightarrow> (nack d ok now m cause ob, w'))"

text \<open>
  One tick: the clock and the success of each acknowledgement are given by \<open>clock\<close> and \<open>oks\<close>, by
  position; a claim that fails leaves the table and runs nothing.
\<close>

fun process_all :: "'w dispatcher \<Rightarrow> (nat \<Rightarrow> int) \<Rightarrow> (nat \<Rightarrow> bool) \<Rightarrow> nat \<Rightarrow> message list \<Rightarrow> outbox \<times> 'w \<Rightarrow> outbox \<times> 'w" where
  "process_all d clock oks i [] st = st"
| "process_all d clock oks i (m # ms) st = process_all d clock oks (Suc i) ms (process d (oks i) (clock i) m st)"

definition Tick :: "'w dispatcher \<Rightarrow> string option \<Rightarrow> (nat \<Rightarrow> bool) \<Rightarrow> int \<Rightarrow> (nat \<Rightarrow> int) \<Rightarrow> (nat \<Rightarrow> bool) \<Rightarrow> outbox \<times> 'w
    \<Rightarrow> (string + nat) \<times> outbox \<times> 'w" where
  "Tick d claim_error held now clock oks st = (case claim_error of
     Some e \<Rightarrow> (Inl e, st)
   | None \<Rightarrow> (case claim d held now (fst st) of (claimed, ob) \<Rightarrow>
       if claimed = [] then (Inr 0, ob, snd st)
       else (Inr (length claimed), process_all d clock oks 0 claimed (ob, snd st))))"

definition Pending :: "outbox \<Rightarrow> nat" where
  "Pending ob = length (filter pending ob)"

definition DeadLettered :: "outbox \<Rightarrow> nat" where
  "DeadLettered ob = length (filter (\<lambda>r. o_failed r \<noteq> None) ob)"

definition Replay :: "int \<Rightarrow> nat \<Rightarrow> outbox \<Rightarrow> outbox_error + outbox" where
  "Replay now i ob = (if \<exists>r \<in> set ob. o_id r = i \<and> o_failed r \<noteq> None
     then Inr (map (\<lambda>r. if o_id r = i \<and> o_failed r \<noteq> None
        then r\<lparr>o_failed := None, o_attempts := 0, o_available := now, o_last_error := None\<rparr> else r) ob)
     else Inl (NotDeadLettered i))"

text \<open>\<open>Run\<close>'s wait before the next tick.\<close>

definition poll_interval :: "int \<Rightarrow> int" where
  "poll_interval interval = (if interval \<le> 0 then 1000000000 else interval)"

definition next_wait :: "'w dispatcher \<Rightarrow> int \<Rightarrow> (string + nat) \<Rightarrow> int" where
  "next_wait d interval r = (let n = (case r of Inl e \<Rightarrow> 0 | Inr n \<Rightarrow> int n)
     in if n \<ge> batchSize d then 0 else poll_interval interval)"

subsection \<open>Rows through the operations\<close>

text \<open>Identifiers and ordering keys never change.\<close>

definition shape :: "outbox \<Rightarrow> (nat \<times> string option) list" where
  "shape ob = map (\<lambda>r. (o_id r, o_key r)) ob"

lemma shape_map: "(\<And>r. o_id (f r) = o_id r \<and> o_key (f r) = o_key r) \<Longrightarrow> shape (map f ob) = shape ob"
  by (simp add: shape_def)

lemma shape_ids: "map o_id ob = map fst (shape ob)"
  by (simp add: shape_def comp_def)

lemma shape_update: "(\<And>r. o_id (f r) = o_id r \<and> o_key (f r) = o_key r) \<Longrightarrow> shape (update_row i f ob) = shape ob"
  unfolding update_row_def by (rule shape_map) simp

lemma claim_shape: "shape (snd (claim d held now ob)) = shape ob"
  unfolding claim_def Let_def snd_conv by (rule shape_map) (simp add: claim_row_def)

lemma ack_shape: "shape (ack ok now m ob) = shape ob"
  by (simp add: ack_def shape_update)

lemma nack_shape: "shape (nack d ok now m c ob) = shape ob"
  by (simp add: nack_def shape_update)

lemma process_shape: "shape (fst (process d ok now m (ob, w))) = shape ob"
  by (auto simp: process_def Let_def ack_shape nack_shape split: prod.splits option.splits)

lemma replay_shape: "Replay now i ob = Inr ob' \<Longrightarrow> shape ob' = shape ob"
proof -
  assume "Replay now i ob = Inr ob'"
  then have "ob' = map (\<lambda>r. if o_id r = i \<and> o_failed r \<noteq> None
        then r\<lparr>o_failed := None, o_attempts := 0, o_available := now, o_last_error := None\<rparr> else r) ob"
    by (cases "\<exists>r \<in> set ob. o_id r = i \<and> o_failed r \<noteq> None") (simp_all add: Replay_def del: not_None_eq)
  then show ?thesis by (simp add: shape_map)
qed

lemma publish_shape:
  assumes "Publish jsonb rid fresh now m ob = Inr (i, ob')"
  shows "\<exists>r. ob' = ob @ [r] \<and> o_id r = i \<and> pending r \<and> i \<notin> set (map o_id ob)"
  using assms by (auto simp: Publish_def insert_message_def Let_def pending_def split: if_splits option.splits)

text \<open>A claimed message was claimable.\<close>

lemma set_stable_insert: "set (stable_insert lt x xs) = insert x (set xs)"
  by (induction xs) auto

lemma set_stable_sort: "set (stable_sort lt xs) = set xs"
  by (induction xs) (simp_all add: stable_sort_def set_stable_insert)

lemma length_stable_insert: "length (stable_insert lt x xs) = Suc (length xs)"
  by (induction xs) auto

lemma length_stable_sort: "length (stable_sort lt xs) = length xs"
  by (induction xs) (simp_all add: stable_sort_def length_stable_insert)

lemma claim_ids_claimable:
  assumes "i \<in> set (claim_ids n held now ob)"
  shows "\<exists>r \<in> set ob. o_id r = i \<and> claimable now ob r \<and> \<not> held i"
proof -
  have "i \<in> set (map o_id (filter (\<lambda>r. \<not> held (o_id r)) (stable_sort claim_less (filter (claimable now ob) ob))))"
    using assms unfolding claim_ids_def by (rule in_set_takeD)
  then show ?thesis by (auto simp: set_stable_sort)
qed

lemma claimed_message:
  assumes "distinct (map o_id ob)" and "claim d held now ob = (ms, ob')" and "m \<in> set ms"
  obtains r where "r \<in> set ob" and "claimable now ob r" and "\<not> held (o_id r)" and "m = row_message (claim_row (workerID d) now r)"
proof -
  let ?ids = "claim_ids (batchSize d) held now ob"
  have "ms = map row_message (filter (\<lambda>r. o_id r \<in> set ?ids)
      (map (\<lambda>r. if o_id r \<in> set ?ids then claim_row (workerID d) now r else r) ob))"
    using assms(2) by (auto simp: claim_def Let_def)
  then obtain x where x: "x \<in> set (map (\<lambda>r. if o_id r \<in> set ?ids then claim_row (workerID d) now r else r) ob)"
    "o_id x \<in> set ?ids" "m = row_message x"
    using assms(3) by (auto simp only: set_map set_filter)
  then obtain r where "r \<in> set ob" "x = (if o_id r \<in> set ?ids then claim_row (workerID d) now r else r)"
    by (auto simp only: set_map)
  moreover from this have "o_id r = o_id x" by (simp add: claim_row_def)
  ultimately have r: "r \<in> set ob" "o_id r \<in> set ?ids" "m = row_message (claim_row (workerID d) now r)"
    using x by simp_all
  obtain r' where "r' \<in> set ob" "o_id r' = o_id r" "claimable now ob r'" "\<not> held (o_id r)"
    using claim_ids_claimable [OF r(2)] by blast
  moreover from this r have "r' = r" using assms(1) by (metis distinct_map inj_onD)
  ultimately show ?thesis using that r by blast
qed

lemma row_message_simps [simp]:
  "ID (row_message (claim_row w now r)) = o_id r" "Attempts (row_message (claim_row w now r)) = o_attempts r + 1"
  "Topic (row_message (claim_row w now r)) = o_topic r"
  by (simp_all add: row_message_def claim_row_def)

subsection \<open>Executions\<close>

text \<open>
  Any number of workers claim and process; a worker may crash after a claim, be slower than the
  lock, or fail to record the outcome. \<open>s_log\<close> lists the messages processed, in order. New
  identifiers are larger than those in the table.
\<close>

record 'w system =
  s_ob :: outbox
  s_inflight :: "message list"
  s_world :: 'w
  s_log :: "nat list"

inductive execution :: "'w dispatcher \<Rightarrow> 'w system \<Rightarrow> bool" for d where
  start: "execution d \<lparr>s_ob = [], s_inflight = [], s_world = w, s_log = []\<rparr>"
| publish: "execution d s \<Longrightarrow> Publish jsonb rid fresh now m (s_ob s) = Inr (i, ob') \<Longrightarrow> \<forall>r \<in> set (s_ob s). o_id r < i
    \<Longrightarrow> execution d (s\<lparr>s_ob := ob'\<rparr>)"
| claim: "execution d s \<Longrightarrow> claim (d\<lparr>workerID := worker\<rparr>) held now (s_ob s) = (ms, ob')
    \<Longrightarrow> execution d (s\<lparr>s_ob := ob', s_inflight := s_inflight s @ ms\<rparr>)"
| process: "execution d s \<Longrightarrow> m \<in> set (s_inflight s) \<Longrightarrow> process d ok now m (s_ob s, s_world s) = (ob', w')
    \<Longrightarrow> execution d (s\<lparr>s_ob := ob', s_inflight := remove1 m (s_inflight s), s_world := w', s_log := s_log s @ [ID m]\<rparr>)"
| crash: "execution d s \<Longrightarrow> execution d (s\<lparr>s_inflight := remove1 m (s_inflight s)\<rparr>)"
| replay: "execution d s \<Longrightarrow> Replay now i (s_ob s) = Inr ob' \<Longrightarrow> execution d (s\<lparr>s_ob := ob'\<rparr>)"

definition older :: "outbox \<Rightarrow> nat \<Rightarrow> nat \<Rightarrow> bool" where
  "older ob i j \<longleftrightarrow> i < j \<and> (\<exists>k. (i, Some k) \<in> set (shape ob) \<and> (j, Some k) \<in> set (shape ob))"

definition in_order :: "outbox \<Rightarrow> nat list \<Rightarrow> bool" where
  "in_order ob l \<longleftrightarrow> (\<forall>xs j ys. l = xs @ j # ys \<longrightarrow> j \<notin> set xs \<longrightarrow> (\<forall>i. older ob i j \<longrightarrow> i \<in> set xs))"

definition sys_inv :: "'w system \<Rightarrow> bool" where
  "sys_inv s \<longleftrightarrow> distinct (map o_id (s_ob s))
     \<and> ID ` set (s_inflight s) \<subseteq> set (map o_id (s_ob s)) \<and> set (s_log s) \<subseteq> set (map o_id (s_ob s))
     \<and> (\<forall>r \<in> set (s_ob s). \<not> pending r \<longrightarrow> o_id r \<in> set (s_log s))
     \<and> (\<forall>m \<in> set (s_inflight s). \<forall>i. older (s_ob s) i (ID m) \<longrightarrow> i \<in> set (s_log s))
     \<and> in_order (s_ob s) (s_log s)"

lemma in_order_snoc:
  assumes "in_order ob l" and "\<forall>i. older ob i j \<longrightarrow> i \<in> set l"
  shows "in_order ob (l @ [j])"
  unfolding in_order_def
proof (intro allI impI)
  fix xs j' ys i
  assume e: "l @ [j] = xs @ j' # ys" and n: "j' \<notin> set xs" and o: "older ob i j'"
  show "i \<in> set xs"
  proof (cases ys rule: rev_cases)
    case Nil
    then show ?thesis using e o assms(2) by simp
  next
    case (snoc zs z)
    then have "l = xs @ j' # zs" using e by simp
    then show ?thesis using assms(1) n o unfolding in_order_def by blast
  qed
qed

lemma same_shape:
  assumes "shape ob' = shape ob"
  shows "older ob' = older ob" "map o_id ob' = map o_id ob" "in_order ob' = in_order ob"
  using assms by (simp_all add: older_def shape_ids in_order_def fun_eq_iff)

lemma process_pending:
  assumes "r \<in> set (fst (process d ok now m (ob, w)))" and "\<not> pending r"
  shows "o_id r = ID m \<or> r \<in> set ob"
proof -
  have u: "o_id r = ID m \<or> r \<in> set ob" if "r \<in> set (update_row (ID m) f ob)" "\<And>r. o_id (f r) = o_id r" for f
    using that by (auto simp: update_row_def split: if_splits)
  show ?thesis
    using assms(1) by (auto simp: process_def Let_def ack_def nack_def split: prod.splits option.splits if_splits intro: u dest: u)
qed

lemma claim_pending:
  assumes "r \<in> set (snd (claim d held now ob))" and "\<not> pending r"
  shows "\<exists>r0 \<in> set ob. o_id r0 = o_id r \<and> \<not> pending r0"
proof -
  let ?ids = "claim_ids (batchSize d) held now ob"
  obtain r0 where "r0 \<in> set ob" "r = (if o_id r0 \<in> set ?ids then claim_row (workerID d) now r0 else r0)"
    using assms(1) unfolding claim_def Let_def snd_conv set_map by blast
  then show ?thesis using assms(2) by (intro bexI [of _ r0]) (auto simp: pending_def claim_row_def split: if_splits)
qed

lemma replay_pending:
  assumes "Replay now i ob = Inr ob'" and "r \<in> set ob'" and "\<not> pending r"
  shows "\<exists>r0 \<in> set ob. o_id r0 = o_id r \<and> \<not> pending r0"
proof -
  have "ob' = map (\<lambda>r. if o_id r = i \<and> o_failed r \<noteq> None
        then r\<lparr>o_failed := None, o_attempts := 0, o_available := now, o_last_error := None\<rparr> else r) ob"
    using assms(1) by (cases "\<exists>r \<in> set ob. o_id r = i \<and> o_failed r \<noteq> None") (simp_all add: Replay_def del: not_None_eq)
  then obtain r0 where "r0 \<in> set ob" "r = (if o_id r0 = i \<and> o_failed r0 \<noteq> None
        then r0\<lparr>o_failed := None, o_attempts := 0, o_available := now, o_last_error := None\<rparr> else r0)"
    using assms(2) by (auto simp only: set_map)
  then show ?thesis using assms(3) by (intro bexI [of _ r0]) (auto simp: pending_def split: if_splits)
qed

lemma shape_in: "(i, k) \<in> set (shape ob) \<Longrightarrow> \<exists>a \<in> set ob. o_id a = i \<and> o_key a = k"
  by (auto simp: shape_def)

lemma claim_older:
  assumes d: "distinct (map o_id ob)" and c: "claim d held now ob = (ms, ob')" and m: "m \<in> set ms" and o: "older ob i (ID m)"
  shows "\<exists>r \<in> set ob. o_id r = i \<and> \<not> pending r"
proof -
  obtain r where r: "r \<in> set ob" "claimable now ob r" "m = row_message (claim_row (workerID d) now r)"
    using claimed_message [OF d c m] by blast
  obtain k a b where a: "a \<in> set ob" "o_id a = i" "o_key a = Some k" and b: "b \<in> set ob" "o_id b = ID m" "o_key b = Some k" and lt: "i < ID m"
  proof -
    obtain k where k: "(i, Some k) \<in> set (shape ob)" "(ID m, Some k) \<in> set (shape ob)" "i < ID m" using o by (auto simp: older_def)
    from shape_in [OF k(1)] shape_in [OF k(2)] that k(3) show ?thesis by blast
  qed
  have "b = r" using d b r by (metis distinct_map inj_onD row_message_simps(1))
  then show ?thesis using r a b lt by (auto simp: claimable_def blocked_def)
qed

lemma claim_ids_in: "distinct (map o_id ob) \<Longrightarrow> claim d held now ob = (ms, ob') \<Longrightarrow> m \<in> set ms \<Longrightarrow> ID m \<in> set (map o_id ob)"
  by (erule (2) claimed_message) auto

lemma sys_invI:
  assumes "sys_inv s" and "shape ob' = shape (s_ob s)"
    and "\<And>r. r \<in> set ob' \<Longrightarrow> \<not> pending r \<Longrightarrow> o_id r \<in> set l"
    and "set l \<subseteq> set (map o_id (s_ob s))" and "set (s_log s) \<subseteq> set l" and "in_order (s_ob s) l"
    and "\<And>m. m \<in> set fl \<Longrightarrow> m \<in> set (s_inflight s) \<or> (ID m \<in> set (map o_id (s_ob s)) \<and> (\<forall>i. older (s_ob s) i (ID m) \<longrightarrow> i \<in> set l))"
  shows "sys_inv \<lparr>s_ob = ob', s_inflight = fl, s_world = w, s_log = l\<rparr>"
  using assms unfolding sys_inv_def same_shape [OF assms(2)] system.simps by blast

lemma execution_inv: "execution d s \<Longrightarrow> sys_inv s"
proof (induction rule: execution.induct)
  case (start w)
  show ?case by (simp add: sys_inv_def in_order_def)
next
  case (publish s jsonb rid fresh now m i ob')
  obtain r where r: "ob' = s_ob s @ [r]" "o_id r = i" "pending r" using publish_shape [OF publish(2)] by blast
  have new: "older ob' a b \<longleftrightarrow> older (s_ob s) a b" if "b \<in> set (map o_id (s_ob s))" for a b
    using that publish(3) r by (fastforce simp: older_def shape_def)
  have l: "set (s_log s) \<subseteq> set (map o_id (s_ob s))" using publish(4) by (simp add: sys_inv_def)
  have "in_order ob' (s_log s)"
    unfolding in_order_def
  proof (intro allI impI)
    fix xs j ys a assume e: "s_log s = xs @ j # ys" and n: "j \<notin> set xs" and o: "older ob' a j"
    then have "older (s_ob s) a j" using new l by auto
    then show "a \<in> set xs" using e n publish(4) by (simp add: sys_inv_def in_order_def)
  qed
  moreover have "i \<notin> set (map o_id (s_ob s))" using publish(3) by auto
  moreover have "\<forall>m \<in> set (s_inflight s). \<forall>a. older ob' a (ID m) \<longrightarrow> a \<in> set (s_log s)"
    using publish(4) new by (auto simp: sys_inv_def)
  ultimately show ?case using publish(4) r l by (auto simp: sys_inv_def)
next
  case (claim s worker held now ms ob')
  let ?d = "d\<lparr>workerID := worker\<rparr>"
  have inv: "sys_inv s" and ob': "ob' = snd (claim ?d held now (s_ob s))" using claim by simp_all
  have d: "distinct (map o_id (s_ob s))" using inv by (simp add: sys_inv_def)
  have p: "o_id r \<in> set (s_log s)" if "r \<in> set (s_ob s)" "\<not> pending r" for r using inv that by (simp add: sys_inv_def)
  have "sys_inv \<lparr>s_ob = ob', s_inflight = s_inflight s @ ms, s_world = s_world s, s_log = s_log s\<rparr>"
  proof (rule sys_invI [OF inv])
    show "shape ob' = shape (s_ob s)" by (simp add: ob' claim_shape)
    show "o_id r \<in> set (s_log s)" if "r \<in> set ob'" "\<not> pending r" for r using that claim_pending [of r ?d held now "s_ob s"] p unfolding ob' by metis
    show "m \<in> set (s_inflight s) \<or> (ID m \<in> set (map o_id (s_ob s)) \<and> (\<forall>i. older (s_ob s) i (ID m) \<longrightarrow> i \<in> set (s_log s)))"
      if "m \<in> set (s_inflight s @ ms)" for m
      using that claim_older [OF d claim(2)] claim_ids_in [OF d claim(2)] p by fastforce
  qed (use inv in \<open>simp_all add: sys_inv_def\<close>)
  then show ?case by (cases s) simp
next
  case (process s m ok now ob' w')
  have ob': "ob' = fst (process d ok now m (s_ob s, s_world s))" using process by simp
  have old: "\<forall>i. older (s_ob s) i (ID m) \<longrightarrow> i \<in> set (s_log s)" and inv: "sys_inv s"
    using process by (simp_all add: sys_inv_def)
  have "sys_inv \<lparr>s_ob = ob', s_inflight = remove1 m (s_inflight s), s_world = w', s_log = s_log s @ [ID m]\<rparr>"
  proof (rule sys_invI [OF inv])
    show "shape ob' = shape (s_ob s)" by (simp add: ob' process_shape)
    show "o_id r \<in> set (s_log s @ [ID m])" if "r \<in> set ob'" "\<not> pending r" for r
      using that process_pending [of r d ok now m "s_ob s" "s_world s"] inv unfolding ob' sys_inv_def by auto
    show "in_order (s_ob s) (s_log s @ [ID m])" using inv old by (simp add: in_order_snoc sys_inv_def)
    show "x \<in> set (s_inflight s) \<or> (ID x \<in> set (map o_id (s_ob s)) \<and> (\<forall>i. older (s_ob s) i (ID x) \<longrightarrow> i \<in> set (s_log s @ [ID m])))"
      if "x \<in> set (remove1 m (s_inflight s))" for x using that notin_set_remove1 by fastforce
  qed (use inv process(2) in \<open>auto simp: sys_inv_def\<close>)
  then show ?case by (cases s) simp
next
  case (crash s m)
  then show ?case unfolding sys_inv_def using notin_set_remove1 by fastforce
next
  case (replay s now i ob')
  have inv: "sys_inv s" by fact
  have "sys_inv \<lparr>s_ob = ob', s_inflight = s_inflight s, s_world = s_world s, s_log = s_log s\<rparr>"
  proof (rule sys_invI [OF inv])
    show "shape ob' = shape (s_ob s)" by (rule replay_shape [OF replay(2)])
    show "o_id r \<in> set (s_log s)" if "r \<in> set ob'" "\<not> pending r" for r
      using replay_pending [OF replay(2) that] inv unfolding sys_inv_def by metis
  qed (use inv in \<open>simp_all add: sys_inv_def\<close>)
  then show ?case by (cases s) simp
qed

subsection \<open>Properties\<close>


definition demo_message :: "nat \<Rightarrow> message" where
  "demo_message i = \<lparr>ID = i, Topic = ''t'', AggregateType = ''o'', AggregateID = ''1'', Payload = ''{}'', Headers = [],
     Attempts = 0, CreatedAt = 0, OrderingKey = ''k''\<rparr>"

definition demo_dispatcher :: "unit dispatcher" where
  "demo_dispatcher = NewDispatcher ''c'' ''w'' 1 0"

definition demo_row :: "nat \<Rightarrow> outbox_row" where
  "demo_row i = \<lparr>o_id = i, o_topic = ''t'', o_agg_type = ''o'', o_agg_id = ''1'', o_payload = ''{}'', o_headers = [], o_created = 0,
     o_available = 0, o_locked_at = None, o_locked_by = None, o_attempts = 0, o_dispatched = None, o_failed = None,
     o_last_error = None, o_key = Some ''k''\<rparr>"

definition demo_done :: "nat \<Rightarrow> outbox_row" where
  "demo_done i = (demo_row i)\<lparr>o_attempts := 1, o_dispatched := Some 2\<rparr>"

lemmas demo_defs = demo_message_def demo_dispatcher_def demo_row_def demo_done_def NewDispatcher_def Publish_def insert_message_def
  nullIfEmpty_def claim_def claim_ids_def claimable_def pending_def unlocked_def blocked_def stable_sort_def claim_less_def
  claim_row_def row_message_def process_def ack_def update_row_def char_count_def Let_def

lemma demo_publish:
  "Publish Some '''' 0 0 (demo_message 3) [] = Inr (3, [demo_row 3])"
  "Publish Some '''' 0 0 (demo_message 4) [demo_row 3] = Inr (4, [demo_row 3, demo_row 4])"
  by (simp_all add: demo_defs)

lemma demo_claims:
  "claim (demo_dispatcher\<lparr>workerID := ''w''\<rparr>) (\<lambda>i. False) 1 [demo_row 3, demo_row 4]
    = ([(demo_message 3)\<lparr>Attempts := 1\<rparr>], [claim_row ''w'' 1 (demo_row 3), demo_row 4])"
  "claim (demo_dispatcher\<lparr>workerID := ''w''\<rparr>) (\<lambda>i. False) 1 [demo_done 3, demo_row 4]
    = ([(demo_message 4)\<lparr>Attempts := 1\<rparr>], [demo_done 3, claim_row ''w'' 1 (demo_row 4)])"
  by (simp_all add: demo_defs)

lemma demo_process:
  "process demo_dispatcher True 2 ((demo_message 3)\<lparr>Attempts := 1\<rparr>) ([claim_row ''w'' 1 (demo_row 3), demo_row 4], ())
    = ([demo_done 3, demo_row 4], ())"
  "process demo_dispatcher True 2 ((demo_message 4)\<lparr>Attempts := 1\<rparr>) ([demo_done 3, claim_row ''w'' 1 (demo_row 4)], ())
    = ([demo_done 3, demo_done 4], ())"
  by (simp_all add: demo_defs)

lemma demo_execution:
  "execution demo_dispatcher \<lparr>s_ob = [demo_done 3, demo_done 4], s_inflight = [], s_world = (), s_log = [3, 4]\<rparr>"
proof -
  let ?D = demo_dispatcher and ?m = "\<lambda>i. (demo_message i)\<lparr>Attempts := 1\<rparr>"
  have n: "ID (?m i) = i" "o_id (demo_row i) = i" for i by (simp_all add: demo_message_def demo_row_def)
  have 1: "execution ?D \<lparr>s_ob = [demo_row 3], s_inflight = [], s_world = (), s_log = []\<rparr>"
    using execution.publish [OF execution.start [of ?D "()"], of Some "''''" 0 0 "demo_message 3" 3 "[demo_row 3]"] demo_publish(1) by simp
  have 2: "execution ?D \<lparr>s_ob = [demo_row 3, demo_row 4], s_inflight = [], s_world = (), s_log = []\<rparr>"
    using execution.publish [OF 1, of Some "''''" 0 0 "demo_message 4" 4 "[demo_row 3, demo_row 4]"] demo_publish(2) n by simp
  have 3: "execution ?D \<lparr>s_ob = [claim_row ''w'' 1 (demo_row 3), demo_row 4], s_inflight = [?m 3], s_world = (), s_log = []\<rparr>"
    using execution.claim [OF 2, of "''w''" "\<lambda>i. False" 1] demo_claims(1) by simp
  have 4: "execution ?D \<lparr>s_ob = [demo_done 3, demo_row 4], s_inflight = [], s_world = (), s_log = [3]\<rparr>"
    using execution.process [OF 3, of "?m 3" True 2] demo_process(1) n by simp
  have 5: "execution ?D \<lparr>s_ob = [demo_done 3, claim_row ''w'' 1 (demo_row 4)], s_inflight = [?m 4], s_world = (), s_log = [3]\<rparr>"
    using execution.claim [OF 4, of "''w''" "\<lambda>i. False" 1] demo_claims(2) by simp
  show ?thesis using execution.process [OF 5, of "?m 4" True 2] demo_process(2) n by simp
qed


text \<open>The errors of all handlers, in order, and the world they leave.\<close>

fun handler_errors :: "'w handler list \<Rightarrow> message \<Rightarrow> 'w \<Rightarrow> string list \<times> 'w" where
  "handler_errors [] m w = ([], w)"
| "handler_errors (h # hs) m w = (case h m w of (e, w1) \<Rightarrow> case handler_errors hs m w1 of (es, w2) \<Rightarrow>
     ((case e of None \<Rightarrow> es | Some x \<Rightarrow> x # es), w2))"

lemma run_handlers_errors:
  "run_handlers hs m first w = (case handler_errors hs m w of (es, w') \<Rightarrow>
     (case first of Some x \<Rightarrow> Some x | None \<Rightarrow> (case es of [] \<Rightarrow> None | x # _ \<Rightarrow> Some x), w'))"
proof (induction hs arbitrary: first w)
  case Nil
  then show ?case by (simp split: option.split)
next
  case (Cons h hs)
  obtain e w1 where h: "h m w = (e, w1)" by (cases "h m w")
  obtain es w2 where r: "handler_errors hs m w1 = (es, w2)" by (cases "handler_errors hs m w1")
  show ?case by (cases first; cases e) (simp_all add: h r Cons.IH)
qed

lemma find_update_row:
  assumes "distinct (map o_id ob)" and "r \<in> set ob" and "o_id r = i"
  shows "update_row i f ob = map (\<lambda>x. if x = r then f r else x) ob"
proof -
  have inj: "inj_on o_id (set ob)" using assms(1) by (simp add: distinct_map)
  have "(if o_id x = i then f x else x) = (if x = r then f r else x)" if x: "x \<in> set ob" for x
  proof (cases "o_id x = i")
    case True
    then have "o_id x = o_id r" by (simp only: assms(3))
    then have "x = r" by (rule inj_onD [OF inj _ x assms(2)])
    then show ?thesis using assms(3) by simp
  next
    case False
    then show ?thesis using assms(3) by (cases "x = r") simp_all
  qed
  then show ?thesis unfolding update_row_def by (intro map_cong refl)
qed

text \<open>C37: processing a message runs every handler of its topic once, in registration order, whatever the earlier ones
  returned. Its row is marked dispatched exactly when none failed; after a failure it is rescheduled
  at now plus the backoff while attempts remain, and becomes a dead letter with the first error
  otherwise. No other row changes.\<close>

theorem settle:
  assumes "distinct (map o_id ob)" and "r \<in> set ob" and "o_id r = ID m" and "handler_errors (handlers d (Topic m)) m w = (errs, w')"
  shows "process d True now m (ob, w) = (map (\<lambda>x. if x = r then
      (case errs of
        [] \<Rightarrow> r\<lparr>o_dispatched := Some now, o_locked_at := None, o_locked_by := None\<rparr>
      | e # es \<Rightarrow> if Attempts m < maxAttempts d
          then r\<lparr>o_available := now + backoffFor d (Attempts m), o_locked_at := None, o_locked_by := None,
                 o_last_error := Some (truncate_to 2000 e)\<rparr>
          else r\<lparr>o_failed := Some now, o_locked_at := None, o_locked_by := None, o_last_error := Some (truncate_to 2000 e)\<rparr>)
      else x) ob, w')"
proof -
  note u = find_update_row [OF assms(1-3)]
  show ?thesis
  proof (cases "handlers d (Topic m) = []")
    case True
    then show ?thesis using assms(4) by (simp add: process_def ack_def u)
  next
    case False
    then show ?thesis
      using assms(4) by (auto simp: process_def Let_def run_handlers_errors ack_def nack_def u split: list.splits)
  qed
qed

lemma settle_witness:
  "process (On ''t'' (\<lambda>m w. (Some ''e'', w + 1)) (On ''t'' (\<lambda>m w. (None, w * 2)) (NewDispatcher ''c'' ''w'' 1 0)))
     True 7 (demo_message 3) ([demo_row 3], 4::int)
   = ([(demo_row 3)\<lparr>o_available := 2000000007, o_last_error := Some ''e''\<rparr>], 9)"
  using settle [of "[demo_row 3]" "demo_row 3" "demo_message 3"
      "On ''t'' (\<lambda>m w. (Some ''e'', w + 1)) (On ''t'' (\<lambda>m w. (None, w * 2)) (NewDispatcher ''c'' ''w'' 1 0))" "4::int" "[''e'']" 9 7]
  by (simp add: On_def NewDispatcher_def demo_message_def demo_row_def backoffFor_def truncate_to_def)

lemma pending_unblocked:
  assumes "r \<in> set ob" and "pending r"
  shows "\<exists>q \<in> set ob. pending q \<and> \<not> blocked ob q"
  using assms
proof (induction "o_id r" arbitrary: r rule: less_induct)
  case less
  show ?case
  proof (cases "blocked ob r")
    case True
    then obtain q where "q \<in> set ob" "pending q" "o_id q < o_id r" by (auto simp: blocked_def)
    then show ?thesis using less.hyps by blast
  next
    case False
    then show ?thesis using less.prems by blast
  qed
qed



lemma backoff_loop_le: "b \<le> mx \<Longrightarrow> 0 < b \<Longrightarrow> min mx (backoff_loop n mx b) = min mx (b * 2 ^ n)"
proof (induction n arbitrary: b)
  case (Suc n)
  show ?case
  proof (cases "b < mx")
    case True
    show ?thesis
    proof (cases "b * 2 \<le> mx")
      case True
      then show ?thesis using Suc.IH [of "b * 2"] Suc.prems \<open>b < mx\<close> by (simp add: mult.assoc)
    next
      case False
      have m: "b * 2 \<le> backoff_loop n mx (b * 2)"
        using Suc.prems False by (cases n) simp_all
      have "b * 2 * 1 \<le> b * 2 * 2 ^ n" using Suc.prems(2) by (intro mult_left_mono) simp_all
      then have "mx \<le> b * 2 ^ Suc n" using False by (simp add: mult.assoc)
      moreover have "mx \<le> backoff_loop (Suc n) mx b" using m False \<open>b < mx\<close> by simp
      ultimately show ?thesis by linarith
    qed
  next
    case False
    have "(1::int) \<le> 2 ^ Suc n" by (rule one_le_power) simp
    then have "mx * 1 \<le> mx * 2 ^ Suc n" using Suc.prems by (intro mult_left_mono) simp_all
    then show ?thesis using False Suc.prems by (simp add: min_def)
  qed
qed simp

text \<open>the delay after the n-th failed attempt is two seconds doubled n - 1 times, capped at ten minutes.\<close>

theorem backoff_schedule:
  assumes "1 \<le> attempt"
  shows "backoffFor (NewDispatcher correlation worker batch attempts) attempt = min 600000000000 (2000000000 * 2 ^ nat (attempt - 1))"
  using backoff_loop_le [of 2000000000 600000000000 "nat (attempt - 1)"]
  by (auto simp: backoffFor_def NewDispatcher_def Let_def min_def split: if_splits)

lemma backoff_schedule_witness: "backoffFor (NewDispatcher ''c'' ''w'' 0 0) 12 = 600000000000"
  using backoff_schedule [of 12 "''c''" "''w''" 0 0] by simp

text \<open>
  A dead letter does not hold back the younger messages of its key, and a replay puts it behind
  those that were delivered meanwhile: after a replay the order of repeated deliveries is lost.
\<close>

lemma dead_letter_overtaken:
  "\<not> blocked [(demo_row 3)\<lparr>o_failed := Some 5\<rparr>, demo_row 4] (demo_row 4)"
  by (simp add: blocked_def pending_def demo_row_def)

end
