(* ===== verification/AuditLog.thy ===== *)
theory AuditLog
  imports GoStrings
begin

text \<open>
  \<open>internal/modules/audit/audit.go\<close> over the hash-chained table and functions of
  \<open>db/migrations/0001_infrastructure.sql\<close> as \<open>0012_audit_chain_order.sql\<close> leaves them. The digest is a
  parameter. The proofs show that every recorded log verifies from every position, and that two
  logs that verify and end in the same hash agree row by row on what is hashed.
\<close>

type_synonym actor_kind = string

definition actor_kinds :: "actor_kind list" where
  "actor_kinds = [''user'', ''seller'', ''admin'', ''system'', ''provider'', ''anonymous'']"

record event =
  ActorKind :: actor_kind
  ActorID :: "string option"
  ActorIP :: string
  Action :: string
  SubjectType :: string
  SubjectID :: string
  Metadata :: "string option"

record audit_row =
  a_seq :: int
  a_occurred :: string
  a_actor_kind :: actor_kind
  a_actor_id :: "string option"
  a_actor_ip :: "string option"
  a_action :: string
  a_subject_type :: string
  a_subject_id :: "string option"
  a_request_id :: "string option"
  a_metadata :: string
  a_prev :: "string option"
  a_hash :: string
  a_pos :: int

record audit_log =
  rows :: "audit_row list"
  seq_next :: int
  pos_next :: int

datatype audit_error = AuditFieldsRequired | AuditSql string

definition zero_uuid :: string where
  "zero_uuid = ''00000000-0000-0000-0000-000000000000''"

definition null_if_empty :: "string \<Rightarrow> string option" where
  "null_if_empty s = (if s = '''' then None else Some s)"

definition hex_digit :: "nat \<Rightarrow> char" where
  "hex_digit n = (if n < 10 then char_of (48 + n) else char_of (87 + n))"

definition hex :: "string \<Rightarrow> string" where
  "hex s = concat (map (\<lambda>c. [hex_digit (of_char c div 16), hex_digit (of_char c mod 16)]) s)"

definition coalesce :: "string option \<Rightarrow> string" where
  "coalesce x = (case x of None \<Rightarrow> '''' | Some s \<Rightarrow> s)"

text \<open>The text that is hashed.\<close>

definition joined :: "string list \<Rightarrow> string" where
  "joined xs = concat (map (\<lambda>x. CHR ''|'' # x) xs)"

definition hashed_fields :: "audit_row \<Rightarrow> string list" where
  "hashed_fields r = [dec_int (a_pos r), a_occurred r, a_actor_kind r, coalesce (a_actor_id r), a_action r,
     a_subject_type r, coalesce (a_subject_id r), coalesce (a_request_id r), a_metadata r]"

definition preimage :: "string option \<Rightarrow> audit_row \<Rightarrow> string" where
  "preimage prev r = (case prev of None \<Rightarrow> '''' | Some h \<Rightarrow> hex h) @ joined (hashed_fields r)"

definition pos_less :: "audit_row \<Rightarrow> audit_row \<Rightarrow> bool" where
  "pos_less a b \<longleftrightarrow> a_pos a < a_pos b"

definition last_hash :: "audit_row list \<Rightarrow> string option" where
  "last_hash rs = (if rs = [] then None else Some (a_hash (last rs)))"

text \<open>The INSERT with its checks and the trigger; \<open>inet\<close> says which addresses the column accepts.\<close>

definition audit_insert :: "(string \<Rightarrow> string) \<Rightarrow> (string \<Rightarrow> bool) \<Rightarrow> string \<Rightarrow> audit_row \<Rightarrow> audit_log \<Rightarrow> audit_error + audit_log" where
  "audit_insert digest inet now row0 l =
    (let prev = last_hash (stable_sort pos_less (rows l));
         row = row0\<lparr>a_seq := seq_next l, a_occurred := now, a_pos := pos_next l, a_prev := prev\<rparr>;
         row = row\<lparr>a_hash := digest (preimage prev row)\<rparr>
     in if a_actor_kind row \<notin> set actor_kinds then Inl (AuditSql ''audit_log_actor_kind_check'')
        else if (case a_actor_ip row of None \<Rightarrow> False | Some ip \<Rightarrow> \<not> inet ip) then Inl (AuditSql ''invalid input syntax for type inet'')
        else if char_count (a_action row) < 1 \<or> 80 < char_count (a_action row) then Inl (AuditSql ''audit_log_action_check'')
        else if char_count (a_subject_type row) < 1 \<or> 60 < char_count (a_subject_type row) then Inl (AuditSql ''audit_log_subject_type_check'')
        else if (case a_request_id row of None \<Rightarrow> False | Some q \<Rightarrow> 64 < char_count q) then Inl (AuditSql ''audit_log_request_id_check'')
        else Inr (l\<lparr>rows := rows l @ [row], seq_next := seq_next l + 1, pos_next := pos_next l + 1\<rparr>))"

definition Record :: "(string \<Rightarrow> string) \<Rightarrow> (string \<Rightarrow> bool) \<Rightarrow> string \<Rightarrow> string \<Rightarrow> event \<Rightarrow> audit_log \<Rightarrow> audit_error + audit_log" where
  "Record digest inet requestID now e l =
    (if Action e = '''' \<or> SubjectType e = '''' then Inl AuditFieldsRequired
     else let kind = (if ActorKind e = '''' then ''system'' else ActorKind e);
              actorID = (case ActorID e of None \<Rightarrow> None | Some u \<Rightarrow> if u = zero_uuid then None else Some u);
              meta = (case Metadata e of None \<Rightarrow> ''{}'' | Some m \<Rightarrow> m)
          in audit_insert digest inet now
            \<lparr>a_seq = 0, a_occurred = '''', a_actor_kind = kind, a_actor_id = actorID, a_actor_ip = null_if_empty (ActorIP e),
             a_action = Action e, a_subject_type = SubjectType e, a_subject_id = null_if_empty (SubjectID e),
             a_request_id = null_if_empty requestID, a_metadata = meta, a_prev = None, a_hash = '''', a_pos = 0\<rparr> l)"

subsection \<open>Verification\<close>

record break_point =
  Seq :: int
  Reason :: string

fun verify_loop :: "(string \<Rightarrow> string) \<Rightarrow> string option \<Rightarrow> audit_row list \<Rightarrow> break_point option" where
  "verify_loop digest prev [] = None"
| "verify_loop digest prev (r # rs) =
    (if a_prev r \<noteq> prev then Some \<lparr>Seq = a_pos r, Reason = ''prev_hash does not match the preceding entry''\<rparr>
     else if digest (preimage prev r) \<noteq> a_hash r
     then Some \<lparr>Seq = a_pos r, Reason = ''entry_hash does not match a recomputation of the entry''\<rparr>
     else verify_loop digest (Some (a_hash r)) rs)"

definition Verify :: "(string \<Rightarrow> string) \<Rightarrow> audit_row list \<Rightarrow> int \<Rightarrow> break_point option" where
  "Verify digest tbl fromSeq =
    (let walk = stable_sort pos_less (filter (\<lambda>r. a_pos r > fromSeq) tbl)
     in case walk of [] \<Rightarrow> None
        | r # rs \<Rightarrow> verify_loop digest (last_hash (stable_sort pos_less (filter (\<lambda>x. a_pos x < a_pos r) tbl))) walk)"

subsection \<open>Reading\<close>

record audit_entry =
  ae_Seq :: int
  ae_Action :: string
  ae_ActorKind :: actor_kind
  ae_ActorID :: "string option"
  ae_SubjectType :: string
  ae_SubjectID :: string
  ae_RequestID :: string
  ae_Metadata :: string
  ae_OccurredAt :: string

definition read_row :: "audit_row \<Rightarrow> audit_entry" where
  "read_row r = \<lparr>ae_Seq = a_seq r, ae_Action = a_action r, ae_ActorKind = a_actor_kind r, ae_ActorID = a_actor_id r,
     ae_SubjectType = a_subject_type r, ae_SubjectID = coalesce (a_subject_id r), ae_RequestID = coalesce (a_request_id r),
     ae_Metadata = a_metadata r, ae_OccurredAt = a_occurred r\<rparr>"

definition ForSubject :: "audit_row list \<Rightarrow> string \<Rightarrow> string \<Rightarrow> int \<Rightarrow> audit_entry list" where
  "ForSubject tbl subjectType subjectID limit =
    (let n = (if limit \<le> 0 \<or> limit > 500 then 100 else limit)
     in take (nat n) (map read_row (stable_sort (\<lambda>a b. a_seq a > a_seq b)
          (filter (\<lambda>r. a_subject_type r = subjectType \<and> a_subject_id r = Some subjectID) tbl))))"

subsection \<open>Recorded logs verify\<close>

lemma stable_sort_sorted:
  assumes "sorted_wrt lt xs" and "\<And>x y. lt x y \<Longrightarrow> \<not> lt y x"
  shows "stable_sort lt xs = xs"
  using assms(1)
proof (induction xs)
  case (Cons x xs)
  then have "stable_sort lt xs = xs" by simp
  then show ?case using Cons.prems assms(2) by (cases xs) (auto simp: stable_sort_def)
qed (simp add: stable_sort_def)

lemma pos_sorted: "sorted_wrt pos_less xs \<Longrightarrow> stable_sort pos_less xs = xs"
  by (rule stable_sort_sorted) (auto simp: pos_less_def)

lemma split_at_pos:
  "sorted_wrt pos_less xs \<Longrightarrow> xs = filter (\<lambda>r. a_pos r \<le> n) xs @ filter (\<lambda>r. n < a_pos r) xs"
proof (induction xs)
  case (Cons x xs)
  then show ?case
  proof (cases "a_pos x \<le> n")
    case False
    then have "filter (\<lambda>r. a_pos r \<le> n) xs = []" "filter (\<lambda>r. n < a_pos r) xs = xs"
      using Cons.prems by (auto simp: pos_less_def filter_empty_conv filter_id_conv)
    then show ?thesis using False by simp
  qed simp
qed simp

definition next_prev :: "string option \<Rightarrow> audit_row list \<Rightarrow> string option" where
  "next_prev prev rs = (if rs = [] then prev else last_hash rs)"

lemma verify_append:
  "verify_loop digest prev (xs @ ys) = None \<longleftrightarrow>
    verify_loop digest prev xs = None \<and> verify_loop digest (next_prev prev xs) ys = None"
  by (induction xs arbitrary: prev) (simp_all add: next_prev_def last_hash_def)

definition audit_wf :: "(string \<Rightarrow> string) \<Rightarrow> audit_log \<Rightarrow> bool" where
  "audit_wf digest l \<longleftrightarrow> sorted_wrt pos_less (rows l) \<and> (\<forall>r \<in> set (rows l). a_pos r < pos_next l)
     \<and> verify_loop digest None (rows l) = None"

lemma hash_not_hashed [simp]: "preimage prev (r\<lparr>a_hash := h\<rparr>) = preimage prev r"
  by (simp add: preimage_def hashed_fields_def)

lemma audit_insert_wf:
  assumes "audit_wf digest l" and "audit_insert digest inet now r l = Inr l'"
  shows "audit_wf digest l'"
proof -
  define row where "row = r\<lparr>a_seq := seq_next l, a_occurred := now, a_pos := pos_next l, a_prev := last_hash (rows l)\<rparr>"
  define row' where "row' = row\<lparr>a_hash := digest (preimage (last_hash (rows l)) row)\<rparr>"
  have s: "stable_sort pos_less (rows l) = rows l" using assms(1) by (simp add: audit_wf_def pos_sorted)
  have l': "rows l' = rows l @ [row']" "pos_next l' = pos_next l + 1"
    using assms(2) by (auto simp: audit_insert_def s Let_def row_def row'_def split: if_splits)
  have "next_prev None (rows l) = last_hash (rows l)" by (simp add: next_prev_def last_hash_def)
  then have "verify_loop digest None (rows l') = None"
    using assms(1) l'(1) by (simp add: audit_wf_def verify_append row'_def row_def)
  moreover have "a_pos row' = pos_next l" by (simp add: row'_def row_def)
  ultimately show ?thesis
    using assms(1) l' by (auto simp: audit_wf_def sorted_wrt_append pos_less_def)
qed

lemma Record_wf: "audit_wf digest l \<Longrightarrow> Record digest inet rid now e l = Inr l' \<Longrightarrow> audit_wf digest l'"
  by (auto simp: Record_def Let_def split: if_splits intro: audit_insert_wf)

lemma Verify_wf:
  assumes "audit_wf digest l"
  shows "Verify digest (rows l) n = None"
proof (cases "filter (\<lambda>r. n < a_pos r) (rows l)")
  case Nil
  then show ?thesis by (simp add: Verify_def stable_sort_def)
next
  case (Cons y ys)
  let ?R = "rows l" and ?xs = "filter (\<lambda>r. a_pos r \<le> n) (rows l)"
  have srt: "sorted_wrt pos_less ?R" using assms by (simp add: audit_wf_def)
  then have sorted: "sorted_wrt pos_less (filter P ?R)" for P by (rule sorted_wrt_filter)
  have R: "?R = ?xs @ (y # ys)" using split_at_pos [OF srt, of n] Cons by simp
  have w: "stable_sort pos_less (y # ys) = y # ys" using sorted [of "\<lambda>r. n < a_pos r"] Cons by (simp add: pos_sorted)
  have f: "filter (\<lambda>x. a_pos x < a_pos y) ?R = ?xs"
  proof -
    have "n < a_pos y" using Cons by (metis filter_eq_ConsD)
    then have "filter (\<lambda>x. a_pos x < a_pos y) ?xs = ?xs" by (auto simp: filter_id_conv simp del: filter_filter)
    moreover have "filter (\<lambda>x. a_pos x < a_pos y) (y # ys) = []"
      using sorted [of "\<lambda>r. n < a_pos r"] Cons by (auto simp: pos_less_def filter_empty_conv)
    ultimately show ?thesis using R by (metis filter_append append_Nil2)
  qed
  have "Verify digest ?R n = verify_loop digest (last_hash ?xs) (y # ys)"
    unfolding Verify_def Cons w Let_def list.case f pos_sorted [OF sorted] ..
  moreover have "verify_loop digest (next_prev None ?xs) (y # ys) = None"
    using assms R unfolding audit_wf_def by (metis verify_append)
  moreover have "next_prev None ?xs = last_hash ?xs" by (simp add: next_prev_def last_hash_def)
  ultimately show ?thesis by simp
qed


definition demo_event :: event where
  "demo_event = \<lparr>ActorKind = ''user'', ActorID = None, ActorIP = '''', Action = ''a'', SubjectType = ''s'', SubjectID = '''', Metadata = None\<rparr>"


subsection \<open>Tamper evidence\<close>

lemma bar_split:
  "c \<notin> set x \<Longrightarrow> c \<notin> set y \<Longrightarrow> x @ c # r = y @ c # s \<longleftrightarrow> x = y \<and> r = s"
proof (induction x arbitrary: y)
  case Nil
  then show ?case by (cases y) auto
next
  case (Cons a x)
  then show ?case by (cases y) auto
qed

lemma joined_Cons: "joined (x # xs) = CHR ''|'' # x @ joined xs"
  by (simp add: joined_def)

lemma joined_inject:
  assumes "length xs = length ys" and "\<forall>x \<in> set (butlast xs). CHR ''|'' \<notin> set x" and "\<forall>y \<in> set (butlast ys). CHR ''|'' \<notin> set y"
    and "joined xs = joined ys"
  shows "xs = ys"
  using assms
proof (induction xs ys rule: list_induct2)
  case (Cons x xs y ys)
  show ?case
  proof (cases xs)
    case Nil
    then show ?thesis using Cons by (simp add: joined_Cons)
  next
    case c: (Cons x' xs')
    then obtain y' ys' where ys: "ys = y' # ys'" using Cons.hyps by (cases ys) auto
    have n: "CHR ''|'' \<notin> set x" "CHR ''|'' \<notin> set y" using Cons.prems c ys by simp_all
    have "x @ joined xs = y @ joined ys" using Cons.prems(3) by (simp add: joined_Cons)
    then have "x = y \<and> joined xs = joined ys"
      unfolding c ys joined_Cons by (simp only: bar_split [OF n] list.inject simp_thms)
    then show ?thesis using Cons.IH Cons.prems c ys by simp
  qed
qed simp

lemma of_char_lt: "(of_char c :: nat) < 256"
  by simp

lemma hex_digit_inject: "m < 16 \<Longrightarrow> n < 16 \<Longrightarrow> hex_digit m = hex_digit n \<longleftrightarrow> m = n"
  unfolding hex_digit_def by (auto dest!: arg_cong [where f = "of_char :: char \<Rightarrow> nat"] split: if_splits)

lemma hex_Cons: "hex (c # s) = hex_digit (of_char c div 16) # hex_digit (of_char c mod 16) # hex s"
  by (simp add: hex_def)

lemma hex_inject: "hex s = hex t \<Longrightarrow> s = t"
proof (induction s arbitrary: t)
  case Nil
  then show ?case by (cases t) (simp_all add: hex_def)
next
  case (Cons c s)
  obtain d t' where t: "t = d # t'" using Cons.prems by (cases t) (simp_all add: hex_def)
  have "(of_char c :: nat) div 16 = of_char d div 16 \<and> (of_char c :: nat) mod 16 = of_char d mod 16"
    using Cons.prems of_char_lt [of c] of_char_lt [of d] by (simp add: t hex_Cons hex_digit_inject)
  then have "(of_char c :: nat) = of_char d" by (metis div_mult_mod_eq)
  then show ?case using Cons t by (simp add: hex_Cons)
qed

lemma hex_clean: "CHR ''|'' \<notin> set (hex s)"
proof -
  have "hex_digit n \<noteq> CHR ''|''" if "n < 16" for n
  proof
    assume "hex_digit n = CHR ''|''"
    then have "(of_char (hex_digit n) :: nat) = 124" by simp
    then show False using that by (simp add: hex_digit_def split: if_splits)
  qed
  then have "CHR ''|'' \<noteq> hex_digit n" if "n < 16" for n using that by metis
  moreover have "(of_char c :: nat) div 16 < 16" for c using of_char_lt [of c] by (simp add: less_mult_imp_div_less)
  ultimately show ?thesis by (induction s) (simp_all add: hex_Cons, simp add: hex_def)
qed

text \<open>No separator in the fields before the metadata.\<close>

definition clean_row :: "audit_row \<Rightarrow> bool" where
  "clean_row r \<longleftrightarrow> (\<forall>x \<in> set (butlast (hashed_fields r)). CHR ''|'' \<notin> set x)"

lemma preimage_inject:
  assumes "preimage p r = preimage q s" and "clean_row r" and "clean_row s"
    and "\<forall>h. p = Some h \<longrightarrow> h \<noteq> []" and "\<forall>h. q = Some h \<longrightarrow> h \<noteq> []"
  shows "p = q \<and> hashed_fields r = hashed_fields s"
proof -
  let ?h = "\<lambda>p. case p of None \<Rightarrow> '''' | Some h \<Rightarrow> hex h"
  have bar: "\<exists>t. joined (hashed_fields r) = CHR ''|'' # t" for r
    by (simp add: hashed_fields_def joined_Cons)
  obtain t u where t: "joined (hashed_fields r) = CHR ''|'' # t" and u: "joined (hashed_fields s) = CHR ''|'' # u"
    using bar by blast
  have n: "CHR ''|'' \<notin> set (?h p)" "CHR ''|'' \<notin> set (?h q)" by (simp_all add: hex_clean split: option.split)
  have "?h p @ CHR ''|'' # t = ?h q @ CHR ''|'' # u" using assms(1) by (simp add: preimage_def t u)
  then have e: "?h p = ?h q" "t = u" by (simp_all only: bar_split [OF n])
  have ne: "hex h \<noteq> []" if "h \<noteq> []" for h using that by (cases h) (simp_all add: hex_Cons)
  have "p = q"
  proof (cases p)
    case None
    have q: "?h q = []" using e(1) unfolding None by simp
    have "q = None"
    proof (cases q)
      case (Some h)
      then have "h \<noteq> []" using assms(5) by blast
      then show ?thesis using q ne [of h] unfolding Some by simp
    qed
    then show ?thesis using None by simp
  next
    case (Some h)
    then have "h \<noteq> []" using assms(4) by blast
    then have h: "hex h \<noteq> []" by (rule ne)
    have "hex h = ?h q" using e(1) unfolding Some by simp
    then show ?thesis using h Some by (cases q) (simp_all add: hex_inject)
  qed
  moreover have "hashed_fields r = hashed_fields s"
  proof (rule joined_inject)
    show "length (hashed_fields r) = length (hashed_fields s)" by (simp add: hashed_fields_def)
    show "joined (hashed_fields r) = joined (hashed_fields s)" using t u e(2) by simp
  qed (use assms(2,3) in \<open>simp_all only: clean_row_def\<close>)
  ultimately show ?thesis by simp
qed

lemma verified_hash: "verify_loop digest p xs = None \<Longrightarrow> r \<in> set xs \<Longrightarrow> a_hash r = digest (preimage (a_prev r) r)"
  by (induction xs arbitrary: p) (auto split: if_splits)

text \<open>The texts hashed in a log.\<close>

definition preimages :: "audit_row list \<Rightarrow> string set" where
  "preimages xs = (\<lambda>r. preimage (a_prev r) r) ` set xs"

lemma same_chain:
  assumes "verify_loop digest None xs = None" and "verify_loop digest None ys = None" and "xs \<noteq> []" and "ys \<noteq> []"
    and "a_hash (last xs) = a_hash (last ys)" and "inj_on digest (preimages xs \<union> preimages ys)" and "\<forall>s. digest s \<noteq> []"
    and "\<forall>r \<in> set xs \<union> set ys. clean_row r"
  shows "map hashed_fields xs = map hashed_fields ys"
  using assms
proof (induction xs arbitrary: ys rule: rev_induct)
  case (snoc x xs)
  obtain y ys' where ys: "ys = ys' @ [y]" using snoc.prems(4) by (metis rev_exhaust)
  have x: "verify_loop digest None xs = None" "a_prev x = next_prev None xs" "digest (preimage (next_prev None xs) x) = a_hash x"
    and y: "verify_loop digest None ys' = None" "a_prev y = next_prev None ys'" "digest (preimage (next_prev None ys') y) = a_hash y"
    using snoc.prems(1,2) ys by (auto simp: verify_append split: if_splits)
  have "preimage (a_prev x) x \<in> preimages (xs @ [x]) \<union> preimages ys" "preimage (a_prev y) y \<in> preimages (xs @ [x]) \<union> preimages ys"
    using ys by (auto simp: preimages_def)
  moreover have "digest (preimage (a_prev x) x) = digest (preimage (a_prev y) y)"
    using snoc.prems(5) x y ys by simp
  ultimately have pre: "preimage (a_prev x) x = preimage (a_prev y) y"
    using snoc.prems(6) by (simp add: inj_on_def)
  have ne: "\<forall>h. next_prev None zs = Some h \<longrightarrow> h \<noteq> []" if "verify_loop digest None zs = None" for zs
    using verified_hash [OF that] snoc.prems(7) last_in_set [of zs] by (auto simp: next_prev_def last_hash_def)
  have p: "a_prev x = a_prev y" and f: "hashed_fields x = hashed_fields y"
    using preimage_inject [OF pre] snoc.prems(8) ys x y ne by auto
  have prev: "next_prev None xs = next_prev None ys'" using p x y by simp
  show ?case
  proof (cases "xs = []")
    case True
    then have "ys' = []" using prev by (auto simp: next_prev_def last_hash_def split: if_splits)
    then show ?thesis using True f ys by simp
  next
    case False
    then have ne': "ys' \<noteq> []" and h: "a_hash (last xs) = a_hash (last ys')"
      using prev by (auto simp: next_prev_def last_hash_def split: if_splits)
    have "inj_on digest (preimages xs \<union> preimages ys')"
      by (rule inj_on_subset [OF snoc.prems(6)]) (auto simp: preimages_def ys)
    then have "map hashed_fields xs = map hashed_fields ys'"
      using snoc.prems(7,8) ys by (intro snoc.IH [OF x(1) y(1) False ne' h]) auto
    then show ?thesis using f ys by simp
  qed
qed simp

lemma Verify_sorted:
  assumes "sorted_wrt pos_less xs" and "\<forall>r \<in> set xs. 0 < a_pos r" and "Verify digest xs 0 = None"
  shows "verify_loop digest None xs = None"
proof (cases xs)
  case (Cons y ys)
  have f: "filter (\<lambda>r. a_pos r > 0) xs = xs" using assms(2) by (simp add: filter_id_conv)
  have e: "filter (\<lambda>x. a_pos x < a_pos y) xs = []"
    using assms(1) Cons by (auto simp: filter_empty_conv pos_less_def)
  have "Verify digest xs 0 = verify_loop digest (last_hash (stable_sort pos_less (filter (\<lambda>x. a_pos x < a_pos y) xs))) xs"
    unfolding Verify_def f pos_sorted [OF assms(1)] Let_def by (simp add: Cons)
  then show ?thesis using assms(3) unfolding e by (simp add: last_hash_def stable_sort_def)
qed simp

text \<open>C40: two logs that both verify and end in the same entry hash have the same entries, in number, order and every
  hashed field (a missing actor, subject or request counts as the empty text). So whoever holds the
  last hash notices any edit, insertion or removal before it. The digest may be any that
  is never empty and has no collision among the texts of the two logs, and no field before the
  metadata contains the separator.\<close>

theorem tamper_evidence:
  assumes "sorted_wrt pos_less xs" and "sorted_wrt pos_less ys" and "\<forall>r \<in> set xs \<union> set ys. 0 < a_pos r \<and> clean_row r"
    and "Verify digest xs 0 = None" and "Verify digest ys 0 = None" and "xs \<noteq> []" and "ys \<noteq> []"
    and "a_hash (last xs) = a_hash (last ys)" and "inj_on digest (preimages xs \<union> preimages ys)" and "\<forall>s. digest s \<noteq> []"
  shows "map hashed_fields xs = map hashed_fields ys"
  by (rule same_chain [OF Verify_sorted Verify_sorted]) (use assms in auto)

definition demo_audit_row :: audit_row where
  "demo_audit_row = \<lparr>a_seq = 1, a_occurred = ''t'', a_actor_kind = ''user'', a_actor_id = None, a_actor_ip = None, a_action = ''a'',
     a_subject_type = ''s'', a_subject_id = None, a_request_id = None, a_metadata = ''{}'', a_prev = None,
     a_hash = ''x|1|t|user||a|s|||{}'', a_pos = 1\<rparr>"

lemma tamper_evidence_witness: "map hashed_fields [demo_audit_row] = map hashed_fields [demo_audit_row\<lparr>a_seq := 2\<rparr>]"
proof -
  have d: "dec_int 1 = ''1''" by code_simp
  have s: "sorted_wrt pos_less [demo_audit_row]" "sorted_wrt pos_less [demo_audit_row\<lparr>a_seq := 2\<rparr>]" by simp_all
  have c: "\<forall>r \<in> set [demo_audit_row] \<union> set [demo_audit_row\<lparr>a_seq := 2\<rparr>]. 0 < a_pos r \<and> clean_row r"
    by (simp add: demo_audit_row_def clean_row_def hashed_fields_def coalesce_def d)
  have v: "Verify (\<lambda>s. CHR ''x'' # s) [demo_audit_row] 0 = None" "Verify (\<lambda>s. CHR ''x'' # s) [demo_audit_row\<lparr>a_seq := 2\<rparr>] 0 = None"
    by (simp_all add: Verify_def stable_sort_def last_hash_def demo_audit_row_def preimage_def hashed_fields_def joined_def coalesce_def d)
  have i: "inj_on (\<lambda>s. CHR ''x'' # s) X" for X by (simp add: inj_on_def)
  show ?thesis by (rule tamper_evidence [OF s c v _ _ _ i]) (simp_all add: demo_audit_row_def)
qed

text \<open>
  What the chain does not show: the newest entries can be cut off, the actor's address and the
  sequence number are not hashed, and text can move across a field boundary that contains the separator.
\<close>

lemma truncation_undetected: "verify_loop digest p (xs @ ys) = None \<Longrightarrow> verify_loop digest p xs = None"
  by (simp add: verify_append)

lemma address_not_hashed: "preimage p (r\<lparr>a_actor_ip := ip, a_seq := n\<rparr>) = preimage p r"
  by (simp add: preimage_def hashed_fields_def)

lemma fields_run_together:
  "preimage p (r\<lparr>a_action := ''x|y'', a_subject_type := ''z''\<rparr>) = preimage p (r\<lparr>a_action := ''x'', a_subject_type := ''y|z''\<rparr>)"
  by (simp add: preimage_def hashed_fields_def joined_def)

end
