(* ===== verification/OrderStore.thy ===== *)
theory OrderStore
  imports Tax Store Outbox AuditLog
begin

text \<open>
  The state the package \<open>internal/modules/orders\<close> works on: the tables of
  \<open>db/migrations/0003, 0005, 0006, 0007, 0010, 0011\<close> it reads and writes, the constraints and
  triggers that guard them, the payment provider's port, and the shape of an operation. An
  operation maps a world to an error or a value and the next world. A transaction puts the
  database back when it fails or when the ledger's deferred check refuses it; calls to the provider
  and values drawn from sequences stay. One clock reading serves a whole operation.
\<close>

subsection \<open>The order state machine\<close>

datatype status = StatusDraft | StatusAwaitingPayment | StatusPaymentFailed | StatusPaid | StatusFulfilled
  | StatusCompleted | StatusCancelled | StatusExpired | StatusRefundPending | StatusPartiallyRefunded
  | StatusRefunded | StatusDisputed | StatusChargebackLost

definition order_transitions_allowed :: "(status \<times> status) list" where
  "order_transitions_allowed = [
     (StatusDraft, StatusAwaitingPayment), (StatusDraft, StatusCancelled), (StatusDraft, StatusExpired),
     (StatusAwaitingPayment, StatusPaid), (StatusAwaitingPayment, StatusPaymentFailed),
     (StatusAwaitingPayment, StatusCancelled), (StatusAwaitingPayment, StatusExpired),
     (StatusPaymentFailed, StatusAwaitingPayment), (StatusPaymentFailed, StatusCancelled),
     (StatusPaid, StatusFulfilled), (StatusPaid, StatusRefundPending), (StatusPaid, StatusDisputed),
     (StatusFulfilled, StatusCompleted), (StatusFulfilled, StatusRefundPending), (StatusFulfilled, StatusDisputed),
     (StatusCompleted, StatusRefundPending), (StatusCompleted, StatusDisputed),
     (StatusRefundPending, StatusRefunded), (StatusRefundPending, StatusPartiallyRefunded), (StatusRefundPending, StatusFulfilled),
     (StatusPartiallyRefunded, StatusRefundPending), (StatusPartiallyRefunded, StatusRefunded), (StatusPartiallyRefunded, StatusDisputed),
     (StatusDisputed, StatusChargebackLost), (StatusDisputed, StatusFulfilled), (StatusDisputed, StatusRefunded)]"

definition transition_ok :: "status \<Rightarrow> status \<Rightarrow> bool" where
  "transition_ok a b \<longleftrightarrow> a = b \<or> (a, b) \<in> set order_transitions_allowed"

subsection \<open>Rows\<close>

record order_row =
  or_id :: nat
  or_public :: string
  or_number :: string
  or_buyer :: nat
  or_status :: status
  or_currency :: string
  or_items :: int
  or_tax :: int
  or_grand :: int
  or_refunded :: int
  or_country :: string
  or_state :: "int option"
  or_gstin :: "string option"
  or_b2b :: bool
  or_ip :: "string option"
  or_placed :: "int option"
  or_paid :: "int option"
  or_fulfilled :: "int option"
  or_completed :: "int option"
  or_expires :: "int option"
  or_created :: int

record order_event =
  ev_order :: nat
  ev_from :: "status option"
  ev_to :: status
  ev_actor_kind :: string
  ev_actor :: "nat option"
  ev_reason :: string

record item_row =
  it_id :: nat
  it_public :: string
  it_order :: nat
  it_product :: nat
  it_variant :: nat
  it_seller :: nat
  it_title :: string
  it_license_type :: string
  it_license_terms :: string
  it_refund_policy :: string
  it_gstin :: "string option"
  it_pan :: "string option"
  it_state :: "int option"
  it_currency :: string
  it_unit :: int
  it_line_total :: int
  it_gst_bps :: int
  it_cgst :: int
  it_sgst :: int
  it_igst :: int
  it_tax :: int
  it_buyer_total :: int
  it_commission_bps :: int
  it_commission :: int
  it_commission_gst :: int
  it_tcs_bps :: int
  it_tcs :: int
  it_tds_bps :: int
  it_tds :: int
  it_psp :: int
  it_psp_gst :: int
  it_net :: int
  it_refunded :: int
  it_status :: string
  it_fulfilled :: "int option"
  it_created :: int

record intent_row =
  in_id :: nat
  in_order :: nat
  in_provider :: string
  in_ref :: string
  in_amount :: int
  in_currency :: string
  in_status :: string
  in_expires :: int
  in_created :: int

record payment_row =
  pa_id :: nat
  pa_order :: nat
  pa_provider :: string
  pa_ref :: string
  pa_method :: string
  pa_network :: "string option"
  pa_amount :: int
  pa_currency :: string
  pa_fee :: "int option"
  pa_fee_tax :: "int option"
  pa_status :: string
  pa_captured :: int
  pa_raw :: string

record transfer_row =
  tr_id :: nat
  tr_payment :: nat
  tr_item :: nat
  tr_seller :: nat
  tr_provider :: string
  tr_ref :: "string option"
  tr_account :: string
  tr_amount :: int
  tr_currency :: string
  tr_status :: string
  tr_hold_until :: int
  tr_released :: "int option"
  tr_reversed :: int
  tr_failure :: "string option"

record license_row =
  li_id :: nat
  li_public :: string
  li_item :: nat
  li_user :: nat
  li_product :: nat
  li_variant :: nat
  li_type :: string
  li_terms :: string
  li_status :: string
  li_expires :: "int option"
  li_limit :: int
  li_issued :: int

record refund_row =
  rf_id :: nat
  rf_public :: string
  rf_order :: nat
  rf_item :: nat
  rf_payment :: nat
  rf_provider :: string
  rf_ref :: "string option"
  rf_amount :: int
  rf_currency :: string
  rf_reason :: string
  rf_status :: string
  rf_retained :: int
  rf_recovery :: string
  rf_by :: nat
  rf_note :: "string option"

record chargeback_row =
  cb_id :: nat
  cb_order :: nat
  cb_payment :: nat
  cb_provider :: string
  cb_ref :: string
  cb_network :: string
  cb_reason :: "string option"
  cb_amount :: int
  cb_currency :: string
  cb_status :: string
  cb_respond_by :: int

record offset_row =
  of_id :: nat
  of_public :: string
  of_seller :: nat
  of_origin :: string
  of_item :: nat
  of_amount :: int
  of_applied :: int
  of_currency :: string
  of_status :: string

record delta_row =
  de_seq :: nat
  de_seller :: "nat option"
  de_fy :: int
  de_currency :: string
  de_gross :: int
  de_taxable :: int
  de_tds :: int
  de_tcs :: int
  de_refunded :: int
  de_commission :: int
  de_export :: int
  de_count :: int

record turnover_row =
  tu_seller :: nat
  tu_fy :: int
  tu_currency :: string
  tu_gross :: int
  tu_through :: nat

record invoice_row =
  iv_kind :: string
  iv_number :: string
  iv_fy :: int
  iv_order :: nat
  iv_item :: nat
  iv_seller :: nat
  iv_buyer :: "nat option"
  iv_supplier_gstin :: "string option"
  iv_supplier_name :: string
  iv_supplier_state :: "int option"
  iv_recipient_gstin :: "string option"
  iv_country :: string
  iv_state :: "int option"
  iv_currency :: string
  iv_taxable :: int
  iv_cgst :: int
  iv_sgst :: int
  iv_igst :: int
  iv_total :: int

record dispute_row =
  di_item :: nat
  di_status :: string

record download_row =
  do_license :: nat
  do_outcome :: string

record idem_row =
  ik_key :: string
  ik_user :: nat
  ik_fingerprint :: string
  ik_status :: string
  ik_resource :: string

record webhook_row =
  wh_provider :: string
  wh_event :: string
  wh_type :: string
  wh_digest :: string
  wh_status :: string
  wh_attempts :: nat
  wh_error :: "string option"

record run_row =
  rn_id :: nat
  rn_provider :: string
  rn_currency :: string
  rn_count :: int

record difference_row =
  df_run :: nat
  df_kind :: string
  df_ref :: string
  df_order :: "string option"
  df_expected :: "int option"
  df_actual :: int
  df_currency :: string

record seller_row =
  sl_id :: nat
  sl_public :: string
  sl_name :: string
  sl_gst_registered :: bool
  sl_gstin :: "string option"
  sl_pan :: "string option"
  sl_state :: "int option"
  sl_entity :: string
  sl_status :: string
  sl_kyc :: string
  sl_account :: "string option"
  sl_account_status :: string
  sl_activated :: "int option"
  sl_hold_days :: int
  sl_reserve_bps :: int

record fee_row =
  fe_seller :: nat
  fe_bps :: int
  fe_from :: int
  fe_to :: "int option"

record product_row =
  pr_id :: nat
  pr_public :: string
  pr_seller :: nat
  pr_title :: string
  pr_license_type :: string
  pr_license_terms :: string
  pr_refund_policy :: string
  pr_days :: "int option"
  pr_delivery :: string
  pr_status :: string
  pr_sales :: int
  pr_refunds :: int

record variant_row =
  va_id :: nat
  va_public :: string
  va_product :: nat
  va_price :: int
  va_currency :: string
  va_active :: bool
  va_max :: "int option"
  va_sales :: int

record database =
  orders :: "order_row list"
  events :: "order_event list"
  items :: "item_row list"
  intents :: "intent_row list"
  payments :: "payment_row list"
  transfers :: "transfer_row list"
  licenses :: "license_row list"
  refunds :: "refund_row list"
  chargebacks :: "chargeback_row list"
  offsets :: "offset_row list"
  deltas :: "delta_row list"
  turnover :: "turnover_row list"
  invoices :: "invoice_row list"
  series :: "((string \<times> int) \<times> (string \<times> nat)) list"
  disputes :: "dispute_row list"
  downloads :: "download_row list"
  idem_keys :: "idem_row list"
  webhooks :: "webhook_row list"
  runs :: "run_row list"
  differences :: "difference_row list"
  sellers :: "seller_row list"
  fees :: "fee_row list"
  products :: "product_row list"
  variants :: "variant_row list"
  journal :: ledger
  outbox :: outbox
  auditlog :: audit_log


subsection \<open>Errors\<close>

text \<open>
  \<open>internal/platform/problem\<close>: the status and type of a problem document, with the field and code
  of a validation error; the explanatory text is kept only where two problems differ in nothing else.
\<close>

datatype problem =
    NotFound string
  | Validation string string
  | Conflict string string
  | Unavailable nat
  | PaymentFailed string
  | Unauthenticated
  | Internal

definition TypeConflict :: string where "TypeConflict = ''conflict''"
definition TypeIdempotencyReuse :: string where "TypeIdempotencyReuse = ''idempotency-key-reuse''"
definition TypePaymentFailed :: string where "TypePaymentFailed = ''payment-failed''"
definition TypeSettlementBlocked :: string where "TypeSettlementBlocked = ''settlement-blocked''"
definition TypeStateTransition :: string where "TypeStateTransition = ''invalid-state-transition''"

datatype provider_error = ErrInvalidSignature | ErrNotSupported | ErrProviderRejected | ErrProviderUnavailable
  | ErrNotFound | ErrCurrencyUnsupported | ErrAccountNotActivated | OtherProviderError string

datatype order_error =
    ProblemE problem
  | errConcurrentTransition
  | SqlE string
  | NoRowsE string
  | RaisedE string
  | LedgerE ledger_error
  | TaxE tax_error
  | MoneyE money_error
  | ProviderE provider_error
  | AuditE audit_error
  | OutboxE outbox_error
  | NotStampable string
  | NegativePrice nat
  | PanicE money_error

subsection \<open>The payment provider\<close>

text \<open>
  \<open>internal/modules/payments/port.go\<close>. The adapters are parameters: each answer is a function of the
  calls made so far, the present one first.
\<close>

record split_line =
  SellerReference :: string
  ProviderAccountID :: string
  sp_Amount :: money
  OnHold :: bool
  HoldUntil :: int
  sp_Notes :: "(string \<times> string) list"

record create_payment_request =
  OrderReference :: string
  cp_Amount :: money
  Splits :: "split_line list"
  cp_Description :: string
  cp_IdempotencyKey :: string
  cp_Notes :: "(string \<times> string) list"

record create_payment_result =
  cr_ProviderIntentID :: string
  cr_CheckoutParams :: "(string \<times> string) list"

datatype payment_status = PaymentCreated | PaymentAuthorized | PaymentCaptured | PaymentRejected | PaymentRefunded

fun payment_status_text :: "payment_status \<Rightarrow> string" where
  "payment_status_text PaymentCreated = ''created''"
| "payment_status_text PaymentAuthorized = ''authorized''"
| "payment_status_text PaymentCaptured = ''captured''"
| "payment_status_text PaymentRejected = ''failed''"
| "payment_status_text PaymentRefunded = ''refunded''"

record payment_record =
  pm_ProviderPaymentID :: string
  pm_ProviderIntentID :: string
  pm_Amount :: money
  pm_Status :: payment_status
  pm_Method :: string
  pm_CardNetwork :: string
  pm_Fee :: "money option"
  pm_Tax :: "money option"

record provider_refund_request =
  pr_ProviderPaymentID :: string
  pr_Amount :: money
  pr_Reason :: string
  pr_ReverseSplits :: bool
  pr_IdempotencyKey :: string
  pr_Notes :: "(string \<times> string) list"

text \<open>The part of \<open>Raw\<close> the code reads: the \<open>dispute\<close> object, when it is an object.\<close>

record dispute_payload =
  dp_network :: "string option"
  dp_card_network :: "string option"
  dp_reason_code :: "string option"

record webhook_event =
  we_EventID :: string
  we_Type :: string
  we_ProviderPaymentID :: string
  we_ProviderIntentID :: string
  we_ProviderTransferID :: string
  we_ProviderRefundID :: string
  we_ProviderDisputeID :: string
  we_ProviderAccountID :: string
  we_Amount :: "money option"
  we_Status :: string
  we_Dispute :: "dispute_payload option"

datatype provider_call =
    CreatePayment create_payment_request
  | VerifyPayment string string string
  | ReconcilePayment string
  | CapturePayment string money string
  | RequestRefund provider_refund_request
  | ReleaseSellerSettlement string

text \<open>A JSON object the code builds; maps of it are encoded with their keys sorted, by the parameter.\<close>

datatype json = JStr string | JInt int | JBool bool

record env =
  ProviderName :: string
  SplitSettlement :: bool
  SettlementHold :: bool
  TransferReversal :: bool
  create_payment :: "provider_call list \<Rightarrow> provider_error + create_payment_result"
  verify_payment :: "provider_call list \<Rightarrow> provider_error + bool \<times> string"
  reconcile_payment :: "provider_call list \<Rightarrow> provider_error + payment_record"
  capture_payment :: "provider_call list \<Rightarrow> provider_error + payment_record"
  request_refund :: "provider_call list \<Rightarrow> provider_error + string"
  release_settlement :: "provider_call list \<Rightarrow> provider_error + unit"
  parse_webhook :: "string \<Rightarrow> string \<Rightarrow> provider_error + webhook_event"
  tax_policy :: policy
  pspFeeBps :: int
  pspFeeGSTBps :: int
  DownloadsPerLicense :: int
  json_text :: "(string \<times> json) list \<Rightarrow> string"
  jsonb :: "string \<Rightarrow> string option"
  inet :: "string \<Rightarrow> bool"
  sha256 :: "string \<Rightarrow> string"
  time_text :: "int \<Rightarrow> string"
  error_text :: "order_error \<Rightarrow> string"
  request_id :: string
  clock :: int

subsection \<open>Operations\<close>

record world =
  w_db :: database
  w_fresh :: nat
  w_calls :: "provider_call list"
  w_order_seq :: nat

type_synonym 'a op = "world \<Rightarrow> (order_error + 'a) \<times> world"

definition ret :: "'a \<Rightarrow> 'a op" where
  "ret x w = (Inr x, w)"

definition fail :: "order_error \<Rightarrow> 'a op" where
  "fail e w = (Inl e, w)"

definition bnd :: "'a op \<Rightarrow> ('a \<Rightarrow> 'b op) \<Rightarrow> 'b op" where
  "bnd m f w = (case m w of (Inl e, w') \<Rightarrow> (Inl e, w') | (Inr x, w') \<Rightarrow> f x w')"

text \<open>A result computed from the database, and a statement that changes it.\<close>

definition query :: "(database \<Rightarrow> order_error + 'a) \<Rightarrow> 'a op" where
  "query q w = (q (w_db w), w)"

definition exec :: "(database \<Rightarrow> order_error + 'a \<times> database) \<Rightarrow> 'a op" where
  "exec s w = (case s (w_db w) of Inl e \<Rightarrow> (Inl e, w) | Inr (x, d) \<Rightarrow> (Inr x, w\<lparr>w_db := d\<rparr>))"

definition lift :: "order_error + 'a \<Rightarrow> 'a op" where
  "lift r w = (r, w)"

text \<open>A fresh identifier (\<open>ids.NewUUIDv7\<close>, \<open>ids.NewPublic\<close>); none is drawn twice.\<close>

definition fresh :: "nat op" where
  "fresh w = (Inr (w_fresh w), w\<lparr>w_fresh := w_fresh w + 1\<rparr>)"

definition new_public :: "string \<Rightarrow> string op" where
  "new_public prefix = bnd fresh (\<lambda>n. ret (pub_id prefix n))"

definition call :: "(provider_call list \<Rightarrow> provider_error + 'a) \<Rightarrow> provider_call \<Rightarrow> (provider_error + 'a) op" where
  "call answer c w = (let cs = c # w_calls w in (Inr (answer cs), w\<lparr>w_calls := cs\<rparr>))"

fun forE :: "('x \<Rightarrow> unit op) \<Rightarrow> 'x list \<Rightarrow> unit op" where
  "forE f [] = ret ()"
| "forE f (x # xs) = bnd (f x) (\<lambda>_. forE f xs)"

text \<open>A loop that carries variables; one that collects results.\<close>

fun loopE :: "('x \<Rightarrow> 's \<Rightarrow> 's op) \<Rightarrow> 'x list \<Rightarrow> 's \<Rightarrow> 's op" where
  "loopE f [] s = ret s"
| "loopE f (x # xs) s = bnd (f x s) (loopE f xs)"

fun mapM :: "('x \<Rightarrow> 'y op) \<Rightarrow> 'x list \<Rightarrow> 'y list op" where
  "mapM f [] = ret []"
| "mapM f (x # xs) = bnd (f x) (\<lambda>y. bnd (mapM f xs) (\<lambda>ys. ret (y # ys)))"

text \<open>\<open>err := m\<close>, looked at by the code: the changes of a failed step stay in the transaction.\<close>

definition attempt :: "'a op \<Rightarrow> (order_error + 'a) op" where
  "attempt m w = (case m w of (r, w') \<Rightarrow> (Inr r, w'))"

text \<open>
  \<open>InTx\<close>, one attempt of it (\<open>Store\<close> has the retry loop): the database is put back when the closure
  fails, and COMMIT runs the ledger's deferred triggers.
\<close>

definition in_tx :: "'a op \<Rightarrow> 'a op" where
  "in_tx m w = (case m w of
     (Inl e, w') \<Rightarrow> (Inl e, w'\<lparr>w_db := w_db w\<rparr>)
   | (Inr x, w') \<Rightarrow> (case commit_check (journal (w_db w)) (journal (w_db w')) of
       Inl e \<Rightarrow> (Inl (LedgerE e), w'\<lparr>w_db := w_db w\<rparr>)
     | Inr _ \<Rightarrow> (Inr x, w')))"

lemma ret_simp [simp]: "ret x w = (Inr x, w)"
  by (simp add: ret_def)

lemma fail_simp [simp]: "fail e w = (Inl e, w)"
  by (simp add: fail_def)

lemma bnd_eq_Inr [simp]: "bnd m f w = (Inr y, w'') \<longleftrightarrow> (\<exists>x w'. m w = (Inr x, w') \<and> f x w' = (Inr y, w''))"
  by (cases "m w") (auto simp: bnd_def split: sum.splits)

lemma query_eq_Inr [simp]: "query q w = (Inr y, w') \<longleftrightarrow> q (w_db w) = Inr y \<and> w' = w"
  by (auto simp: query_def)

lemma exec_eq_Inr [simp]: "exec s w = (Inr y, w') \<longleftrightarrow> (\<exists>d. s (w_db w) = Inr (y, d) \<and> w' = w\<lparr>w_db := d\<rparr>)"
  by (auto simp: exec_def split: sum.splits)

lemma lift_eq_Inr [simp]: "lift r w = (Inr y, w') \<longleftrightarrow> r = Inr y \<and> w' = w"
  by (auto simp: lift_def)

lemma in_tx_eq_Inr: "in_tx m w = (Inr y, w') \<longleftrightarrow>
    m w = (Inr y, w') \<and> commit_check (journal (w_db w)) (journal (w_db w')) = Inr ()"
  by (cases "m w") (auto simp: in_tx_def split: sum.splits)

lemma in_tx_eq_Inl: "in_tx m w = (Inl e, w') \<Longrightarrow> w_db w' = w_db w"
  by (cases "m w") (auto simp: in_tx_def split: sum.splits)

subsection \<open>What an operation may do to the database\<close>

text \<open>
  \<open>keeps R m\<close>: whatever \<open>m\<close> returns, the database before and after it is related by \<open>R\<close>. For a
  relation closed under composition this follows the shape of the operation.
\<close>

definition keeps :: "(database \<Rightarrow> database \<Rightarrow> bool) \<Rightarrow> 'a op \<Rightarrow> bool" where
  "keeps R m \<longleftrightarrow> (\<forall>w. R (w_db w) (w_db (snd (m w))))"

named_theorems keeps_intros \<open>rules that follow the shape of an operation\<close>

locale step_relation =
  fixes R :: "database \<Rightarrow> database \<Rightarrow> bool"
  assumes refl: "R d d"
    and trans: "R a b \<Longrightarrow> R b c \<Longrightarrow> R a c"
begin

lemma keeps_ret [keeps_intros]: "keeps R (ret x)"
  by (simp add: keeps_def refl)

lemma keeps_fail [keeps_intros]: "keeps R (fail e)"
  by (simp add: keeps_def refl)

lemma keeps_lift [keeps_intros]: "keeps R (lift r)"
  by (simp add: keeps_def lift_def refl)

lemma keeps_query [keeps_intros]: "keeps R (query q)"
  by (simp add: keeps_def query_def refl)

lemma keeps_fresh [keeps_intros]: "keeps R fresh"
  by (simp add: keeps_def fresh_def refl)

lemma keeps_call [keeps_intros]: "keeps R (call answer c)"
  by (simp add: keeps_def call_def Let_def refl)

lemma keeps_bnd [keeps_intros]:
  assumes "keeps R m" and "\<And>x. keeps R (f x)"
  shows "keeps R (bnd m f)"
proof -
  have "R (w_db w) (w_db (snd (bnd m f w)))" for w
  proof (cases "m w")
    case (Pair r w')
    have a: "R (w_db w) (w_db w')" using assms(1) Pair by (metis keeps_def snd_conv)
    show ?thesis
    proof (cases r)
      case (Inl e)
      then show ?thesis using a Pair by (simp add: bnd_def)
    next
      case (Inr x)
      have "R (w_db w') (w_db (snd (f x w')))" using assms(2) by (simp add: keeps_def)
      then show ?thesis using trans[OF a] Pair Inr by (simp add: bnd_def)
    qed
  qed
  then show ?thesis by (simp add: keeps_def)
qed

lemma keeps_new_public [keeps_intros]: "keeps R (new_public p)"
  unfolding new_public_def by (intro keeps_intros)

lemma keeps_exec: "(\<And>d x d'. s d = Inr (x, d') \<Longrightarrow> R d d') \<Longrightarrow> keeps R (exec s)"
  by (auto simp: keeps_def exec_def refl split: sum.splits)

lemma keeps_attempt [keeps_intros]: "keeps R m \<Longrightarrow> keeps R (attempt m)"
  by (auto simp: keeps_def attempt_def split: prod.splits) (metis snd_conv)

lemma keeps_forE [keeps_intros]: "(\<And>x. keeps R (f x)) \<Longrightarrow> keeps R (forE f xs)"
  by (induction xs) (auto intro: keeps_intros)

lemma keeps_loopE [keeps_intros]: "(\<And>x s. keeps R (f x s)) \<Longrightarrow> keeps R (loopE f xs s)"
  by (induction xs arbitrary: s) (auto intro: keeps_intros)

lemma keeps_mapM [keeps_intros]: "(\<And>x. keeps R (f x)) \<Longrightarrow> keeps R (mapM f xs)"
  by (induction xs) (auto intro: keeps_intros)

lemma keeps_in_tx: "keeps R m \<Longrightarrow> keeps R (in_tx m)"
proof -
  assume m: "keeps R m"
  have "R (w_db w) (w_db (snd (in_tx m w)))" for w
  proof (cases "in_tx m w")
    case (Pair r w')
    show ?thesis
    proof (cases r)
      case (Inl e)
      then show ?thesis using in_tx_eq_Inl Pair refl by (metis snd_conv)
    next
      case (Inr x)
      then have "m w = (Inr x, w')" using Pair by (simp add: in_tx_eq_Inr)
      then show ?thesis using m Pair unfolding keeps_def by (metis snd_conv)
    qed
  qed
  then show "keeps R (in_tx m)" by (simp add: keeps_def)
qed

lemma keeps_after: "keeps R m \<Longrightarrow> m w = (r, w') \<Longrightarrow> R (w_db w) (w_db w')"
  unfolding keeps_def by (metis snd_conv)

end

text \<open>Branches and local definitions.\<close>

lemma keeps_if [keeps_intros]: "(b \<Longrightarrow> keeps R m) \<Longrightarrow> (\<not> b \<Longrightarrow> keeps R n) \<Longrightarrow> keeps R (if b then m else n)"
  by simp

lemma keeps_option [keeps_intros]:
  "(x = None \<Longrightarrow> keeps R m) \<Longrightarrow> (\<And>y. x = Some y \<Longrightarrow> keeps R (f y)) \<Longrightarrow> keeps R (case x of None \<Rightarrow> m | Some y \<Rightarrow> f y)"
  by (cases x) simp_all

lemma keeps_sum [keeps_intros]:
  "(\<And>e. x = Inl e \<Longrightarrow> keeps R (g e)) \<Longrightarrow> (\<And>y. x = Inr y \<Longrightarrow> keeps R (f y)) \<Longrightarrow> keeps R (case x of Inl e \<Rightarrow> g e | Inr y \<Rightarrow> f y)"
  by (cases x) simp_all

lemma keeps_prod [keeps_intros]: "(\<And>a b. p = (a, b) \<Longrightarrow> keeps R (f a b)) \<Longrightarrow> keeps R (case p of (a, b) \<Rightarrow> f a b)"
  by (cases p) simp

lemma keeps_list [keeps_intros]:
  "(xs = [] \<Longrightarrow> keeps R m) \<Longrightarrow> (\<And>y ys. xs = y # ys \<Longrightarrow> keeps R (f y ys)) \<Longrightarrow> keeps R (case xs of [] \<Rightarrow> m | y # ys \<Rightarrow> f y ys)"
  by (cases xs) simp_all

lemma keeps_Let [keeps_intros]: "(\<And>x. x = t \<Longrightarrow> keeps R (f x)) \<Longrightarrow> keeps R (let x = t in f x)"
  by simp

end
