(* ===== verification/OrderTables.thy ===== *)
theory OrderTables
  imports OrderStore "HOL-Library.AList"
begin

text \<open>
  The SQL statements of \<open>internal/modules/orders\<close>, one definition per statement, over the tables of
  \<open>db/migrations\<close>: CHECK constraints, unique indexes and foreign keys inside these tables refuse a
  row, the triggers \<open>forbid_update_of_columns\<close> and \<open>orders_enforce_state_machine\<close> raise, and
  \<open>ON CONFLICT DO NOTHING\<close> keeps the row that is there. The relation \<open>stmt\<close> is what one statement may
  do; every invariant of the tables is proved over it.
\<close>

subsection \<open>Constraints\<close>

fun check_all :: "(bool \<times> string) list \<Rightarrow> order_error + unit" where
  "check_all [] = Inr ()"
| "check_all ((ok, name) # cs) = (if ok then check_all cs else Inl (SqlE name))"

lemma check_all_Inr [simp]: "check_all cs = Inr u \<longleftrightarrow> (\<forall>c \<in> set cs. fst c)"
  by (induction cs rule: check_all.induct) auto

text \<open>\<open>money_minor\<close> with a lower bound, \<open>basis_points\<close>, and values of \<open>CHAR(n)\<close> columns.\<close>

definition amount_ok :: "int \<Rightarrow> bool" where
  "amount_ok v \<longleftrightarrow> 0 \<le> v \<and> money_minor v"

definition positive_ok :: "int \<Rightarrow> bool" where
  "positive_ok v \<longleftrightarrow> 0 < v \<and> money_minor v"

definition bps_ok :: "int \<Rightarrow> bool" where
  "bps_ok v \<longleftrightarrow> 0 \<le> v \<and> v \<le> 1000000"

definition char_fits :: "nat \<Rightarrow> string option \<Rightarrow> bool" where
  "char_fits n x = (case x of None \<Rightarrow> True | Some s \<Rightarrow> \<forall>c \<in> set (drop n s). c = CHR '' '')"

definition smallint_ok :: "int option \<Rightarrow> bool" where
  "smallint_ok x = (case x of None \<Rightarrow> True | Some v \<Rightarrow> - 32768 \<le> v \<and> v \<le> 32767)"

definition upper_letters :: "string \<Rightarrow> bool" where
  "upper_letters s = (\<forall>c \<in> set s. 65 \<le> (of_char c :: nat) \<and> (of_char c :: nat) \<le> 90)"

subsection \<open>\<open>orders\<close>, \<open>order_events\<close>\<close>

definition order_checks :: "env \<Rightarrow> order_row \<Rightarrow> order_error + unit" where
  "order_checks en r = check_all [
     (currency_code (or_currency r), ''currency_code''),
     (char_fits 15 (or_gstin r), ''value too long for type character(15)''),
     (case or_ip r of None \<Rightarrow> True | Some ip \<Rightarrow> inet en ip, ''invalid input syntax for type inet''),
     (amount_ok (or_items r), ''orders_items_subtotal_minor_check''),
     (amount_ok (or_tax r), ''orders_tax_total_minor_check''),
     (amount_ok (or_grand r), ''orders_grand_total_minor_check''),
     (amount_ok (or_refunded r), ''orders_refunded_total_minor_check''),
     (length (or_country r) = 2 \<and> upper_letters (or_country r), ''orders_place_of_supply_country_check''),
     (case or_state r of None \<Rightarrow> True | Some st \<Rightarrow> 1 \<le> st \<and> st \<le> 99, ''orders_place_of_supply_state_check''),
     (or_grand r = or_items r + or_tax r, ''orders_total_is_consistent''),
     (or_refunded r \<le> or_grand r, ''orders_refund_within_total''),
     (or_status r \<notin> {StatusPaid, StatusFulfilled, StatusCompleted} \<or> or_paid r \<noteq> None, ''orders_paid_has_timestamp''),
     (\<not> or_b2b r \<or> or_gstin r \<noteq> None, ''orders_b2b_has_gstin''),
     (or_country r \<noteq> ''IN'' \<or> or_state r \<noteq> None, ''orders_domestic_has_state'')]"

definition insert_order :: "env \<Rightarrow> order_row \<Rightarrow> database \<Rightarrow> order_error + unit \<times> database" where
  "insert_order en r d = bindE (order_checks en r) (\<lambda>_.
     bindE (check_all [
       (or_id r \<notin> set (map or_id (orders d)), ''orders_pkey''),
       (or_public r \<notin> set (map or_public (orders d)), ''orders_public_id_key''),
       (or_number r \<notin> set (map or_number (orders d)), ''orders_order_number_key'')]) (\<lambda>_.
     Inr ((), d\<lparr>orders := orders d @ [r]\<rparr>)))"

definition order_core :: "order_row \<Rightarrow> nat \<times> string \<times> string \<times> nat \<times> string \<times> int" where
  "order_core r = (or_id r, or_public r, or_number r, or_buyer r, or_currency r, or_created r)"

text \<open>The triggers of an UPDATE run in the order of their names, then the CHECK constraints.\<close>

definition order_update_ok :: "env \<Rightarrow> order_row \<Rightarrow> order_row \<Rightarrow> order_error + unit" where
  "order_update_ok en old new =
    (if order_core new \<noteq> order_core old then Inl (RaisedE ''column is immutable once written'')
     else if \<not> transition_ok (or_status old) (or_status new) then Inl (RaisedE ''order cannot move'')
     else order_checks en new)"

text \<open>\<open>UPDATE ... WHERE\<close>: the number of rows that matched, and the table.\<close>

definition update_orders :: "env \<Rightarrow> (order_row \<Rightarrow> bool) \<Rightarrow> (order_row \<Rightarrow> order_row) \<Rightarrow> database \<Rightarrow> order_error + nat \<times> database" where
  "update_orders en p f d = bindE (mapE (\<lambda>r. if p r then bindE (order_update_ok en r (f r)) (\<lambda>_. Inr (f r)) else Inr r) (orders d)) (\<lambda>rs.
     Inr (length (filter p (orders d)), d\<lparr>orders := rs\<rparr>))"

definition insert_event :: "order_event \<Rightarrow> database \<Rightarrow> order_error + unit \<times> database" where
  "insert_event e d = bindE (check_all [
     (ev_actor_kind e \<in> {''user'', ''seller'', ''admin'', ''system'', ''provider''}, ''order_events_actor_kind_check''),
     (ev_order e \<in> set (map or_id (orders d)), ''order_events_order_id_fkey'')]) (\<lambda>_.
     Inr ((), d\<lparr>events := events d @ [e]\<rparr>))"

subsection \<open>\<open>order_items\<close>\<close>

definition item_checks :: "item_row \<Rightarrow> order_error + unit" where
  "item_checks r = check_all [
     (currency_code (it_currency r), ''currency_code''),
     (char_fits 15 (it_gstin r), ''value too long for type character(15)''),
     (char_fits 10 (it_pan r), ''value too long for type character(10)''),
     (smallint_ok (it_state r), ''smallint out of range''),
     (amount_ok (it_unit r), ''order_items_unit_price_minor_check''),
     (amount_ok (it_line_total r), ''order_items_line_total_minor_check''),
     (bps_ok (it_gst_bps r) \<and> bps_ok (it_commission_bps r) \<and> bps_ok (it_tcs_bps r) \<and> bps_ok (it_tds_bps r), ''basis_points''),
     (amount_ok (it_cgst r), ''order_items_cgst_minor_check''),
     (amount_ok (it_sgst r), ''order_items_sgst_minor_check''),
     (amount_ok (it_igst r), ''order_items_igst_minor_check''),
     (amount_ok (it_tax r), ''order_items_tax_total_minor_check''),
     (amount_ok (it_buyer_total r), ''order_items_buyer_total_minor_check''),
     (amount_ok (it_commission r), ''order_items_commission_minor_check''),
     (amount_ok (it_commission_gst r), ''order_items_commission_gst_minor_check''),
     (amount_ok (it_tcs r), ''order_items_tcs_minor_check''),
     (amount_ok (it_tds r), ''order_items_tds_minor_check''),
     (amount_ok (it_psp r), ''order_items_psp_fee_minor_check''),
     (amount_ok (it_psp_gst r), ''order_items_psp_fee_gst_minor_check''),
     (money_minor (it_net r), ''money_minor''),
     (amount_ok (it_refunded r), ''order_items_refunded_minor_check''),
     (it_status r \<in> {''pending'', ''paid'', ''fulfilled'', ''refunded'', ''partially_refunded'', ''cancelled'', ''charged_back''},
        ''order_items_status_check''),
     (it_igst r = 0 \<or> it_cgst r = 0 \<and> it_sgst r = 0, ''order_items_tax_split_is_exclusive''),
     (it_tax r = it_cgst r + it_sgst r + it_igst r, ''order_items_tax_total_matches_components''),
     (0 < it_igst r \<or> it_cgst r = it_sgst r, ''order_items_intra_state_split_is_even''),
     (it_buyer_total r = it_line_total r + it_tax r, ''order_items_buyer_total_matches''),
     (it_refunded r \<le> it_buyer_total r, ''order_items_refund_within_total'')]"

definition insert_item :: "item_row \<Rightarrow> database \<Rightarrow> order_error + unit \<times> database" where
  "insert_item r d = bindE (item_checks r) (\<lambda>_. bindE (check_all [
     (it_id r \<notin> set (map it_id (items d)), ''order_items_pkey''),
     (it_public r \<notin> set (map it_public (items d)), ''order_items_public_id_key''),
     (it_order r \<in> set (map or_id (orders d)), ''order_items_order_id_fkey''),
     (it_product r \<in> set (map pr_id (products d)), ''order_items_product_id_fkey''),
     (it_variant r \<in> set (map va_id (variants d)), ''order_items_variant_id_fkey''),
     (it_seller r \<in> set (map sl_id (sellers d)), ''order_items_seller_id_fkey'')]) (\<lambda>_.
     Inr ((), d\<lparr>items := items d @ [r]\<rparr>)))"

text \<open>
  The columns the code updates are the status, the refunded amount and the fulfilment time; the
  others are written back as they are.
\<close>

definition update_items :: "(item_row \<Rightarrow> bool) \<Rightarrow> (item_row \<Rightarrow> string) \<Rightarrow> (item_row \<Rightarrow> int) \<Rightarrow> (item_row \<Rightarrow> int option) \<Rightarrow> database
    \<Rightarrow> order_error + nat \<times> database" where
  "update_items p st rf ff d =
     bindE (mapE (\<lambda>r. if p r then let r' = r\<lparr>it_status := st r, it_refunded := rf r, it_fulfilled := ff r\<rparr>
                              in bindE (item_checks r') (\<lambda>_. Inr r') else Inr r) (items d)) (\<lambda>rs.
     Inr (length (filter p (items d)), d\<lparr>items := rs\<rparr>))"

subsection \<open>\<open>payment_intents\<close>, \<open>payments\<close>, \<open>payment_transfers\<close>\<close>

definition insert_intent :: "intent_row \<Rightarrow> database \<Rightarrow> order_error + unit \<times> database" where
  "insert_intent r d = bindE (check_all [
     (in_provider r \<in> {''razorpay_route'', ''bridge'', ''mor''}, ''payment_intents_provider_check''),
     (positive_ok (in_amount r), ''payment_intents_amount_minor_check''),
     (currency_code (in_currency r), ''currency_code''),
     (in_status r \<in> {''created'', ''requires_action'', ''processing'', ''succeeded'', ''failed'', ''cancelled'', ''expired''},
        ''payment_intents_status_check''),
     (in_id r \<notin> set (map in_id (intents d)), ''payment_intents_pkey''),
     (\<forall>x \<in> set (intents d). \<not> (in_provider x = in_provider r \<and> in_ref x = in_ref r), ''payment_intents_provider_uq''),
     (in_order r \<in> set (map or_id (orders d)), ''payment_intents_order_id_fkey'')]) (\<lambda>_.
     Inr ((), d\<lparr>intents := intents d @ [r]\<rparr>))"

definition update_intents :: "(intent_row \<Rightarrow> bool) \<Rightarrow> string \<Rightarrow> database \<Rightarrow> order_error + nat \<times> database" where
  "update_intents p st d =
     Inr (length (filter p (intents d)), d\<lparr>intents := map (\<lambda>r. if p r then r\<lparr>in_status := st\<rparr> else r) (intents d)\<rparr>)"

definition payment_methods :: "string set" where
  "payment_methods = {''upi'', ''card'', ''netbanking'', ''wallet'', ''emi'', ''paylater'', ''international_card'', ''unknown''}"

text \<open>\<open>ON CONFLICT (provider, provider_payment_id) DO NOTHING\<close>.\<close>

definition insert_payment :: "payment_row \<Rightarrow> database \<Rightarrow> order_error + unit \<times> database" where
  "insert_payment r d = bindE (check_all [
     (pa_method r \<in> payment_methods, ''payments_method_check''),
     (positive_ok (pa_amount r), ''payments_amount_minor_check''),
     (currency_code (pa_currency r), ''currency_code''),
     (case pa_fee r of None \<Rightarrow> True | Some v \<Rightarrow> amount_ok v, ''payments_provider_fee_minor_check''),
     (case pa_fee_tax r of None \<Rightarrow> True | Some v \<Rightarrow> amount_ok v, ''payments_provider_tax_minor_check'')]) (\<lambda>_.
     if \<exists>x \<in> set (payments d). pa_provider x = pa_provider r \<and> pa_ref x = pa_ref r then Inr ((), d)
     else bindE (check_all [
       (pa_id r \<notin> set (map pa_id (payments d)), ''payments_pkey''),
       (pa_order r \<in> set (map or_id (orders d)), ''payments_order_id_fkey'')]) (\<lambda>_.
     Inr ((), d\<lparr>payments := payments d @ [r]\<rparr>)))"

text \<open>\<open>ON CONFLICT (order_item_id) DO NOTHING\<close>.\<close>

definition insert_transfer :: "transfer_row \<Rightarrow> database \<Rightarrow> order_error + unit \<times> database" where
  "insert_transfer r d = bindE (check_all [
     (positive_ok (tr_amount r), ''payment_transfers_amount_minor_check''),
     (currency_code (tr_currency r), ''currency_code''),
     (tr_status r \<in> {''pending'', ''on_hold'', ''created'', ''processed'', ''reversed'', ''failed'', ''cancelled''},
        ''payment_transfers_status_check''),
     (amount_ok (tr_reversed r) \<and> tr_reversed r \<le> tr_amount r, ''payment_transfers_reversal_within_amount'')]) (\<lambda>_.
     if tr_item r \<in> set (map tr_item (transfers d)) then Inr ((), d)
     else bindE (check_all [
       (tr_id r \<notin> set (map tr_id (transfers d)), ''payment_transfers_pkey''),
       (tr_payment r \<in> set (map pa_id (payments d)), ''payment_transfers_payment_id_fkey''),
       (tr_item r \<in> set (map it_id (items d)), ''payment_transfers_order_item_id_fkey''),
       (tr_seller r \<in> set (map sl_id (sellers d)), ''payment_transfers_seller_id_fkey'')]) (\<lambda>_.
     Inr ((), d\<lparr>transfers := transfers d @ [r]\<rparr>)))"

text \<open>A transfer's status is updated with its hold, release, reversal and failure columns.\<close>

datatype transfer_change = Reverse | Cancel | Release int | Rehold int | MarkProcessed int | MarkFailed string

fun change_transfer :: "transfer_change \<Rightarrow> transfer_row \<Rightarrow> transfer_row" where
  "change_transfer Reverse r = r\<lparr>tr_status := ''reversed'', tr_reversed := tr_amount r\<rparr>"
| "change_transfer Cancel r = r\<lparr>tr_status := ''cancelled''\<rparr>"
| "change_transfer (Release now) r = r\<lparr>tr_status := ''processed'', tr_released := Some now\<rparr>"
| "change_transfer (Rehold t) r = r\<lparr>tr_status := ''on_hold'', tr_hold_until := max (tr_hold_until r) t\<rparr>"
| "change_transfer (MarkProcessed now) r = r\<lparr>tr_status := ''processed'',
     tr_released := (case tr_released r of None \<Rightarrow> Some now | Some t \<Rightarrow> Some t)\<rparr>"
| "change_transfer (MarkFailed msg) r = r\<lparr>tr_status := ''failed'', tr_failure := Some msg\<rparr>"

definition update_transfers :: "(transfer_row \<Rightarrow> bool) \<Rightarrow> transfer_change \<Rightarrow> database \<Rightarrow> order_error + nat \<times> database" where
  "update_transfers p c d =
     Inr (length (filter p (transfers d)), d\<lparr>transfers := map (\<lambda>r. if p r then change_transfer c r else r) (transfers d)\<rparr>)"

subsection \<open>\<open>licenses\<close>, \<open>refunds\<close>, \<open>chargebacks\<close>, \<open>settlement_offsets\<close>\<close>

definition insert_license :: "license_row \<Rightarrow> database \<Rightarrow> order_error + unit \<times> database" where
  "insert_license r d = bindE (check_all [
     (li_status r \<in> {''active'', ''expired'', ''revoked'', ''refunded''}, ''licenses_status_check''),
     (0 < li_limit r \<and> li_limit r \<le> 2147483647, ''licenses_download_limit_check'')]) (\<lambda>_.
     if li_item r \<in> set (map li_item (licenses d)) then Inr ((), d)
     else bindE (check_all [
       (li_id r \<notin> set (map li_id (licenses d)), ''licenses_pkey''),
       (li_public r \<notin> set (map li_public (licenses d)), ''licenses_public_id_key''),
       (li_item r \<in> set (map it_id (items d)), ''licenses_order_item_id_fkey''),
       (li_product r \<in> set (map pr_id (products d)), ''licenses_product_id_fkey''),
       (li_variant r \<in> set (map va_id (variants d)), ''licenses_variant_id_fkey'')]) (\<lambda>_.
     Inr ((), d\<lparr>licenses := licenses d @ [r]\<rparr>)))"

definition refund_licenses :: "nat \<Rightarrow> database \<Rightarrow> order_error + nat \<times> database" where
  "refund_licenses item d = (let p = (\<lambda>r. li_item r = item \<and> li_status r = ''active'') in
     Inr (length (filter p (licenses d)), d\<lparr>licenses := map (\<lambda>r. if p r then r\<lparr>li_status := ''refunded''\<rparr> else r) (licenses d)\<rparr>))"

definition refund_reasons :: "string set" where
  "refund_reasons = {''buyer_request'', ''not_as_described'', ''duplicate'', ''fraud'', ''seller_request'',
     ''dispute_resolution'', ''goodwill'', ''failed_delivery'', ''chargeback_preempt''}"

definition insert_refund :: "refund_row \<Rightarrow> database \<Rightarrow> order_error + unit \<times> database" where
  "insert_refund r d = bindE (check_all [
     (positive_ok (rf_amount r), ''refunds_amount_minor_check''),
     (currency_code (rf_currency r), ''currency_code''),
     (rf_reason r \<in> refund_reasons, ''refunds_reason_check''),
     (rf_status r \<in> {''requested'', ''approved'', ''processing'', ''succeeded'', ''failed'', ''rejected''}, ''refunds_status_check''),
     (amount_ok (rf_retained r), ''refunds_psp_fee_retained_minor_check''),
     (rf_recovery r \<in> {''transfer_reversal'', ''future_settlement_offset'', ''platform_absorbed''}, ''refunds_seller_recovery_mode_check''),
     (rf_id r \<notin> set (map rf_id (refunds d)), ''refunds_pkey''),
     (rf_public r \<notin> set (map rf_public (refunds d)), ''refunds_public_id_key''),
     (rf_ref r = None \<or> (\<forall>x \<in> set (refunds d). \<not> (rf_provider x = rf_provider r \<and> rf_ref x = rf_ref r)), ''refunds_provider_uq''),
     (rf_order r \<in> set (map or_id (orders d)), ''refunds_order_id_fkey''),
     (rf_item r \<in> set (map it_id (items d)), ''refunds_order_item_id_fkey''),
     (rf_payment r \<in> set (map pa_id (payments d)), ''refunds_payment_id_fkey'')]) (\<lambda>_.
     Inr ((), d\<lparr>refunds := refunds d @ [r]\<rparr>))"

definition update_refunds :: "(refund_row \<Rightarrow> bool) \<Rightarrow> string \<Rightarrow> database \<Rightarrow> order_error + nat \<times> database" where
  "update_refunds p st d =
     Inr (length (filter p (refunds d)), d\<lparr>refunds := map (\<lambda>r. if p r then r\<lparr>rf_status := st\<rparr> else r) (refunds d)\<rparr>)"

definition insert_chargeback :: "chargeback_row \<Rightarrow> database \<Rightarrow> order_error + unit \<times> database" where
  "insert_chargeback r d = bindE (check_all [
     (cb_network r \<in> {''visa'', ''mastercard'', ''rupay'', ''amex'', ''diners'', ''upi'', ''other''}, ''chargebacks_network_check''),
     (positive_ok (cb_amount r), ''chargebacks_amount_minor_check''),
     (currency_code (cb_currency r), ''currency_code''),
     (cb_status r \<in> {''received'', ''evidence_required'', ''evidence_submitted'', ''won'', ''lost'', ''accepted'', ''expired''},
        ''chargebacks_status_check'')]) (\<lambda>_.
     if \<exists>x \<in> set (chargebacks d). cb_provider x = cb_provider r \<and> cb_ref x = cb_ref r then Inr ((), d)
     else bindE (check_all [
       (cb_id r \<notin> set (map cb_id (chargebacks d)), ''chargebacks_pkey''),
       (cb_order r \<in> set (map or_id (orders d)), ''chargebacks_order_id_fkey''),
       (cb_payment r \<in> set (map pa_id (payments d)), ''chargebacks_payment_id_fkey'')]) (\<lambda>_.
     Inr ((), d\<lparr>chargebacks := chargebacks d @ [r]\<rparr>)))"

definition update_chargebacks :: "(chargeback_row \<Rightarrow> bool) \<Rightarrow> string \<Rightarrow> database \<Rightarrow> order_error + nat \<times> database" where
  "update_chargebacks p st d =
     Inr (length (filter p (chargebacks d)), d\<lparr>chargebacks := map (\<lambda>r. if p r then r\<lparr>cb_status := st\<rparr> else r) (chargebacks d)\<rparr>)"

definition offset_checks :: "offset_row \<Rightarrow> order_error + unit" where
  "offset_checks r = check_all [
     (of_origin r \<in> {''refund'', ''chargeback'', ''fee_correction'', ''manual_adjustment''}, ''settlement_offsets_origin_check''),
     (positive_ok (of_amount r), ''settlement_offsets_amount_minor_check''),
     (amount_ok (of_applied r), ''settlement_offsets_applied_minor_check''),
     (currency_code (of_currency r), ''currency_code''),
     (of_status r \<in> {''outstanding'', ''partially_applied'', ''settled'', ''written_off''}, ''settlement_offsets_status_check''),
     (of_applied r \<le> of_amount r, ''settlement_offsets_applied_within_amount'')]"

definition insert_offset :: "offset_row \<Rightarrow> database \<Rightarrow> order_error + unit \<times> database" where
  "insert_offset r d = bindE (offset_checks r) (\<lambda>_. bindE (check_all [
     (of_id r \<notin> set (map of_id (offsets d)), ''settlement_offsets_pkey''),
     (of_public r \<notin> set (map of_public (offsets d)), ''settlement_offsets_public_id_key''),
     (of_seller r \<in> set (map sl_id (sellers d)), ''settlement_offsets_seller_id_fkey'')]) (\<lambda>_.
     Inr ((), d\<lparr>offsets := offsets d @ [r]\<rparr>)))"

definition update_offset :: "nat \<Rightarrow> int \<Rightarrow> string \<Rightarrow> database \<Rightarrow> order_error + unit \<times> database" where
  "update_offset i applied st d =
     bindE (mapE (\<lambda>r. if of_id r = i then let r' = r\<lparr>of_applied := applied, of_status := st\<rparr>
                              in bindE (offset_checks r') (\<lambda>_. Inr r') else Inr r) (offsets d)) (\<lambda>rs.
     Inr ((), d\<lparr>offsets := rs\<rparr>))"


subsection \<open>Turnover, invoices and their numbers\<close>

text \<open>The sequence number of a delta is the serial the table assigns.\<close>

definition insert_delta :: "delta_row \<Rightarrow> database \<Rightarrow> order_error + unit \<times> database" where
  "insert_delta r d = bindE (check_all [
     (currency_code (de_currency r), ''currency_code''),
     (money_minor (de_gross r) \<and> money_minor (de_taxable r) \<and> money_minor (de_tds r) \<and> money_minor (de_tcs r)
        \<and> money_minor (de_refunded r) \<and> money_minor (de_commission r) \<and> money_minor (de_export r), ''money_minor''),
     (case de_seller r of None \<Rightarrow> True | Some i \<Rightarrow> i \<in> set (map sl_id (sellers d)), ''turnover_deltas_seller_id_fkey'')]) (\<lambda>_.
     Inr ((), d\<lparr>deltas := deltas d @ [r\<lparr>de_seq := length (deltas d) + 1\<rparr>]\<rparr>))"

text \<open>\<open>seller_fy_gross\<close>: the rolled-up total and the deltas after its watermark.\<close>

definition seller_fy_gross :: "database \<Rightarrow> nat \<Rightarrow> int \<Rightarrow> string \<Rightarrow> order_error + int" where
  "seller_fy_gross d i fy cu =
    (let t = find (\<lambda>t. tu_seller t = i \<and> tu_fy t = fy \<and> tu_currency t = cu) (turnover d);
         rolled = (case t of None \<Rightarrow> 0 | Some t \<Rightarrow> tu_gross t);
         wm = (case t of None \<Rightarrow> 0 | Some t \<Rightarrow> tu_through t);
         tail = sum_list (map de_gross (filter (\<lambda>x. de_seller x = Some i \<and> de_fy x = fy \<and> de_currency x = cu \<and> wm < de_seq x) (deltas d)))
     in if in_i64 tail \<and> in_i64 (rolled + tail) then Inr (rolled + tail) else Inl (SqlE ''bigint out of range''))"

text \<open>\<open>lpad(s, n, '0')\<close> pads on the left, and cuts a longer text; \<open>to_char(d, 'YY')\<close>.\<close>

definition lpad :: "nat \<Rightarrow> string \<Rightarrow> string" where
  "lpad n s = take n (pad0 n s)"

definition year_yy :: "int \<Rightarrow> string" where
  "year_yy t = pad0 2 (dec_int (Year t mod 100))"

definition year_later :: "int \<Rightarrow> int" where
  "year_later t = Date (Year t + 1) (Month t) 1"

text \<open>\<open>next_order_number\<close>: \<open>nextval\<close> is not undone when the transaction is.\<close>

definition next_order_number :: "int \<Rightarrow> string op" where
  "next_order_number fy w = (Inr (''ORD/'' @ year_yy fy @ year_yy (year_later fy) @ ''/'' @ lpad 8 (dec_nat (w_order_seq w))),
     w\<lparr>w_order_seq := w_order_seq w + 1\<rparr>)"

definition next_invoice_number :: "string \<Rightarrow> int \<Rightarrow> string \<Rightarrow> database \<Rightarrow> order_error + string \<times> database" where
  "next_invoice_number knd fy prefix d =
    (let (p, n) = (case map_of (series d) (knd, fy) of None \<Rightarrow> (prefix, 1) | Some pn \<Rightarrow> pn)
     in Inr (p @ ''/'' @ year_yy fy @ year_yy (year_later fy) @ ''/'' @ lpad 6 (dec_nat n),
             d\<lparr>series := AList.update (knd, fy) (p, n + 1) (series d)\<rparr>))"

definition insert_invoice :: "invoice_row \<Rightarrow> database \<Rightarrow> order_error + unit \<times> database" where
  "insert_invoice r d = bindE (check_all [
     (iv_kind r \<in> {''seller_supply'', ''platform_commission'', ''credit_note''}, ''invoices_kind_check''),
     (char_fits 15 (iv_supplier_gstin r) \<and> char_fits 15 (iv_recipient_gstin r), ''value too long for type character(15)''),
     (smallint_ok (iv_supplier_state r) \<and> smallint_ok (iv_state r), ''smallint out of range''),
     (currency_code (iv_currency r), ''currency_code''),
     (amount_ok (iv_taxable r), ''invoices_taxable_value_minor_check''),
     (amount_ok (iv_cgst r), ''invoices_cgst_minor_check''),
     (amount_ok (iv_sgst r), ''invoices_sgst_minor_check''),
     (amount_ok (iv_igst r), ''invoices_igst_minor_check''),
     (amount_ok (iv_total r), ''invoices_total_minor_check''),
     (iv_total r = iv_taxable r + iv_cgst r + iv_sgst r + iv_igst r, ''invoices_total_matches''),
     (iv_igst r = 0 \<or> iv_cgst r = 0 \<and> iv_sgst r = 0, ''invoices_tax_split_exclusive''),
     (\<forall>x \<in> set (invoices d). \<not> (iv_kind x = iv_kind r \<and> iv_fy x = iv_fy r \<and> iv_number x = iv_number r),
        ''invoices_kind_fy_start_invoice_number_key''),
     (iv_order r \<in> set (map or_id (orders d)), ''invoices_order_id_fkey''),
     (iv_item r \<in> set (map it_id (items d)), ''invoices_order_item_id_fkey''),
     (iv_seller r \<in> set (map sl_id (sellers d)), ''invoices_seller_id_fkey'')]) (\<lambda>_.
     Inr ((), d\<lparr>invoices := invoices d @ [r]\<rparr>))"

subsection \<open>Idempotency keys, webhook events, reconciliation\<close>

definition insert_idem :: "idem_row \<Rightarrow> database \<Rightarrow> order_error + unit \<times> database" where
  "insert_idem r d = bindE (check_all [
     (8 \<le> char_count (ik_key r) \<and> char_count (ik_key r) \<le> 255, ''idempotency_keys_idempotency_key_check''),
     (length (ik_fingerprint r) = 32, ''sha256_digest''),
     (\<forall>x \<in> set (idem_keys d). \<not> (ik_key x = ik_key r \<and> ik_user x = ik_user r), ''idempotency_keys_unique_idx'')]) (\<lambda>_.
     Inr ((), d\<lparr>idem_keys := idem_keys d @ [r]\<rparr>))"

definition insert_webhook :: "webhook_row \<Rightarrow> database \<Rightarrow> order_error + unit \<times> database" where
  "insert_webhook r d = bindE (check_all [
     (length (wh_digest r) = 32, ''sha256_digest''),
     (\<forall>x \<in> set (webhooks d). \<not> (wh_provider x = wh_provider r \<and> wh_event x = wh_event r), ''provider_webhook_events_uq'')]) (\<lambda>_.
     Inr ((), d\<lparr>webhooks := webhooks d @ [r]\<rparr>))"

definition update_webhook :: "string \<Rightarrow> string \<Rightarrow> string \<Rightarrow> (webhook_row \<Rightarrow> string option) \<Rightarrow> database \<Rightarrow> order_error + nat \<times> database" where
  "update_webhook prov ev st err d = (let p = (\<lambda>r. wh_provider r = prov \<and> wh_event r = ev) in
     Inr (length (filter p (webhooks d)),
          d\<lparr>webhooks := map (\<lambda>r. if p r then r\<lparr>wh_status := st, wh_attempts := wh_attempts r + 1, wh_error := err r\<rparr> else r) (webhooks d)\<rparr>))"

definition insert_run :: "run_row \<Rightarrow> database \<Rightarrow> order_error + unit \<times> database" where
  "insert_run r d = bindE (check_all [
     (currency_code (rn_currency r), ''currency_code''),
     (rn_id r \<notin> set (map rn_id (runs d)), ''reconciliation_runs_pkey'')]) (\<lambda>_.
     Inr ((), d\<lparr>runs := runs d @ [r]\<rparr>))"

definition insert_difference :: "difference_row \<Rightarrow> database \<Rightarrow> order_error + unit \<times> database" where
  "insert_difference r d = bindE (check_all [
     (case df_expected r of None \<Rightarrow> True | Some v \<Rightarrow> money_minor v, ''money_minor''),
     (money_minor (df_actual r), ''money_minor''),
     (currency_code (df_currency r), ''currency_code''),
     (df_run r \<in> set (map rn_id (runs d)), ''reconciliation_differences_run_id_fkey'')]) (\<lambda>_.
     Inr ((), d\<lparr>differences := differences d @ [r]\<rparr>))"

subsection \<open>Sellers and the catalogue\<close>

text \<open>\<open>UPDATE sellers ... RETURNING public_id\<close>, read with \<open>QueryRow\<close>: the first row that matched.\<close>

definition set_account_status :: "string \<Rightarrow> string \<Rightarrow> int option \<Rightarrow> database \<Rightarrow> order_error + string option \<times> database" where
  "set_account_status account st activated d =
    (let p = (\<lambda>r. sl_account r = Some account) in
     Inr (map_option sl_public (find p (sellers d)),
          d\<lparr>sellers := map (\<lambda>r. if p r then r\<lparr>sl_account_status := st,
              sl_activated := (case sl_activated r of None \<Rightarrow> activated | Some t \<Rightarrow> Some t)\<rparr> else r) (sellers d)\<rparr>))"

definition variant_sold :: "nat \<Rightarrow> database \<Rightarrow> order_error + unit \<times> database" where
  "variant_sold i d =
     bindE (mapE (\<lambda>r. if va_id r = i then let r' = r\<lparr>va_sales := va_sales r + 1\<rparr>
        in bindE (check_all [
             (va_sales r' \<le> 2147483647, ''integer out of range''),
             (0 \<le> va_sales r', ''product_variants_sales_count_check''),
             (case va_max r' of None \<Rightarrow> True | Some m \<Rightarrow> va_sales r' \<le> m, ''product_variants_within_max_sales'')]) (\<lambda>_. Inr r')
        else Inr r) (variants d)) (\<lambda>rs.
     Inr ((), d\<lparr>variants := rs\<rparr>))"

definition product_sold :: "nat \<Rightarrow> database \<Rightarrow> order_error + unit \<times> database" where
  "product_sold i d = Inr ((), d\<lparr>products := map (\<lambda>r. if pr_id r = i then r\<lparr>pr_sales := pr_sales r + 1\<rparr> else r) (products d)\<rparr>)"

definition product_refunded :: "nat \<Rightarrow> database \<Rightarrow> order_error + unit \<times> database" where
  "product_refunded i d = Inr ((), d\<lparr>products := map (\<lambda>r. if pr_id r = i then r\<lparr>pr_refunds := pr_refunds r + 1\<rparr> else r) (products d)\<rparr>)"

subsection \<open>Ledger, outbox and audit log inside a transaction\<close>

definition post_entry :: "env \<Rightarrow> entry \<Rightarrow> posted op" where
  "post_entry en e = exec (\<lambda>d. wrapE LedgerE (bindE (Post (clock en) e (journal d)) (\<lambda>(p, l). Inr (p, d\<lparr>journal := l\<rparr>))))"

definition seller_account :: "nat \<Rightarrow> string \<Rightarrow> string \<Rightarrow> nat op" where
  "seller_account i purpose cu = exec (\<lambda>d. wrapE LedgerE (bindE (SellerAccount i purpose cu (journal d)) (\<lambda>(a, l). Inr (a, d\<lparr>journal := l\<rparr>))))"

definition account_by_code :: "string \<Rightarrow> nat op" where
  "account_by_code code = query (\<lambda>d. wrapE LedgerE (AccountByCode (journal d) code))"

definition publish :: "env \<Rightarrow> string \<Rightarrow> string \<Rightarrow> string \<Rightarrow> (string \<times> json) list \<Rightarrow> string \<Rightarrow> nat op" where
  "publish en topic agg agg_id payload key = bnd fresh (\<lambda>i. exec (\<lambda>d. wrapE OutboxE
     (bindE (PublishJSON (jsonb en) (\<lambda>p. Inr (json_text en p)) (request_id en) i (clock en) topic agg agg_id payload key (outbox d))
       (\<lambda>(n, ob). Inr (n, d\<lparr>outbox := ob\<rparr>)))))"

definition record_audit :: "env \<Rightarrow> event \<Rightarrow> unit op" where
  "record_audit en e = exec (\<lambda>d. wrapE AuditE
     (bindE (Record (sha256 en) (inet en) (request_id en) (time_text en (clock en)) e (auditlog d)) (\<lambda>l. Inr ((), d\<lparr>auditlog := l\<rparr>))))"

subsection \<open>One statement\<close>

text \<open>
  Every change the package makes is one of these. \<open>AuditLog\<close> and \<open>Outbox\<close> have the invariants of
  their own tables; the ledger's statements are \<open>Post\<close> and \<open>SellerAccount\<close>.
\<close>

inductive stmt :: "database \<Rightarrow> database \<Rightarrow> bool" where
  insert_order: "insert_order en r d = Inr (u, d') \<Longrightarrow> stmt d d'"
| update_orders: "update_orders en p f d = Inr (n, d') \<Longrightarrow> stmt d d'"
| insert_item: "insert_item i d = Inr (u, d') \<Longrightarrow> stmt d d'"
| update_items: "update_items pi si ri fi d = Inr (n, d') \<Longrightarrow> stmt d d'"
| insert_payment: "insert_payment pa d = Inr (u, d') \<Longrightarrow> stmt d d'"
| insert_transfer: "insert_transfer tr d = Inr (u, d') \<Longrightarrow> stmt d d'"
| update_transfers: "update_transfers pt ct d = Inr (n, d') \<Longrightarrow> stmt d d'"
| insert_license: "insert_license li d = Inr (u, d') \<Longrightarrow> stmt d d'"
| insert_refund: "insert_refund rf d = Inr (u, d') \<Longrightarrow> stmt d d'"
| update_refunds: "update_refunds pr sr d = Inr (n, d') \<Longrightarrow> stmt d d'"
| insert_chargeback: "insert_chargeback cb d = Inr (u, d') \<Longrightarrow> stmt d d'"
| update_chargebacks: "update_chargebacks pc sc d = Inr (n, d') \<Longrightarrow> stmt d d'"
| post: "Post now e (journal d) = Inr (pst, l) \<Longrightarrow> d' = d\<lparr>journal := l\<rparr> \<Longrightarrow> stmt d d'"
| open_account: "SellerAccount sid purpose cu (journal d) = Inr (a, l) \<Longrightarrow> d' = d\<lparr>journal := l\<rparr> \<Longrightarrow> stmt d d'"
| rest: "orders d' = orders d \<Longrightarrow> items d' = items d \<Longrightarrow> payments d' = payments d \<Longrightarrow> transfers d' = transfers d
    \<Longrightarrow> chargebacks d' = chargebacks d \<Longrightarrow> refunds d' = refunds d \<Longrightarrow> journal d' = journal d
    \<Longrightarrow> map (\<lambda>r. (li_id r, li_public r, li_item r, li_user r)) (licenses d') = map (\<lambda>r. (li_id r, li_public r, li_item r, li_user r)) (licenses d)
    \<Longrightarrow> stmt d d'"


abbreviation stmts :: "database \<Rightarrow> database \<Rightarrow> bool" where
  "stmts \<equiv> stmt\<^sup>*\<^sup>*"

interpretation stmts: step_relation stmts
  by unfold_locales auto

lemmas stmt_shape [keeps_intros] = stmts.keeps_ret stmts.keeps_fail stmts.keeps_lift stmts.keeps_query stmts.keeps_fresh
  stmts.keeps_call stmts.keeps_bnd stmts.keeps_new_public stmts.keeps_attempt stmts.keeps_forE stmts.keeps_loopE stmts.keeps_mapM

lemma keeps_stmt: "(\<And>d x d'. s d = Inr (x, d') \<Longrightarrow> stmt d d') \<Longrightarrow> keeps stmts (exec s)"
  by (rule stmts.keeps_exec) blast

lemma keeps_sequence [keeps_intros]: "keeps stmts (next_order_number fy)"
  by (simp add: keeps_def next_order_number_def)

lemma table_stmts [keeps_intros]:
  "keeps stmts (exec (insert_order en r))"
  "keeps stmts (exec (update_orders en p f))"
  "keeps stmts (exec (insert_item i))"
  "keeps stmts (exec (update_items pi si ri fi))"
  "keeps stmts (exec (insert_payment pa))"
  "keeps stmts (exec (insert_transfer tr))"
  "keeps stmts (exec (update_transfers pt ct))"
  "keeps stmts (exec (insert_license li))"
  "keeps stmts (exec (insert_refund rf))"
  "keeps stmts (exec (update_refunds prf sr))"
  "keeps stmts (exec (insert_chargeback cb))"
  "keeps stmts (exec (update_chargebacks pc sc))"
  by (rule keeps_stmt; rule stmt.intros; assumption)+

lemma other_stmts [keeps_intros]:
  "keeps stmts (exec (insert_event ev))"
  "keeps stmts (exec (insert_intent it))"
  "keeps stmts (exec (update_intents pin sin))"
  "keeps stmts (exec (refund_licenses item))"
  "keeps stmts (exec (insert_offset orow))"
  "keeps stmts (exec (update_offset oi applied ost))"
  "keeps stmts (exec (insert_delta de))"
  "keeps stmts (exec (next_invoice_number knd fy prefix))"
  "keeps stmts (exec (insert_invoice iv))"
  "keeps stmts (exec (insert_idem ik))"
  "keeps stmts (exec (insert_webhook wh))"
  "keeps stmts (exec (update_webhook prov wev wst werr))"
  "keeps stmts (exec (insert_run rn))"
  "keeps stmts (exec (insert_difference df))"
  "keeps stmts (exec (set_account_status account ast act))"
  "keeps stmts (exec (variant_sold vi))"
  "keeps stmts (exec (product_sold pi2))"
  "keeps stmts (exec (product_refunded pi3))"
  by (rule keeps_stmt, rule stmt.rest;
      auto simp: insert_event_def insert_intent_def update_intents_def refund_licenses_def insert_offset_def update_offset_def
        insert_delta_def next_invoice_number_def insert_invoice_def insert_idem_def insert_webhook_def update_webhook_def
        insert_run_def insert_difference_def set_account_status_def variant_sold_def product_sold_def product_refunded_def
        Let_def split: prod.splits option.splits)+

lemma module_stmts [keeps_intros]:
  "keeps stmts (post_entry en e)"
  "keeps stmts (seller_account i purpose cu)"
  "keeps stmts (account_by_code code)"
  "keeps stmts (publish en topic agg agg_id payload key)"
  "keeps stmts (record_audit en ae)"
proof -
  show "keeps stmts (post_entry en e)"
    unfolding post_entry_def by (rule keeps_stmt) (auto intro: stmt.post)
  show "keeps stmts (seller_account i purpose cu)"
    unfolding seller_account_def by (rule keeps_stmt) (auto intro: stmt.open_account)
  show "keeps stmts (account_by_code code)"
    unfolding account_by_code_def by (rule keeps_intros)
  show "keeps stmts (publish en topic agg agg_id payload key)"
    unfolding publish_def by (intro keeps_intros keeps_stmt, rule stmt.rest) auto
  show "keeps stmts (record_audit en ae)"
    unfolding record_audit_def by (rule keeps_stmt, rule stmt.rest) auto
qed

subsection \<open>Committed work\<close>

text \<open>
  What a transaction that commits does: a run of statements after which the deferred triggers of
  the ledger accept what was posted. An operation of the package is a sequence of them.
\<close>

definition committed :: "database \<Rightarrow> database \<Rightarrow> bool" where
  "committed d d' \<longleftrightarrow> stmts d d' \<and> commit_check (journal d) (journal d') = Inr ()"

abbreviation history :: "database \<Rightarrow> database \<Rightarrow> bool" where
  "history \<equiv> committed\<^sup>*\<^sup>*"

interpretation history: step_relation history
  by unfold_locales auto

named_theorems tx_intros \<open>rules for code outside a transaction\<close>

lemmas tx_shape [tx_intros] = history.keeps_ret history.keeps_fail history.keeps_lift history.keeps_query history.keeps_fresh
  history.keeps_call history.keeps_bnd history.keeps_attempt history.keeps_forE history.keeps_loopE history.keeps_mapM
  keeps_if keeps_option keeps_sum keeps_prod keeps_list keeps_Let

lemma keeps_committed [tx_intros]: "keeps stmts m \<Longrightarrow> keeps history (in_tx m)"
proof -
  assume m: "keeps stmts m"
  have "history (w_db w) (w_db (snd (in_tx m w)))" for w
  proof (cases "in_tx m w")
    case (Pair r w')
    show ?thesis
    proof (cases r)
      case (Inl e)
      then show ?thesis using in_tx_eq_Inl Pair by (metis rtranclp.rtrancl_refl snd_conv)
    next
      case (Inr x)
      then have "m w = (Inr x, w')" and c: "commit_check (journal (w_db w)) (journal (w_db w')) = Inr ()"
        using Pair by (simp_all add: in_tx_eq_Inr)
      then have "stmts (w_db w) (w_db w')" using m stmts.keeps_after by blast
      then show ?thesis using c Pair by (auto simp: committed_def)
    qed
  qed
  then show "keeps history (in_tx m)" by (simp add: keeps_def)
qed

end
