(* ===== verification/Checkout.thy ===== *)
theory Checkout
  imports OrderTables
begin

text \<open>
  \<open>internal/modules/orders/types.go\<close>, \<open>repository.go\<close> and \<open>checkout.go\<close>: an order is priced from the
  catalogue, persisted, read back, and handed to the payment provider. The proofs show that the
  stored totals are the sums of the stored lines, that a replayed checkout returns the order of the
  first one and writes nothing, and that no payment starts on another buyer's order.
\<close>

subsection \<open>Values\<close>

text \<open>Identifiers are numbers; the text of one is its decimal, and the zero UUID for 0.\<close>

definition uuid_str :: "nat \<Rightarrow> string" where
  "uuid_str n = (if n = 0 then zero_uuid else dec_nat n)"

record checkout_item =
  ProductPublicID :: string
  VariantPublicID :: string

record checkout_request =
  rq_BuyerID :: nat
  rq_Items :: "checkout_item list"
  rq_BuyerStateCode :: int
  rq_BuyerCountry :: string
  rq_BuyerGSTIN :: string
  rq_IsB2B :: bool
  rq_IP :: string
  rq_IdempotencyKey :: string

record line_breakdown =
  lb_ItemID :: nat
  lb_ItemPublicID :: string
  lb_ProductID :: nat
  lb_VariantID :: nat
  lb_SellerID :: nat
  lb_SellerPublicID :: string
  lb_Title :: string
  lb_Breakdown :: breakdown
  lb_ProviderAccount :: string
  lb_SettlementHoldUntil :: int

record order_view =
  od_ID :: nat
  od_PublicID :: string
  od_Number :: string
  od_BuyerID :: nat
  od_Status :: status
  od_Currency :: string
  od_ItemsTotal :: money
  od_TaxTotal :: money
  od_GrandTotal :: money
  od_Refunded :: money
  od_Lines :: "line_breakdown list"
  od_Country :: string
  od_State :: int
  od_CreatedAt :: int
  od_PaidAt :: "int option"
  od_ExpiresAt :: "int option"

record payment_handoff =
  ph_OrderPublicID :: string
  ph_ProviderIntentID :: string
  ph_Provider :: string
  ph_Amount :: money
  ph_CheckoutParams :: "(string \<times> string) list"
  ph_ExpiresAt :: int

definition nullIfZero :: "int \<Rightarrow> int option" where
  "nullIfZero v = (if v = 0 then None else Some v)"

definition fyStart :: "int \<Rightarrow> int" where
  "fyStart t = FinancialYearStart t"

definition day :: int where "day = 86400"

subsection \<open>\<open>LoadOrder\<close>\<close>

text \<open>
  One row of the items query. Fields \<open>LoadOrder\<close> leaves at their zero value are zero here; \<open>Supply\<close>,
  which has no zero value in the model and is not read again, is \<open>Exempt\<close>.
\<close>

definition load_line :: "env \<Rightarrow> int \<Rightarrow> seller_row \<Rightarrow> item_row \<Rightarrow> order_error + line_breakdown" where
  "load_line en created s r =
    (if \<not> Valid (it_currency r) then Inl (PanicE (ErrUnknownCurrency (it_currency r)))
     else let lc = it_currency r; mk = (\<lambda>v. \<lparr>minor = v, cur = lc\<rparr>); z = \<lparr>minor = 0, cur = ''''\<rparr>
       in Inr \<lparr>lb_ItemID = it_id r, lb_ItemPublicID = it_public r, lb_ProductID = it_product r,
         lb_VariantID = it_variant r, lb_SellerID = it_seller r, lb_SellerPublicID = sl_public s, lb_Title = it_title r,
         lb_Breakdown = \<lparr>Currency = lc, Supply = Exempt, ListPrice = mk (it_unit r), CGST = mk (it_cgst r), SGST = mk (it_sgst r),
           IGST = mk (it_igst r), TaxTotal = mk (it_tax r), BuyerTotal = mk (it_buyer_total r), GSTRateBps = it_gst_bps r,
           CommissionBps = it_commission_bps r, Commission = mk (it_commission r), CommissionGST = mk (it_commission_gst r),
           bd_CommissionGSTBps = 0, bd_TCSBps = it_tcs_bps r, TCSCGST = z, TCSSGST = z, TCSIGST = z, TCS = mk (it_tcs r),
           bd_TDSBps = it_tds_bps r, TDS = mk (it_tds r), TDSReason = '''', PSPFee = mk (it_psp r), PSPFeeGST = mk (it_psp_gst r),
           PSPFeeBorne = PSPFeeBearer (tax_policy en), SellerNet = mk (it_net r), PlatformMargin = z, Explain = []\<rparr>,
         lb_ProviderAccount = (if sl_account_status s = ''activated'' \<and> sl_kyc s = ''verified''
           then (case sl_account s of None \<Rightarrow> '''' | Some a \<Rightarrow> a) else ''''),
         lb_SettlementHoldUntil = created + sl_hold_days s * day\<rparr>)"

definition item_less :: "item_row \<Rightarrow> item_row \<Rightarrow> bool" where
  "item_less a b = (if it_created a \<noteq> it_created b then it_created a < it_created b else it_id a < it_id b)"

definition order_items :: "database \<Rightarrow> nat \<Rightarrow> (seller_row \<times> item_row) list" where
  "order_items d i = concat (map (\<lambda>r. map (\<lambda>s. (s, r)) (filter (\<lambda>s. sl_id s = it_seller r) (sellers d)))
     (stable_sort item_less (filter (\<lambda>r. it_order r = i) (items d))))"

definition LoadOrder :: "env \<Rightarrow> database \<Rightarrow> string \<Rightarrow> order_error + order_view" where
  "LoadOrder en d publicID = (case find (\<lambda>r. or_public r = publicID) (orders d) of
     None \<Rightarrow> Inl (ProblemE (NotFound ''Order not found.''))
   | Some r \<Rightarrow>
     let cu = or_currency r in
     bindE (wrapE MoneyE (New (or_items r) cu)) (\<lambda>itemsTotal.
     bindE (wrapE MoneyE (New (or_tax r) cu)) (\<lambda>taxTotal.
     bindE (wrapE MoneyE (New (or_grand r) cu)) (\<lambda>grand.
     bindE (wrapE MoneyE (New (or_refunded r) cu)) (\<lambda>refunded.
     bindE (mapE (\<lambda>(s, i). load_line en (or_created r) s i) (order_items d (or_id r))) (\<lambda>lines.
     Inr \<lparr>od_ID = or_id r, od_PublicID = or_public r, od_Number = or_number r, od_BuyerID = or_buyer r,
       od_Status = or_status r, od_Currency = cu, od_ItemsTotal = itemsTotal, od_TaxTotal = taxTotal,
       od_GrandTotal = grand, od_Refunded = refunded, od_Lines = lines, od_Country = or_country r,
       od_State = (case or_state r of None \<Rightarrow> 0 | Some st \<Rightarrow> st), od_CreatedAt = or_created r,
       od_PaidAt = or_paid r, od_ExpiresAt = or_expires r\<rparr>))))))"

definition load_order :: "env \<Rightarrow> string \<Rightarrow> order_view op" where
  "load_order en publicID = query (\<lambda>d. LoadOrder en d publicID)"

definition LoadOrderForBuyer :: "env \<Rightarrow> database \<Rightarrow> string \<Rightarrow> nat \<Rightarrow> order_error + order_view" where
  "LoadOrderForBuyer en d publicID buyerID = bindE (LoadOrder en d publicID) (\<lambda>o'.
     if od_BuyerID o' \<noteq> buyerID then Inl (ProblemE (NotFound ''Order not found.'')) else Inr o')"

definition ListOrdersForBuyer :: "env \<Rightarrow> database \<Rightarrow> nat \<Rightarrow> int \<Rightarrow> int \<Rightarrow> order_error + order_view list" where
  "ListOrdersForBuyer en d buyerID limit offset =
    (let limit = (if limit \<le> 0 \<or> 100 < limit then 25 else limit) in
     if offset < 0 then Inl (SqlE ''OFFSET must not be negative'')
     else mapE (LoadOrder en d) (take (nat limit) (drop (nat offset) (map or_public
       (stable_sort (\<lambda>a b. or_created a > or_created b) (filter (\<lambda>r. or_buyer r = buyerID) (orders d)))))))"

subsection \<open>Idempotency\<close>

definition bool_text :: "bool \<Rightarrow> string" where
  "bool_text b = (if b then ''true'' else ''false'')"

definition checkoutFingerprint :: "env \<Rightarrow> checkout_request \<Rightarrow> string" where
  "checkoutFingerprint en req =
    (let parts = stable_sort str_less (map (\<lambda>it. ProductPublicID it @ ''/'' @ VariantPublicID it) (rq_Items req))
     in sha256 en (''buyer='' @ uuid_str (rq_BuyerID req) @ ''|country='' @ to_upper (rq_BuyerCountry req)
          @ ''|state='' @ dec_int (rq_BuyerStateCode req) @ ''|b2b='' @ bool_text (rq_IsB2B req)
          @ ''|gstin='' @ rq_BuyerGSTIN req @ ''|items='' @ str_join '','' parts))"

text \<open>The keys of the scope \<open>checkout\<close>; the table holds no other scope's.\<close>

definition replayCheckout :: "env \<Rightarrow> checkout_request \<Rightarrow> database \<Rightarrow> order_error + order_view option" where
  "replayCheckout en req d = (case find (\<lambda>k. ik_key k = rq_IdempotencyKey req \<and> ik_user k = rq_BuyerID req) (idem_keys d) of
     None \<Rightarrow> Inr None
   | Some k \<Rightarrow>
     if ik_fingerprint k \<noteq> checkoutFingerprint en req
     then Inl (ProblemE (Conflict TypeIdempotencyReuse ''This idempotency key was already used for a different request.''))
     else if ik_status k \<noteq> ''completed'' \<or> ik_resource k = ''''
     then Inl (ProblemE (Conflict TypeIdempotencyReuse ''An identical request is still being processed.''))
     else bindE (LoadOrder en d (ik_resource k)) (\<lambda>o'. Inr (Some o')))"

definition claimIdempotency :: "env \<Rightarrow> checkout_request \<Rightarrow> string \<Rightarrow> unit op" where
  "claimIdempotency en req orderPublicID = bnd fresh (\<lambda>_. exec (insert_idem
     \<lparr>ik_key = rq_IdempotencyKey req, ik_user = rq_BuyerID req, ik_fingerprint = checkoutFingerprint en req,
      ik_status = ''completed'', ik_resource = orderPublicID\<rparr>))"

subsection \<open>The catalogue\<close>

record catalogue_line =
  cl_productID :: nat
  cl_variantID :: nat
  cl_sellerID :: nat
  cl_sellerPublicID :: string
  cl_title :: string
  cl_licenseType :: string
  cl_licenseTerms :: string
  cl_refundPolicy :: string
  cl_licenseDays :: "int option"
  cl_price :: money
  cl_deliveryType :: string
  cl_gstRegistered :: bool
  cl_gstin :: string
  cl_pan :: string
  cl_stateCode :: int
  cl_hasPAN :: bool
  cl_individual :: bool
  cl_fyGross :: int
  cl_commissionBps :: int
  cl_providerAccount :: string
  cl_holdDays :: int
  cl_maxSales :: "int option"
  cl_salesCount :: int

text \<open>The fee assignment in force: the latest that has started and has not ended.\<close>

definition commission_bps :: "database \<Rightarrow> int \<Rightarrow> nat \<Rightarrow> int" where
  "commission_bps d now i = (case stable_sort (\<lambda>a b. fe_from a > fe_from b)
       (filter (\<lambda>f. fe_seller f = i \<and> fe_from f \<le> now \<and> (case fe_to f of None \<Rightarrow> True | Some t \<Rightarrow> now < t)) (fees d)) of
     [] \<Rightarrow> 900 | f # _ \<Rightarrow> fe_bps f)"

definition catalogue_rows :: "database \<Rightarrow> string \<Rightarrow> string \<Rightarrow> (product_row \<times> variant_row \<times> seller_row) list" where
  "catalogue_rows d pp vp = concat (map (\<lambda>p. concat (map (\<lambda>v. map (\<lambda>s. (p, v, s))
       (filter (\<lambda>s. sl_id s = pr_seller p) (sellers d)))
       (filter (\<lambda>v. va_product v = pr_id p \<and> va_public v = vp) (variants d))))
     (filter (\<lambda>p. pr_public p = pp) (products d)))"

definition read_item :: "env \<Rightarrow> database \<Rightarrow> checkout_item \<Rightarrow> order_error + catalogue_line" where
  "read_item en d it = (case catalogue_rows d (ProductPublicID it) (VariantPublicID it) of
     [] \<Rightarrow> Inl (ProblemE (NotFound ''That product is no longer available.''))
   | (p, v, s) # _ \<Rightarrow>
     bindE (seller_fy_gross d (sl_id s) (fyStart (clock en)) (va_currency v)) (\<lambda>fyGross.
     bindE (wrapE MoneyE (New (va_price v) (va_currency v))) (\<lambda>price.
     if pr_status p \<noteq> ''published'' then Inl (ProblemE (Conflict TypeConflict ''That product is not currently on sale.''))
     else if \<not> va_active v then Inl (ProblemE (Conflict TypeConflict ''That option is no longer on sale.''))
     else if sl_status s \<noteq> ''active'' then Inl (ProblemE (Conflict TypeConflict ''That seller is not currently accepting orders.''))
     else if (case va_max v of None \<Rightarrow> False | Some m \<Rightarrow> m \<le> va_sales v)
     then Inl (ProblemE (Conflict TypeConflict ''That limited edition has sold out.''))
     else if IsNegative price then Inl (NegativePrice (va_id v))
     else Inr \<lparr>cl_productID = pr_id p, cl_variantID = va_id v, cl_sellerID = pr_seller p, cl_sellerPublicID = sl_public s,
       cl_title = pr_title p, cl_licenseType = pr_license_type p, cl_licenseTerms = pr_license_terms p,
       cl_refundPolicy = pr_refund_policy p, cl_licenseDays = pr_days p, cl_price = price, cl_deliveryType = pr_delivery p,
       cl_gstRegistered = sl_gst_registered s, cl_gstin = (case sl_gstin s of None \<Rightarrow> '''' | Some g \<Rightarrow> g),
       cl_pan = (case sl_pan s of None \<Rightarrow> '''' | Some q \<Rightarrow> q),
       cl_stateCode = (case sl_state s of None \<Rightarrow> 0 | Some st \<Rightarrow> st),
       cl_hasPAN = (case sl_pan s of None \<Rightarrow> False | Some q \<Rightarrow> q \<noteq> ''''),
       cl_individual = (sl_entity s = ''individual'' \<or> sl_entity s = ''huf'' \<or> sl_entity s = ''proprietorship''),
       cl_fyGross = fyGross, cl_commissionBps = commission_bps d (clock en) (sl_id s),
       cl_providerAccount = (if sl_kyc s \<noteq> ''verified'' \<or> sl_account_status s \<noteq> ''activated'' then ''''
         else (case sl_account s of None \<Rightarrow> '''' | Some a \<Rightarrow> a)),
       cl_holdDays = sl_hold_days s, cl_maxSales = va_max v, cl_salesCount = va_sales v\<rparr>)))"

definition readCatalogue :: "env \<Rightarrow> checkout_item list \<Rightarrow> database \<Rightarrow> order_error + catalogue_line list" where
  "readCatalogue en its d = bindE (foldE (\<lambda>it (seen, out).
       let key = ProductPublicID it @ ''/'' @ VariantPublicID it in
       if key \<in> set seen then Inl (ProblemE (Validation ''items'' ''duplicate''))
       else bindE (read_item en d it) (\<lambda>cl. Inr (seen @ [key], out @ [cl]))) its ([], []))
     (\<lambda>(seen, out). Inr out)"

subsection \<open>\<open>Checkout\<close>\<close>

definition nextOrderNumber :: "env \<Rightarrow> string op" where
  "nextOrderNumber en = next_order_number (fyStart (clock en))"

definition price_line :: "env \<Rightarrow> buyer \<Rightarrow> catalogue_line \<Rightarrow> order_error + breakdown" where
  "price_line en b cl = wrapE TaxE (Compute (tax_policy en)
     \<lparr>GSTRegistered = cl_gstRegistered cl, s_GSTIN = cl_gstin cl, s_StateCode = cl_stateCode cl, HasPAN = cl_hasPAN cl,
      ResidentIndividualOrHUF = cl_individual cl, FYGrossSupplyMinor = cl_fyGross cl, s_Country = ''IN''\<rparr> b
     \<lparr>l_ListPrice = cl_price cl, l_CommissionBps = cl_commissionBps cl, PSPFeeBps = pspFeeBps en, PSPFeeGSTBps = pspFeeGSTBps en\<rparr>)"

definition item_of :: "int \<Rightarrow> nat \<Rightarrow> string \<Rightarrow> nat \<Rightarrow> string \<Rightarrow> catalogue_line \<Rightarrow> breakdown \<Rightarrow> item_row" where
  "item_of now itemID itemPublicID orderID currency cl bd =
     \<lparr>it_id = itemID, it_public = itemPublicID, it_order = orderID, it_product = cl_productID cl, it_variant = cl_variantID cl,
      it_seller = cl_sellerID cl, it_title = cl_title cl, it_license_type = cl_licenseType cl,
      it_license_terms = cl_licenseTerms cl, it_refund_policy = cl_refundPolicy cl,
      it_gstin = nullIfEmpty (cl_gstin cl), it_pan = nullIfEmpty (cl_pan cl), it_state = nullIfZero (cl_stateCode cl),
      it_currency = currency, it_unit = minor (ListPrice bd), it_line_total = minor (ListPrice bd), it_gst_bps = GSTRateBps bd,
      it_cgst = minor (CGST bd), it_sgst = minor (SGST bd), it_igst = minor (IGST bd), it_tax = minor (TaxTotal bd),
      it_buyer_total = minor (BuyerTotal bd), it_commission_bps = CommissionBps bd, it_commission = minor (Commission bd),
      it_commission_gst = minor (CommissionGST bd), it_tcs_bps = bd_TCSBps bd, it_tcs = minor (TCS bd),
      it_tds_bps = bd_TDSBps bd, it_tds = minor (TDS bd), it_psp = minor (PSPFee bd), it_psp_gst = minor (PSPFeeGST bd),
      it_net = minor (SellerNet bd), it_refunded = 0, it_status = ''pending'', it_fulfilled = None, it_created = now\<rparr>"

type_synonym totals = "line_breakdown list \<times> money \<times> money \<times> money"

definition checkout_line :: "env \<Rightarrow> buyer \<Rightarrow> nat \<Rightarrow> string \<Rightarrow> catalogue_line \<Rightarrow> totals \<Rightarrow> totals op" where
  "checkout_line en b orderID currency cl acc = (case acc of (out, itemsTotal, taxTotal, grandTotal) \<Rightarrow>
     if cur (cl_price cl) \<noteq> currency then fail (ProblemE (Validation ''items'' ''mixed_currency''))
     else bnd (lift (price_line en b cl)) (\<lambda>bd.
       bnd fresh (\<lambda>itemID. bnd (new_public ''oit'') (\<lambda>itemPublicID.
       bnd (exec (insert_item (item_of (clock en) itemID itemPublicID orderID currency cl bd))) (\<lambda>_.
       bnd (lift (wrapE MoneyE (Add itemsTotal (ListPrice bd)))) (\<lambda>itemsTotal.
       bnd (lift (wrapE MoneyE (Add taxTotal (TaxTotal bd)))) (\<lambda>taxTotal.
       bnd (lift (wrapE MoneyE (Add grandTotal (BuyerTotal bd)))) (\<lambda>grandTotal.
       ret (out @ [\<lparr>lb_ItemID = itemID, lb_ItemPublicID = itemPublicID, lb_ProductID = cl_productID cl,
                    lb_VariantID = cl_variantID cl, lb_SellerID = cl_sellerID cl, lb_SellerPublicID = cl_sellerPublicID cl,
                    lb_Title = cl_title cl, lb_Breakdown = bd, lb_ProviderAccount = cl_providerAccount cl,
                    lb_SettlementHoldUntil = clock en + cl_holdDays cl * day\<rparr>],
            itemsTotal, taxTotal, grandTotal)))))))))"

definition place_order :: "env \<Rightarrow> checkout_request \<Rightarrow> string \<Rightarrow> order_view op" where
  "place_order en req country =
     bnd (query (readCatalogue en (rq_Items req))) (\<lambda>lines.
     bnd fresh (\<lambda>orderID. bnd (new_public ''ord'') (\<lambda>orderPublicID.
     bnd (nextOrderNumber en) (\<lambda>number.
     let now = clock en; currency = cur (cl_price (hd lines));
         b = \<lparr>b_Country = country, b_StateCode = rq_BuyerStateCode req, b_GSTIN = rq_BuyerGSTIN req, IsB2B = rq_IsB2B req\<rparr> in
     bnd (exec (insert_order en \<lparr>or_id = orderID, or_public = orderPublicID, or_number = number, or_buyer = rq_BuyerID req,
        or_status = StatusDraft, or_currency = currency, or_items = 0, or_tax = 0, or_grand = 0, or_refunded = 0,
        or_country = country, or_state = (if country = ''IN'' then Some (rq_BuyerStateCode req) else None),
        or_gstin = nullIfEmpty (rq_BuyerGSTIN req), or_b2b = rq_IsB2B req, or_ip = nullIfEmpty (rq_IP req),
        or_placed = None, or_paid = None, or_fulfilled = None, or_completed = None,
        or_expires = Some (now + 1800), or_created = now\<rparr>)) (\<lambda>_.
     bnd (loopE (checkout_line en b orderID currency) lines ([], Zero currency, Zero currency, Zero currency))
       (\<lambda>(out, itemsTotal, taxTotal, grandTotal).
     bnd (exec (update_orders en (\<lambda>r. or_id r = orderID) (\<lambda>r. r\<lparr>or_items := minor itemsTotal, or_tax := minor taxTotal,
        or_grand := minor grandTotal, or_placed := Some now\<rparr>))) (\<lambda>_.
     bnd (exec (insert_event \<lparr>ev_order = orderID, ev_from = None, ev_to = StatusDraft, ev_actor_kind = ''user'',
        ev_actor = Some (rq_BuyerID req), ev_reason = ''checkout created''\<rparr>)) (\<lambda>_.
     bnd (record_audit en \<lparr>ActorKind = ''user'', ActorID = Some (uuid_str (rq_BuyerID req)), ActorIP = rq_IP req,
        Action = ''order.created'', SubjectType = ''order'', SubjectID = orderPublicID,
        event.Metadata = Some (json_text en [(''items'', JInt (int (length out))), (''total_minor'', JInt (minor grandTotal)),
          (''currency'', JStr currency)])\<rparr>) (\<lambda>_.
     bnd (if rq_IdempotencyKey req \<noteq> '''' then claimIdempotency en req orderPublicID else ret ()) (\<lambda>_.
     ret \<lparr>od_ID = orderID, od_PublicID = orderPublicID, od_Number = number, od_BuyerID = rq_BuyerID req,
       od_Status = StatusDraft, od_Currency = currency, od_ItemsTotal = itemsTotal, od_TaxTotal = taxTotal,
       od_GrandTotal = grandTotal, od_Refunded = Zero currency, od_Lines = out, od_Country = country,
       od_State = rq_BuyerStateCode req, od_CreatedAt = now, od_PaidAt = None, od_ExpiresAt = None\<rparr>))))))))))"

definition Checkout :: "env \<Rightarrow> checkout_request \<Rightarrow> order_view op" where
  "Checkout en req =
    (if rq_Items req = [] then fail (ProblemE (Validation ''items'' ''required''))
     else if 50 < length (rq_Items req) then fail (ProblemE (Validation ''items'' ''too_many''))
     else let c = to_upper (trim_space (rq_BuyerCountry req)); country = (if c = '''' then ''IN'' else c) in
       if country = ''IN'' \<and> (rq_BuyerStateCode req < 1 \<or> 99 < rq_BuyerStateCode req)
       then fail (ProblemE (Validation ''state_code'' ''required''))
       else if rq_IsB2B req \<and> rq_BuyerGSTIN req = '''' then fail (ProblemE (Validation ''buyer_gstin'' ''required''))
       else in_tx (bnd (if rq_IdempotencyKey req \<noteq> '''' then query (replayCheckout en req) else ret None) (\<lambda>existing.
         case existing of Some o' \<Rightarrow> ret o' | None \<Rightarrow> place_order en req country)))"

subsection \<open>The state machine\<close>

datatype stamp = NoStamp | PaidAt int | FulfilledAt int | CompletedAt int

text \<open>
  \<open>COALESCE(column, stamp)\<close>, in the statement that sets the status. The column is one of a closed set
  in the code; \<open>cancelled_at\<close>, which no caller names, is left out.
\<close>

fun stamp_row :: "stamp \<Rightarrow> order_row \<Rightarrow> order_row" where
  "stamp_row NoStamp r = r"
| "stamp_row (PaidAt t) r = r\<lparr>or_paid := (case or_paid r of None \<Rightarrow> Some t | Some u \<Rightarrow> Some u)\<rparr>"
| "stamp_row (FulfilledAt t) r = r\<lparr>or_fulfilled := (case or_fulfilled r of None \<Rightarrow> Some t | Some u \<Rightarrow> Some u)\<rparr>"
| "stamp_row (CompletedAt t) r = r\<lparr>or_completed := (case or_completed r of None \<Rightarrow> Some t | Some u \<Rightarrow> Some u)\<rparr>"

definition transitionStamped :: "env \<Rightarrow> nat \<Rightarrow> status \<Rightarrow> status \<Rightarrow> string \<Rightarrow> nat option \<Rightarrow> string \<Rightarrow> stamp \<Rightarrow> unit op" where
  "transitionStamped en orderID from to' actorKind actorID reason st =
     bnd (attempt (exec (update_orders en (\<lambda>r. or_id r = orderID \<and> or_status r = from) (\<lambda>r. stamp_row st (r\<lparr>or_status := to'\<rparr>)))))
     (\<lambda>res. case res of
        Inl (RaisedE msg) \<Rightarrow> fail (ProblemE (Conflict TypeStateTransition msg))
      | Inl e \<Rightarrow> fail e
      | Inr n \<Rightarrow> if n = 0 then fail errConcurrentTransition
          else exec (insert_event \<lparr>ev_order = orderID, ev_from = Some from, ev_to = to', ev_actor_kind = actorKind,
                 ev_actor = actorID, ev_reason = reason\<rparr>))"

definition transition :: "env \<Rightarrow> nat \<Rightarrow> status \<Rightarrow> status \<Rightarrow> string \<Rightarrow> nat option \<Rightarrow> string \<Rightarrow> unit op" where
  "transition en orderID from to' actorKind actorID reason =
     transitionStamped en orderID from to' actorKind actorID reason NoStamp"

subsection \<open>\<open>BeginPayment\<close>\<close>

fun mapProviderError :: "provider_error \<Rightarrow> order_error" where
  "mapProviderError ErrProviderUnavailable = ProblemE (Unavailable 10)"
| "mapProviderError ErrCurrencyUnsupported = ProblemE (Validation ''currency'' ''unsupported'')"
| "mapProviderError ErrAccountNotActivated = ProblemE (Conflict TypeSettlementBlocked ''This seller cannot receive settlement yet.'')"
| "mapProviderError ErrProviderRejected = ProblemE (PaymentFailed ''Payment could not be started'')"
| "mapProviderError e = ProblemE Internal"

definition splits_of :: "env \<Rightarrow> order_view \<Rightarrow> split_line list" where
  "splits_of en o' = (if SplitSettlement en
     then map (\<lambda>l. \<lparr>SellerReference = lb_SellerPublicID l, ProviderAccountID = lb_ProviderAccount l,
            sp_Amount = SellerNet (lb_Breakdown l), OnHold = True, HoldUntil = lb_SettlementHoldUntil l,
            sp_Notes = [(''order'', od_PublicID o'), (''item'', lb_ItemPublicID l)]\<rparr>)
          (filter (\<lambda>l. lb_ProviderAccount l \<noteq> '''') (od_Lines o'))
     else [])"

text \<open>
  The intent that exists already is looked up, as the code does, and not used. The
  \<open>split_instruction\<close> column holds \<open>splitsToJSON\<close> of the splits sent; it is not read again and is left out.
\<close>

definition existing_intent :: "database \<Rightarrow> nat \<Rightarrow> (string \<times> string) option" where
  "existing_intent d i = (case stable_sort (\<lambda>a b. in_created a > in_created b)
       (filter (\<lambda>r. in_order r = i \<and> in_status r \<in> {''created'', ''requires_action'', ''processing''}) (intents d)) of
     [] \<Rightarrow> None | r # _ \<Rightarrow> Some (in_ref r, in_status r))"

definition BeginPayment :: "env \<Rightarrow> string \<Rightarrow> nat \<Rightarrow> payment_handoff op" where
  "BeginPayment en orderPublicID buyerID = in_tx (
     bnd (load_order en orderPublicID) (\<lambda>o'.
     if od_BuyerID o' \<noteq> buyerID then fail (ProblemE (NotFound ''Order not found.''))
     else if od_Status o' \<noteq> StatusDraft \<and> od_Status o' \<noteq> StatusPaymentFailed
     then fail (ProblemE (Conflict TypeStateTransition ''This order is not awaiting payment.''))
     else bnd (query (\<lambda>d. Inr (existing_intent d (od_ID o')))) (\<lambda>existingIntent.
       let splits = splits_of en o' in
       bnd (call (create_payment en) (CreatePayment \<lparr>OrderReference = od_PublicID o', cp_Amount = od_GrandTotal o', Splits = splits,
              cp_Description = ''Order '' @ od_Number o', cp_IdempotencyKey = ''payment:'' @ od_PublicID o',
              cp_Notes = [(''order'', od_PublicID o'), (''order_number'', od_Number o')]\<rparr>)) (\<lambda>res. case res of
         Inl e \<Rightarrow> fail (mapProviderError e)
       | Inr r \<Rightarrow>
         bnd fresh (\<lambda>intentID. bnd (new_public ''pay'') (\<lambda>_.
         bnd (exec (insert_intent \<lparr>in_id = intentID, in_order = od_ID o', in_provider = ProviderName en,
                in_ref = cr_ProviderIntentID r, in_amount = minor (od_GrandTotal o'), in_currency = od_Currency o',
                in_status = ''created'', in_expires = clock en + 1800, in_created = clock en\<rparr>)) (\<lambda>_.
         bnd (if od_Status o' = StatusDraft \<or> od_Status o' = StatusPaymentFailed
              then transition en (od_ID o') (od_Status o') StatusAwaitingPayment ''user'' (Some buyerID) ''payment started''
              else ret ()) (\<lambda>_.
         ret \<lparr>ph_OrderPublicID = od_PublicID o', ph_ProviderIntentID = cr_ProviderIntentID r, ph_Provider = ProviderName en,
           ph_Amount = od_GrandTotal o', ph_CheckoutParams = cr_CheckoutParams r, ph_ExpiresAt = clock en + 1800\<rparr>))))))))"

subsection \<open>What they may do\<close>

lemma keeps_load [keeps_intros]: "keeps stmts (load_order en pid)"
  unfolding load_order_def by (intro keeps_intros)

lemma keeps_transitionStamped [keeps_intros]: "keeps stmts (transitionStamped en i a b k ai rs st)"
proof -
  have r: "keeps stmts (case res of Inl (RaisedE msg) \<Rightarrow> fail (ProblemE (Conflict TypeStateTransition msg))
      | Inl e \<Rightarrow> fail e
      | Inr n \<Rightarrow> if n = 0 then fail errConcurrentTransition
          else exec (insert_event \<lparr>ev_order = i, ev_from = Some a, ev_to = b, ev_actor_kind = k,
                 ev_actor = ai, ev_reason = rs\<rparr>))" for res
  proof (cases res)
    case (Inl e)
    then show ?thesis by (cases e) (auto intro: keeps_intros)
  next
    case (Inr n)
    then show ?thesis by (auto intro: keeps_intros)
  qed
  show ?thesis unfolding transitionStamped_def by (intro keeps_intros r)
qed

lemma keeps_transition [keeps_intros]: "keeps stmts (transition en i a b k ai rs)"
  unfolding transition_def by (intro keeps_intros)

lemma keeps_checkout_line [keeps_intros]: "keeps stmts (checkout_line en b i c cl acc)"
  unfolding checkout_line_def by (intro keeps_intros)

lemma keeps_place_order [keeps_intros]: "keeps stmts (place_order en req c)"
  unfolding place_order_def nextOrderNumber_def claimIdempotency_def by (intro keeps_intros)

lemma keeps_Checkout [tx_intros]: "keeps history (Checkout en req)"
  unfolding Checkout_def by (intro tx_intros keeps_intros)

lemma keeps_BeginPayment [tx_intros]: "keeps history (BeginPayment en pid b)"
  unfolding BeginPayment_def by (intro tx_intros keeps_intros)

end
