(* ===== verification/Confirm.thy ===== *)
theory Confirm
  imports Checkout
begin

text \<open>
  \<open>internal/modules/orders/confirm.go\<close>: the browser's callback is verified, the provider's own record
  of the payment is fetched, and the capture is written in one transaction: payment, journal
  entries, order status, licences, transfers, turnover and invoices. The proofs show that the
  capture entry balances exactly when every line distributes what its buyer paid, that a repeated
  callback changes nothing, and what a callback is not checked against.
\<close>

record confirm_request =
  cf_OrderPublicID :: string
  cf_ProviderIntentID :: string
  cf_ProviderPaymentID :: string
  cf_Signature :: string
  cf_BuyerID :: nat
  cf_IP :: string

record issued_license =
  il_PublicID :: string
  il_ProductTitle :: string
  il_LicenseType :: string
  il_DownloadLimit :: int
  il_ExpiresAt :: "int option"

record confirm_result =
  co_Order :: order_view
  co_Licenses :: "issued_license list"
  co_AlreadyConfirmed :: bool

subsection \<open>The ledger\<close>

definition clearingAccountCode :: "env \<Rightarrow> string" where
  "clearingAccountCode en =
    (if ProviderName en = ''razorpay_route'' then ''platform.clearing.razorpay''
     else if ProviderName en = ''mor'' then ''platform.clearing.mor''
     else ''platform.clearing.bridge'')"

abbreviation ledger_entry :: "string \<Rightarrow> string \<Rightarrow> int \<Rightarrow> string \<Rightarrow> string \<Rightarrow> string \<Rightarrow> string \<Rightarrow> (string \<times> string) list \<Rightarrow> ledger_line list \<Rightarrow> entry" where
  "ledger_entry knd cu at desc rt ri key meta ls \<equiv>
     \<lparr>Kind = knd, en_Currency = cu, OccurredAt = Some at, Description = desc, ReferenceType = rt, ReferenceID = ri,
      IdempotencyKey = key, ReversesEntryID = None, entry.Metadata = meta, Lines = ls\<rparr>"

abbreviation jline :: "nat \<Rightarrow> direction \<Rightarrow> money \<Rightarrow> string \<Rightarrow> ledger_line" where
  "jline a dr amt memo \<equiv> \<lparr>AccountID = a, Direction = dr, Amount = amt, Memo = memo\<rparr>"

type_synonym capture_totals = "ledger_line list \<times> money \<times> money \<times> money \<times> money"

text \<open>One turn of the loop over the order's lines: the seller's credit, and the running totals.\<close>

definition capture_line :: "string \<Rightarrow> line_breakdown \<Rightarrow> capture_totals \<Rightarrow> capture_totals op" where
  "capture_line cu l acc = (case acc of (ls, totalCommission, totalCommissionGST, totalTCS, totalTDS) \<Rightarrow>
     bnd (seller_account (lb_SellerID l) ''payable'' cu) (\<lambda>payable.
     let b = lb_Breakdown l;
         ls = (if IsPositive (SellerNet b)
               then ls @ [jline payable Credit (SellerNet b) (''net due to seller for '' @ lb_ItemPublicID l)] else ls) in
     bnd (lift (wrapE MoneyE (Add totalCommission (Commission b)))) (\<lambda>totalCommission.
     bnd (lift (wrapE MoneyE (Add totalCommissionGST (CommissionGST b)))) (\<lambda>totalCommissionGST.
     bnd (lift (wrapE MoneyE (Add totalTCS (TCS b)))) (\<lambda>totalTCS.
     bnd (lift (wrapE MoneyE (Add totalTDS (TDS b)))) (\<lambda>totalTDS.
     ret (ls, totalCommission, totalCommissionGST, totalTCS, totalTDS)))))))"

definition positive_lines :: "(nat \<times> money \<times> string) list \<Rightarrow> ledger_line list" where
  "positive_lines es = map (\<lambda>(a, m, memo). jline a Credit m memo) (filter (\<lambda>(a, m, memo). IsPositive m) es)"

text \<open>The provider's fee and the GST on it: what the provider reported, or the configured rates.\<close>

definition fee_amounts :: "env \<Rightarrow> order_view \<Rightarrow> payment_record \<Rightarrow> money_error + money \<times> money" where
  "fee_amounts en o' record =
     bindE (case pm_Fee record of Some m \<Rightarrow> Inr m | None \<Rightarrow> ApplyBasisPoints (od_GrandTotal o') (pspFeeBps en) HalfUp) (\<lambda>feeAmount.
     bindE (case pm_Tax record of Some m \<Rightarrow> Inr m | None \<Rightarrow> ApplyBasisPoints feeAmount (pspFeeGSTBps en) HalfUp) (\<lambda>feeTax.
     Inr (feeAmount, feeTax)))"

definition post_fee :: "env \<Rightarrow> order_view \<Rightarrow> payment_record \<Rightarrow> nat \<Rightarrow> unit op" where
  "post_fee en o' record clearing =
     bnd (lift (wrapE MoneyE (fee_amounts en o' record))) (\<lambda>(feeAmount, feeTax).
     if \<not> IsPositive feeAmount \<and> \<not> IsPositive feeTax then ret ()
     else bnd (account_by_code ''platform.expense.psp_fee'') (\<lambda>feeExpense.
       bnd (account_by_code ''platform.input_credit.gst'') (\<lambda>inputCredit.
       bnd (lift (wrapE MoneyE (Add feeAmount feeTax))) (\<lambda>feeTotal.
       bnd (post_entry en (ledger_entry ''psp_fee'' (od_Currency o') (clock en) (''Processing fee for order '' @ od_Number o')
            ''order'' (od_PublicID o') (''psp_fee:'' @ od_PublicID o' @ '':'' @ pm_ProviderPaymentID record) []
            ((if IsPositive feeAmount then [jline feeExpense Debit feeAmount ''provider processing fee''] else [])
             @ (if IsPositive feeTax then [jline inputCredit Debit feeTax ''GST input credit on processing fee''] else [])
             @ [jline clearing Credit feeTotal ''deducted by provider'']))) (\<lambda>_. ret ())))))"

definition postCaptureLedger :: "env \<Rightarrow> order_view \<Rightarrow> payment_record \<Rightarrow> nat \<Rightarrow> unit op" where
  "postCaptureLedger en o' record paymentID =
    (let cu = od_Currency o' in
     bnd (account_by_code (clearingAccountCode en)) (\<lambda>clearing.
     bnd (account_by_code ''platform.income.commission'') (\<lambda>commissionAcct.
     bnd (account_by_code ''platform.payable.gst_output'') (\<lambda>gstOutput.
     bnd (account_by_code ''platform.payable.tcs'') (\<lambda>tcsAcct.
     bnd (account_by_code ''platform.payable.tds_194o'') (\<lambda>tdsAcct.
     bnd (loopE (capture_line cu) (od_Lines o')
           ([jline clearing Debit (od_GrandTotal o') (''captured for order '' @ od_Number o')], Zero cu, Zero cu, Zero cu, Zero cu))
       (\<lambda>(ls, totalCommission, totalCommissionGST, totalTCS, totalTDS).
     bnd (post_entry en (ledger_entry ''order_capture'' cu (clock en) (''Capture for order '' @ od_Number o')
            ''order'' (od_PublicID o') (''capture:'' @ od_PublicID o' @ '':'' @ pm_ProviderPaymentID record)
            [(''provider'', ProviderName en), (''payment_id'', uuid_str paymentID), (''provider_payment_id'', pm_ProviderPaymentID record)]
            (ls @ positive_lines [(commissionAcct, totalCommission, ''platform commission''),
               (gstOutput, totalCommissionGST, ''GST on commission''),
               (tcsAcct, totalTCS, ''TCS collected under s.52 CGST''),
               (tdsAcct, totalTDS, ''TDS deducted under s.194-O'')]))) (\<lambda>_.
     post_fee en o' record clearing))))))))"

subsection \<open>Licences\<close>

definition loadLicenses :: "database \<Rightarrow> nat \<Rightarrow> issued_license list" where
  "loadLicenses d orderID = concat (map (\<lambda>r. map (\<lambda>i. \<lparr>il_PublicID = li_public r, il_ProductTitle = it_title i,
        il_LicenseType = li_type r, il_DownloadLimit = li_limit r, il_ExpiresAt = li_expires r\<rparr>)
        (filter (\<lambda>i. it_id i = li_item r \<and> it_order i = orderID) (items d)))
     (stable_sort (\<lambda>a b. li_issued a < li_issued b) (licenses d)))"

definition license_terms :: "nat \<Rightarrow> database \<Rightarrow> order_error + string \<times> string \<times> int option" where
  "license_terms i d = (case concat (map (\<lambda>r. map (\<lambda>p. (it_license_type r, it_license_terms r, pr_days p))
        (filter (\<lambda>p. pr_id p = it_product r) (products d))) (filter (\<lambda>r. it_id r = i) (items d))) of
     [] \<Rightarrow> Inl (NoRowsE ''orders: read licence terms'') | x # _ \<Rightarrow> Inr x)"

definition download_limit :: "env \<Rightarrow> int" where
  "download_limit en = (if DownloadsPerLicense en \<le> 0 then 10 else DownloadsPerLicense en)"

definition issue_license :: "env \<Rightarrow> order_view \<Rightarrow> line_breakdown \<Rightarrow> issued_license op" where
  "issue_license en o' l =
     bnd (query (license_terms (lb_ItemID l))) (\<lambda>(licenseType, terms, days).
     let expires = (case days of Some n \<Rightarrow> if 0 < n then Some (clock en + n * day) else None | None \<Rightarrow> None);
         limit = download_limit en in
     bnd (new_public ''lic'') (\<lambda>publicID. bnd fresh (\<lambda>i.
     bnd (exec (insert_license \<lparr>li_id = i, li_public = publicID, li_item = lb_ItemID l, li_user = od_BuyerID o',
            li_product = lb_ProductID l, li_variant = lb_VariantID l, li_type = licenseType, li_terms = terms,
            li_status = ''active'', li_expires = expires, li_limit = limit, li_issued = clock en\<rparr>)) (\<lambda>_.
     bnd (publish en ''license.issued'' ''license'' publicID
            [(''license_public_id'', JStr publicID), (''order_public_id'', JStr (od_PublicID o')),
             (''user_id'', JStr (uuid_str (od_BuyerID o'))), (''product_id'', JStr (uuid_str (lb_ProductID l)))] (od_PublicID o')) (\<lambda>_.
     ret \<lparr>il_PublicID = publicID, il_ProductTitle = lb_Title l, il_LicenseType = licenseType, il_DownloadLimit = limit,
          il_ExpiresAt = expires\<rparr>)))))"

definition issueLicenses :: "env \<Rightarrow> order_view \<Rightarrow> issued_license list op" where
  "issueLicenses en o' = mapM (issue_license en o') (od_Lines o')"

subsection \<open>Transfers and turnover\<close>

definition record_transfer :: "env \<Rightarrow> order_view \<Rightarrow> nat \<Rightarrow> line_breakdown \<Rightarrow> unit op" where
  "record_transfer en o' paymentID l =
    (if \<not> IsPositive (SellerNet (lb_Breakdown l)) then ret ()
     else let settleable = lb_ProviderAccount l \<noteq> '''' in
       bnd fresh (\<lambda>i. bnd (new_public ''trf'') (\<lambda>_.
       exec (insert_transfer \<lparr>tr_id = i, tr_payment = paymentID, tr_item = lb_ItemID l, tr_seller = lb_SellerID l,
         tr_provider = ProviderName en, tr_ref = None,
         tr_account = (if settleable then lb_ProviderAccount l else ''pending_activation''),
         tr_amount = minor (SellerNet (lb_Breakdown l)), tr_currency = od_Currency o',
         tr_status = (if settleable then ''on_hold'' else ''pending''), tr_hold_until = lb_SettlementHoldUntil l,
         tr_released = None, tr_reversed = 0, tr_failure = None\<rparr>))))"

definition recordTransfers :: "env \<Rightarrow> order_view \<Rightarrow> nat \<Rightarrow> unit op" where
  "recordTransfers en o' paymentID = forE (record_transfer en o' paymentID) (od_Lines o')"

definition updateTurnover :: "env \<Rightarrow> order_view \<Rightarrow> unit op" where
  "updateTurnover en o' =
    (let fy = fyStart (clock en); total = minor (od_ItemsTotal o');
         (domestic, export) = (if od_Country o' \<noteq> ''IN'' then (0, total) else (total, 0));
         commission = fold (\<lambda>l c. wrap64 (c + minor (Commission (lb_Breakdown l)))) (od_Lines o') 0 in
     bnd (forE (\<lambda>l. exec (insert_delta \<lparr>de_seq = 0, de_seller = Some (lb_SellerID l), de_fy = fy, de_currency = od_Currency o',
            de_gross = minor (ListPrice (lb_Breakdown l)), de_taxable = minor (ListPrice (lb_Breakdown l)),
            de_tds = minor (TDS (lb_Breakdown l)), de_tcs = minor (TCS (lb_Breakdown l)), de_refunded = 0, de_commission = 0,
            de_export = 0, de_count = 1\<rparr>)) (od_Lines o')) (\<lambda>_.
     exec (insert_delta \<lparr>de_seq = 0, de_seller = None, de_fy = fy, de_currency = od_Currency o', de_gross = domestic,
       de_taxable = 0, de_tds = 0, de_tcs = 0, de_refunded = 0, de_commission = commission, de_export = export, de_count = 1\<rparr>)))"

subsection \<open>Invoices\<close>

definition splitCommissionGST :: "money \<Rightarrow> int \<Rightarrow> int option \<Rightarrow> money \<times> money \<times> money" where
  "splitCommissionGST gst platformState sellerState =
    (let zero = Zero (cur gst) in
     if sellerState = Some platformState
     then (case MulRatio gst 1 2 Down of
         Inl e \<Rightarrow> (zero, zero, gst)
       | Inr half \<Rightarrow> (case Sub gst half of
           Inl e \<Rightarrow> (zero, zero, gst)
         | Inr other \<Rightarrow> if minor other > minor half then (other, half, zero) else (half, other, zero)))
     else (zero, zero, gst))"

definition seller_for_invoice :: "nat \<Rightarrow> database \<Rightarrow> order_error + seller_row" where
  "seller_for_invoice i d = (case find (\<lambda>s. sl_id s = i) (sellers d) of
     None \<Rightarrow> Inl (NoRowsE ''orders: read seller for invoice'') | Some s \<Rightarrow> Inr s)"

definition supply_invoice :: "env \<Rightarrow> order_view \<Rightarrow> line_breakdown \<Rightarrow> seller_row \<Rightarrow> unit op" where
  "supply_invoice en o' l s = (let fy = fyStart (clock en); b = lb_Breakdown l in
     bnd (exec (next_invoice_number ''seller_supply'' fy ''INV'')) (\<lambda>number.
     bnd fresh (\<lambda>_. bnd (new_public ''inv'') (\<lambda>_.
     exec (insert_invoice \<lparr>iv_kind = ''seller_supply'', iv_number = number, iv_fy = fy, iv_order = od_ID o', iv_item = lb_ItemID l,
       iv_seller = lb_SellerID l, iv_buyer = Some (od_BuyerID o'), iv_supplier_gstin = sl_gstin s, iv_supplier_name = sl_name s,
       iv_supplier_state = sl_state s, iv_recipient_gstin = None, iv_country = od_Country o',
       iv_state = (if 0 < od_State o' then Some (od_State o') else None), iv_currency = od_Currency o',
       iv_taxable = minor (ListPrice b), iv_cgst = minor (CGST b), iv_sgst = minor (SGST b), iv_igst = minor (IGST b),
       iv_total = minor (BuyerTotal b)\<rparr>)))))"

definition commission_invoice :: "env \<Rightarrow> order_view \<Rightarrow> line_breakdown \<Rightarrow> seller_row \<Rightarrow> unit op" where
  "commission_invoice en o' l s = (let fy = fyStart (clock en); b = lb_Breakdown l; p = tax_policy en in
     bnd (exec (next_invoice_number ''platform_commission'' fy ''COM'')) (\<lambda>number.
     let (cgst, sgst, igst) = splitCommissionGST (CommissionGST b) (PlatformStateCode p) (sl_state s) in
     bnd (lift (wrapE MoneyE (Add (Commission b) (CommissionGST b)))) (\<lambda>total.
     bnd fresh (\<lambda>_. bnd (new_public ''inv'') (\<lambda>_.
     exec (insert_invoice \<lparr>iv_kind = ''platform_commission'', iv_number = number, iv_fy = fy, iv_order = od_ID o',
       iv_item = lb_ItemID l, iv_seller = lb_SellerID l, iv_buyer = None, iv_supplier_gstin = nullIfEmpty (PlatformGSTIN p),
       iv_supplier_name = ''Marketplace'', iv_supplier_state = Some (PlatformStateCode p), iv_recipient_gstin = sl_gstin s,
       iv_country = ''IN'', iv_state = sl_state s, iv_currency = od_Currency o', iv_taxable = minor (Commission b),
       iv_cgst = minor cgst, iv_sgst = minor sgst, iv_igst = minor igst, iv_total = minor total\<rparr>))))))"

definition issueInvoices :: "env \<Rightarrow> order_view \<Rightarrow> unit op" where
  "issueInvoices en o' = forE (\<lambda>l.
     bnd (query (seller_for_invoice (lb_SellerID l))) (\<lambda>s.
     bnd (if sl_gstin s \<noteq> None then supply_invoice en o' l s else ret ()) (\<lambda>_.
     if IsPositive (Commission (lb_Breakdown l)) then commission_invoice en o' l s else ret ()))) (od_Lines o')"

subsection \<open>\<open>recordCapture\<close>\<close>

definition payment_id :: "string \<Rightarrow> string \<Rightarrow> database \<Rightarrow> order_error + nat" where
  "payment_id prov ref d = (case find (\<lambda>r. pa_provider r = prov \<and> pa_ref r = ref) (payments d) of
     None \<Rightarrow> Inl (NoRowsE ''orders: resolve payment'') | Some r \<Rightarrow> Inr (pa_id r))"

definition payment_method :: "payment_record \<Rightarrow> string" where
  "payment_method record = (if pm_Method record = '''' then ''unknown'' else pm_Method record)"

definition insert_capture :: "env \<Rightarrow> order_view \<Rightarrow> payment_record \<Rightarrow> nat op" where
  "insert_capture en o' record =
     bnd fresh (\<lambda>i. bnd (new_public ''pay'') (\<lambda>_.
     bnd (exec (insert_payment \<lparr>pa_id = i, pa_order = od_ID o', pa_provider = ProviderName en, pa_ref = pm_ProviderPaymentID record,
        pa_method = payment_method record, pa_network = nullIfEmpty (pm_CardNetwork record), pa_amount = minor (pm_Amount record),
        pa_currency = cur (pm_Amount record), pa_fee = map_option minor (pm_Fee record), pa_fee_tax = map_option minor (pm_Tax record),
        pa_status = ''captured'', pa_captured = clock en, pa_raw = payment_status_text (pm_Status record)\<rparr>)) (\<lambda>_.
     query (payment_id (ProviderName en) (pm_ProviderPaymentID record)))))"

definition mark_sold :: "order_view \<Rightarrow> unit op" where
  "mark_sold o' = forE (\<lambda>l. bnd (exec (variant_sold (lb_VariantID l))) (\<lambda>_. exec (product_sold (lb_ProductID l)))) (od_Lines o')"

definition announce_paid :: "env \<Rightarrow> order_view \<Rightarrow> payment_record \<Rightarrow> string \<Rightarrow> nat \<Rightarrow> unit op" where
  "announce_paid en o' record ip n =
     bnd (publish en ''order.paid'' ''order'' (od_PublicID o')
            [(''order_public_id'', JStr (od_PublicID o')), (''order_number'', JStr (od_Number o')),
             (''buyer_id'', JStr (uuid_str (od_BuyerID o'))), (''total_minor'', JInt (minor (od_GrandTotal o'))),
             (''currency'', JStr (od_Currency o')), (''paid_at'', JStr (time_text en (clock en)))] (od_PublicID o')) (\<lambda>_.
     bnd (publish en ''order.fulfilled'' ''order'' (od_PublicID o')
            [(''order_public_id'', JStr (od_PublicID o')), (''licenses'', JInt (int n))] (od_PublicID o')) (\<lambda>_.
     record_audit en \<lparr>ActorKind = ''provider'', ActorID = None, ActorIP = ip, Action = ''order.paid'', SubjectType = ''order'',
       SubjectID = od_PublicID o', event.Metadata = Some (json_text en [(''provider'', JStr (ProviderName en)),
         (''provider_payment_id'', JStr (pm_ProviderPaymentID record)), (''amount_minor'', JInt (minor (pm_Amount record))),
         (''method'', JStr (payment_method record))])\<rparr>))"

definition recordCapture :: "env \<Rightarrow> order_view \<Rightarrow> payment_record \<Rightarrow> string \<Rightarrow> nat option \<Rightarrow> confirm_result op" where
  "recordCapture en o' record ip actor = (let now = clock en; oid = od_ID o' in
     bnd (insert_capture en o' record) (\<lambda>paymentID.
     bnd (exec (update_intents (\<lambda>r. in_order r = oid \<and> in_ref r = pm_ProviderIntentID record) ''succeeded'')) (\<lambda>_.
     bnd (postCaptureLedger en o' record paymentID) (\<lambda>_.
     bnd (transitionStamped en oid (od_Status o') StatusPaid ''provider'' actor ''payment captured'' (PaidAt now)) (\<lambda>_.
     bnd (exec (update_items (\<lambda>r. it_order r = oid) (\<lambda>r. ''paid'') it_refunded it_fulfilled)) (\<lambda>_.
     bnd (issueLicenses en o') (\<lambda>licenses.
     bnd (recordTransfers en o' paymentID) (\<lambda>_.
     bnd (updateTurnover en o') (\<lambda>_.
     bnd (issueInvoices en o') (\<lambda>_.
     bnd (transitionStamped en oid StatusPaid StatusFulfilled ''system'' None ''entitlements issued'' (FulfilledAt now)) (\<lambda>_.
     bnd (exec (update_items (\<lambda>r. it_order r = oid) (\<lambda>r. ''fulfilled'') it_refunded (\<lambda>r. Some now))) (\<lambda>_.
     bnd (mark_sold o') (\<lambda>_.
     bnd (announce_paid en o' record ip (length licenses)) (\<lambda>_.
     ret \<lparr>co_Order = o'\<lparr>od_Status := StatusFulfilled, od_PaidAt := Some now\<rparr>, co_Licenses = licenses,
          co_AlreadyConfirmed = False\<rparr>))))))))))))))"

subsection \<open>\<open>ConfirmPayment\<close>\<close>

definition confirm_tx :: "env \<Rightarrow> confirm_request \<Rightarrow> payment_record \<Rightarrow> confirm_result op" where
  "confirm_tx en req record =
     bnd (load_order en (cf_OrderPublicID req)) (\<lambda>o'.
     if cf_BuyerID req \<noteq> 0 \<and> od_BuyerID o' \<noteq> cf_BuyerID req then fail (ProblemE (NotFound ''Order not found.''))
     else if od_Status o' = StatusPaid \<or> od_Status o' = StatusFulfilled \<or> od_Status o' = StatusCompleted
     then bnd (query (\<lambda>d. Inr (loadLicenses d (od_ID o')))) (\<lambda>licenses.
          ret \<lparr>co_Order = o', co_Licenses = licenses, co_AlreadyConfirmed = True\<rparr>)
     else if od_Status o' \<noteq> StatusAwaitingPayment
     then fail (ProblemE (Conflict TypeStateTransition ''This order is not awaiting payment.''))
     else if \<not> Equal (pm_Amount record) (od_GrandTotal o')
     then bnd (attempt (record_audit en \<lparr>ActorKind = ''system'', ActorID = None, ActorIP = '''', Action = ''payment.amount_mismatch'',
            SubjectType = ''order'', SubjectID = od_PublicID o',
            event.Metadata = Some (json_text en [(''expected_minor'', JInt (minor (od_GrandTotal o'))),
              (''captured_minor'', JInt (minor (pm_Amount record)))])\<rparr>)) (\<lambda>_.
          fail (ProblemE (Conflict TypePaymentFailed ''The captured amount does not match this order.'')))
     else if pm_Status record \<noteq> PaymentCaptured \<and> pm_Status record \<noteq> PaymentAuthorized
     then fail (ProblemE (PaymentFailed ''Payment not completed''))
     else bnd (if pm_Status record = PaymentAuthorized
            then bnd (call (capture_payment en) (CapturePayment (pm_ProviderPaymentID record) (od_GrandTotal o') (''capture:'' @ od_PublicID o')))
                 (\<lambda>res. case res of Inl e \<Rightarrow> fail (mapProviderError e) | Inr captured \<Rightarrow> ret captured)
            else ret record) (\<lambda>record.
          recordCapture en o' record (cf_IP req) (Some (cf_BuyerID req))))"

definition ConfirmPayment :: "env \<Rightarrow> confirm_request \<Rightarrow> confirm_result op" where
  "ConfirmPayment en req =
     bnd (call (verify_payment en) (VerifyPayment (cf_ProviderIntentID req) (cf_ProviderPaymentID req) (cf_Signature req))) (\<lambda>verify.
     case verify of
       Inl e \<Rightarrow> fail (ProblemE Internal)
     | Inr (valid, reason) \<Rightarrow>
       if \<not> valid
       then bnd (attempt (in_tx (record_audit en \<lparr>ActorKind = ''user'', ActorID = Some (uuid_str (cf_BuyerID req)), ActorIP = cf_IP req,
              Action = ''payment.signature_rejected'', SubjectType = ''order'', SubjectID = cf_OrderPublicID req,
              event.Metadata = Some (json_text en [(''reason'', JStr reason), (''provider_payment_id'', JStr (cf_ProviderPaymentID req))])\<rparr>))) (\<lambda>_.
            fail (ProblemE (PaymentFailed ''Payment could not be verified'')))
       else bnd (call (reconcile_payment en) (ReconcilePayment (cf_ProviderPaymentID req))) (\<lambda>res. case res of
            Inl e \<Rightarrow> fail (mapProviderError e)
          | Inr record \<Rightarrow> in_tx (confirm_tx en req record)))"

subsection \<open>What they may do\<close>

lemma keeps_postCaptureLedger [keeps_intros]: "keeps stmts (postCaptureLedger en o' record pid)"
  unfolding postCaptureLedger_def capture_line_def post_fee_def by (intro keeps_intros)

lemma keeps_issueInvoices [keeps_intros]: "keeps stmts (issueInvoices en o')"
  unfolding issueInvoices_def supply_invoice_def commission_invoice_def by (intro keeps_intros)

lemma keeps_recordCapture [keeps_intros]: "keeps stmts (recordCapture en o' record ip actor)"
  unfolding recordCapture_def insert_capture_def issueLicenses_def issue_license_def recordTransfers_def record_transfer_def
    updateTurnover_def mark_sold_def announce_paid_def
  by (intro keeps_intros)

lemma keeps_confirm_tx [keeps_intros]: "keeps stmts (confirm_tx en req record)"
  unfolding confirm_tx_def by (intro keeps_intros)

lemma keeps_ConfirmPayment [tx_intros]: "keeps history (ConfirmPayment en req)"
  unfolding ConfirmPayment_def by (intro tx_intros keeps_intros)

end
