(* ===== verification/Refund.thy ===== *)
theory Refund
  imports Confirm
begin

text \<open>
  \<open>internal/modules/orders/refund.go\<close>: one line of an order is refunded in whole or in part, at the
  provider and in the books. The proofs show that every refund entry balances, that a full refund
  returns each component of the line as it was charged, that a refund at the provider never exceeds
  what the line's buyer paid, and which orders the code accepts and the state machine then refuses.
\<close>

record refund_request_in =
  rr_OrderPublicID :: string
  rr_ItemPublicID :: string
  rr_Amount :: "money option"
  rr_Reason :: string
  rr_RequestedBy :: nat
  rr_ActorIsStaff :: bool
  rr_Note :: string

record refund_outcome =
  ro_RefundPublicID :: string
  ro_Amount :: money
  ro_ProcessingFeeRetained :: money
  ro_SellerRecovery :: string
  ro_OrderStatus :: status

subsection \<open>Amounts\<close>

definition scaleToRefund :: "money \<Rightarrow> money \<Rightarrow> money \<Rightarrow> money_error + money" where
  "scaleToRefund component refunded lineTotal =
    (if minor lineTotal = 0 then Inr (Zero (cur component))
     else if Equal refunded lineTotal then Inr component
     else MulRatio component (minor refunded) (minor lineTotal) HalfUp)"

definition retainedProcessingFee :: "env \<Rightarrow> order_view \<Rightarrow> money \<Rightarrow> int option \<Rightarrow> order_error + money" where
  "retainedProcessingFee en o' refunded paymentFee =
    (let zero = Zero (od_Currency o') in
     if minor (od_GrandTotal o') = 0 then Inr zero
     else bindE (case paymentFee of
         Some f \<Rightarrow> (case New f (od_Currency o') of Inl e \<Rightarrow> Inl (PanicE e) | Inr m \<Rightarrow> Inr (Some m))
       | None \<Rightarrow> (case ApplyBasisPoints (od_GrandTotal o') (pspFeeBps en) HalfUp of Inl e \<Rightarrow> Inr None | Inr v \<Rightarrow> Inr (Some v))) (\<lambda>fee.
       case fee of None \<Rightarrow> Inr zero
       | Some f \<Rightarrow> (case MulRatio f (minor refunded) (minor (od_GrandTotal o')) HalfUp of
           Inl e \<Rightarrow> Inr zero | Inr v \<Rightarrow> Inr v)))"

definition actorKindFor :: "bool \<Rightarrow> string" where
  "actorKindFor staff = (if staff then ''admin'' else ''user'')"

definition offsetAccountCode :: "string \<Rightarrow> string" where
  "offsetAccountCode cu = (if cu = INR then ''platform.receivable.seller_offset''
     else ''platform.receivable.seller_offset.'' @ map lower_char cu)"

subsection \<open>Choosing the line\<close>

definition pickRefundLine :: "order_view \<Rightarrow> string \<Rightarrow> order_error + line_breakdown" where
  "pickRefundLine o' itemPublicID =
    (if itemPublicID = '''' then
       (if length (od_Lines o') \<noteq> 1 then Inl (ProblemE (Validation ''item_public_id'' ''required'')) else Inr (hd (od_Lines o')))
     else case find (\<lambda>l. lb_ItemPublicID l = itemPublicID) (od_Lines o') of
       None \<Rightarrow> Inl (ProblemE (NotFound ''That item is not part of this order.''))
     | Some l \<Rightarrow> Inr l)"

definition item_by_id :: "string \<Rightarrow> nat \<Rightarrow> database \<Rightarrow> order_error + item_row" where
  "item_by_id msg i d = (case find (\<lambda>r. it_id r = i) (items d) of None \<Rightarrow> Inl (NoRowsE msg) | Some r \<Rightarrow> Inr r)"

definition served_downloads :: "database \<Rightarrow> nat \<Rightarrow> nat" where
  "served_downloads d item = length (concat (map (\<lambda>e. filter (\<lambda>l. li_id l = do_license e \<and> li_item l = item) (licenses d))
     (filter (\<lambda>e. do_outcome e = ''served'') (downloads d))))"

definition checkRefundEligibility :: "env \<Rightarrow> line_breakdown \<Rightarrow> database \<Rightarrow> order_error + unit" where
  "checkRefundEligibility en line d = bindE (item_by_id ''orders: read refund policy'' (lb_ItemID line) d) (\<lambda>r.
     let policy = it_refund_policy r; n = served_downloads d (lb_ItemID line) in
     if policy = ''no_refund'' then Inl (ProblemE (Conflict TypeConflict ''This item was sold without a refund option.''))
     else if policy = ''no_refund_after_download'' then
       (if 0 < n then Inl (ProblemE (Conflict TypeConflict ''This item has already been downloaded.'')) else Inr ())
     else if policy = ''refundable_14_days'' then
       (case it_fulfilled r of
          Some t \<Rightarrow> if 14 * day < clock en - t then Inl (ProblemE (Conflict TypeConflict ''The 14-day refund window for this item has closed.'')) else Inr ()
        | None \<Rightarrow> Inr ())
     else if policy = ''case_by_case'' then Inl (ProblemE (Conflict TypeConflict ''This item is refunded case by case.''))
     else Inr ())"

text \<open>The amount asked for, checked against the line.\<close>

definition refund_amount :: "order_view \<Rightarrow> line_breakdown \<Rightarrow> money option \<Rightarrow> order_error + money" where
  "refund_amount o' line asked = (case asked of
     None \<Rightarrow> Inr (BuyerTotal (lb_Breakdown line))
   | Some a \<Rightarrow>
     if cur a \<noteq> od_Currency o' then Inl (ProblemE (Validation ''amount'' ''currency_mismatch''))
     else if \<not> IsPositive a then Inl (ProblemE (Validation ''amount'' ''invalid''))
     else if 0 < (case Cmp a (BuyerTotal (lb_Breakdown line)) of Inl e \<Rightarrow> 0 | Inr c \<Rightarrow> c)
     then Inl (ProblemE (Validation ''amount'' ''too_large''))
     else Inr a)"

definition captured_payment :: "nat \<Rightarrow> database \<Rightarrow> order_error + payment_row" where
  "captured_payment i d = (case find (\<lambda>r. pa_order r = i \<and> pa_status r \<in> {''captured'', ''partially_refunded''}) (payments d) of
     None \<Rightarrow> Inl (ProblemE (Conflict TypeConflict ''No captured payment was found for this order.'')) | Some r \<Rightarrow> Inr r)"

definition item_transfer :: "database \<Rightarrow> nat \<Rightarrow> transfer_row option" where
  "item_transfer d item = find (\<lambda>t. tr_item t = item) (transfers d)"

subsection \<open>The ledger\<close>

type_synonym shares = "ledger_line list \<times> money"

definition add_share :: "nat \<Rightarrow> money \<Rightarrow> string \<Rightarrow> shares \<Rightarrow> order_error + shares" where
  "add_share a part memo acc = (case acc of (ls, allocated) \<Rightarrow>
     bindE (wrapE MoneyE (Add allocated part)) (\<lambda>allocated. Inr (ls @ [jline a Debit part memo], allocated)))"

definition refund_component :: "money \<Rightarrow> money \<Rightarrow> string \<times> money \<times> string \<Rightarrow> shares \<Rightarrow> shares op" where
  "refund_component amount lineTotal c acc = (case c of (code, component, memo) \<Rightarrow>
     bnd (lift (wrapE MoneyE (scaleToRefund component amount lineTotal))) (\<lambda>part.
     if \<not> IsPositive part then ret acc
     else bnd (account_by_code code) (\<lambda>a. lift (add_share a part memo acc))))"

definition refund_components :: "breakdown \<Rightarrow> (string \<times> money \<times> string) list" where
  "refund_components b =
     [(''platform.income.commission'', Commission b, ''commission reversed''),
      (''platform.payable.gst_output'', CommissionGST b, ''GST on commission reversed''),
      (''platform.payable.tcs'', TCS b, ''TCS reversed''),
      (''platform.payable.tds_194o'', TDS b, ''TDS reversed'')]"

definition seller_share :: "order_view \<Rightarrow> line_breakdown \<Rightarrow> money \<Rightarrow> bool \<Rightarrow> shares op" where
  "seller_share o' line amount settledAway = (let cu = od_Currency o'; b = lb_Breakdown line in
     bnd (lift (wrapE MoneyE (scaleToRefund (SellerNet b) amount (BuyerTotal b)))) (\<lambda>part.
     if IsPositive part
     then if settledAway
       then bnd (account_by_code (offsetAccountCode cu)) (\<lambda>a.
            lift (add_share a part ''recoverable from the seller's next settlement'' ([], Zero cu)))
       else bnd (seller_account (lb_SellerID line) ''payable'' cu) (\<lambda>a.
            lift (add_share a part ''seller share reversed before settlement'' ([], Zero cu)))
     else ret ([], Zero cu)))"

definition residue_line :: "money \<Rightarrow> ledger_line list op" where
  "residue_line residue =
    (if IsZero residue then ret []
     else bnd (account_by_code ''platform.expense.refund_absorbed'') (\<lambda>absorb.
       let memo = ''rounding residue on a proportional refund, absorbed by the platform'' in
       if IsNegative residue
       then bnd (lift (wrapE MoneyE (Abs residue))) (\<lambda>a. ret [jline absorb Credit a memo])
       else ret [jline absorb Debit residue memo]))"

text \<open>The lines of the refund entry, then the entry.\<close>

definition refund_lines :: "env \<Rightarrow> order_view \<Rightarrow> line_breakdown \<Rightarrow> money \<Rightarrow> bool \<Rightarrow> ledger_line list op" where
  "refund_lines en o' line amount settledAway = (let b = lb_Breakdown line in
     bnd (account_by_code (clearingAccountCode en)) (\<lambda>clearing.
     bnd (seller_share o' line amount settledAway) (\<lambda>acc.
     bnd (loopE (refund_component amount (BuyerTotal b)) (refund_components b) acc) (\<lambda>(ls, allocated).
     bnd (lift (wrapE MoneyE (Sub amount allocated))) (\<lambda>residue.
     bnd (residue_line residue) (\<lambda>rl.
     ret (ls @ rl @ [jline clearing Credit amount ''returned to the buyer'']))))))) "

definition postRefundLedger :: "env \<Rightarrow> order_view \<Rightarrow> line_breakdown \<Rightarrow> money \<Rightarrow> bool \<Rightarrow> string \<Rightarrow> unit op" where
  "postRefundLedger en o' line amount settledAway refundPublicID =
     bnd (refund_lines en o' line amount settledAway) (\<lambda>ls.
     bnd (post_entry en (ledger_entry ''refund'' (od_Currency o') (clock en) (''Refund on order '' @ od_Number o')
        ''order'' (od_PublicID o') (''refund:'' @ refundPublicID)
        [(''item'', lb_ItemPublicID line), (''settled_away'', bool_text settledAway)] ls)) (\<lambda>_. ret ()))"

subsection \<open>Statuses\<close>

definition applyRefundStatuses :: "env \<Rightarrow> order_view \<Rightarrow> line_breakdown \<Rightarrow> money \<Rightarrow> int \<Rightarrow> unit op" where
  "applyRefundStatuses en o' line amount alreadyRefunded =
    (let newItemRefunded = wrap64 (alreadyRefunded + minor amount);
         itemStatus = (if newItemRefunded \<ge> minor (BuyerTotal (lb_Breakdown line)) then ''refunded'' else ''partially_refunded'');
         newOrderRefunded = wrap64 (minor (od_Refunded o') + minor amount);
         target = (if newOrderRefunded \<ge> minor (od_GrandTotal o') then StatusRefunded else StatusPartiallyRefunded) in
     bnd (exec (update_items (\<lambda>r. it_id r = lb_ItemID line) (\<lambda>r. itemStatus) (\<lambda>r. newItemRefunded) it_fulfilled)) (\<lambda>_.
     bnd (exec (update_orders en (\<lambda>r. or_id r = od_ID o') (\<lambda>r. r\<lparr>or_refunded := newOrderRefunded\<rparr>))) (\<lambda>_.
     bnd (if od_Status o' \<noteq> StatusRefundPending
          then transition en (od_ID o') (od_Status o') StatusRefundPending ''system'' None ''refund requested'' else ret ()) (\<lambda>_.
     transition en (od_ID o') StatusRefundPending target ''system'' None ''refund settled''))))"

subsection \<open>\<open>Refund\<close>\<close>

definition refundable :: "status \<Rightarrow> bool" where
  "refundable s \<longleftrightarrow> s \<in> {StatusPaid, StatusFulfilled, StatusCompleted, StatusPartiallyRefunded, StatusDisputed}"

text \<open>What happens to the seller's share: an offset, a reversal at the provider, or a cancelled transfer.\<close>

definition recover_share :: "env \<Rightarrow> order_view \<Rightarrow> line_breakdown \<Rightarrow> money \<Rightarrow> transfer_row option \<Rightarrow> unit op" where
  "recover_share en o' line amount transfer = (let b = lb_Breakdown line in
     if (case transfer of Some t \<Rightarrow> tr_status t = ''processed'' | None \<Rightarrow> False)
     then bnd (lift (wrapE MoneyE (scaleToRefund (SellerNet b) amount (BuyerTotal b)))) (\<lambda>sellerShare.
          if IsPositive sellerShare
          then bnd fresh (\<lambda>i. bnd (new_public ''pot'') (\<lambda>pub.
               exec (insert_offset \<lparr>of_id = i, of_public = pub, of_seller = lb_SellerID line, of_origin = ''refund'',
                 of_item = lb_ItemID line, of_amount = minor sellerShare, of_applied = 0, of_currency = od_Currency o',
                 of_status = ''outstanding''\<rparr>)))
          else ret ())
     else if (case transfer of Some t \<Rightarrow> (case tr_ref t of Some p \<Rightarrow> p \<noteq> '''' | None \<Rightarrow> False) | None \<Rightarrow> False) \<and> TransferReversal en
     then bnd (exec (update_transfers (\<lambda>t. tr_item t = lb_ItemID line) Reverse)) (\<lambda>_. ret ())
     else bnd (exec (update_transfers (\<lambda>t. tr_item t = lb_ItemID line \<and> tr_status t \<in> {''pending'', ''on_hold''}) Cancel)) (\<lambda>_. ret ()))"

definition announce_refund :: "env \<Rightarrow> refund_request_in \<Rightarrow> order_view \<Rightarrow> line_breakdown \<Rightarrow> money \<Rightarrow> string \<Rightarrow> unit op" where
  "announce_refund en req o' line amount recovery =
     bnd (publish en ''order.refunded'' ''order'' (od_PublicID o')
       [(''order_public_id'', JStr (od_PublicID o')), (''item_public_id'', JStr (lb_ItemPublicID line)),
        (''amount_minor'', JInt (minor amount)), (''currency'', JStr (od_Currency o')), (''reason'', JStr (rr_Reason req)),
        (''seller_recovery'', JStr recovery)] (od_PublicID o')) (\<lambda>_.
     record_audit en \<lparr>ActorKind = actorKindFor (rr_ActorIsStaff req), ActorID = Some (uuid_str (rr_RequestedBy req)), ActorIP = '''',
       Action = ''order.refunded'', SubjectType = ''order'', SubjectID = od_PublicID o',
       event.Metadata = Some (json_text en [(''item'', JStr (lb_ItemPublicID line)), (''amount_minor'', JInt (minor amount)),
         (''reason'', JStr (rr_Reason req)), (''seller_recovery'', JStr recovery), (''staff_override'', JBool (rr_ActorIsStaff req))])\<rparr>)"

text \<open>The books and tables, once the provider has refunded.\<close>

definition record_refund :: "env \<Rightarrow> refund_request_in \<Rightarrow> order_view \<Rightarrow> line_breakdown \<Rightarrow> money \<Rightarrow> int \<Rightarrow> payment_row
    \<Rightarrow> transfer_row option \<Rightarrow> string \<Rightarrow> refund_outcome op" where
  "record_refund en req o' line amount alreadyRefunded payment transfer providerRefundID =
    (let settledAway = (case transfer of Some t \<Rightarrow> tr_status t = ''processed'' | None \<Rightarrow> False);
         recovery = (if settledAway then ''future_settlement_offset'' else ''transfer_reversal'') in
     bnd (new_public ''ref'') (\<lambda>refundPublicID.
     bnd (lift (retainedProcessingFee en o' amount (pa_fee payment))) (\<lambda>retained.
     bnd fresh (\<lambda>i.
     bnd (exec (insert_refund \<lparr>rf_id = i, rf_public = refundPublicID, rf_order = od_ID o', rf_item = lb_ItemID line,
        rf_payment = pa_id payment, rf_provider = ProviderName en, rf_ref = nullIfEmpty providerRefundID,
        rf_amount = minor amount, rf_currency = od_Currency o', rf_reason = rr_Reason req, rf_status = ''succeeded'',
        rf_retained = minor retained, rf_recovery = recovery, rf_by = rr_RequestedBy req, rf_note = nullIfEmpty (rr_Note req)\<rparr>)) (\<lambda>_.
     bnd (postRefundLedger en o' line amount settledAway refundPublicID) (\<lambda>_.
     bnd (recover_share en o' line amount transfer) (\<lambda>_.
     bnd (applyRefundStatuses en o' line amount alreadyRefunded) (\<lambda>_.
     bnd (exec (refund_licenses (lb_ItemID line))) (\<lambda>_.
     bnd (exec (product_refunded (lb_ProductID line))) (\<lambda>_.
     bnd (exec (insert_delta \<lparr>de_seq = 0, de_seller = Some (lb_SellerID line), de_fy = fyStart (clock en), de_currency = od_Currency o',
        de_gross = 0, de_taxable = 0, de_tds = 0, de_tcs = 0, de_refunded = minor amount, de_commission = 0, de_export = 0, de_count = 0\<rparr>)) (\<lambda>_.
     bnd (announce_refund en req o' line amount recovery) (\<lambda>_.
     bnd (load_order en (od_PublicID o')) (\<lambda>refreshed.
     ret \<lparr>ro_RefundPublicID = refundPublicID, ro_Amount = amount, ro_ProcessingFeeRetained = retained,
          ro_SellerRecovery = recovery, ro_OrderStatus = od_Status refreshed\<rparr>)))))))))))))"

definition Refund :: "env \<Rightarrow> refund_request_in \<Rightarrow> refund_outcome op" where
  "Refund en req = in_tx (
     bnd (load_order en (rr_OrderPublicID req)) (\<lambda>o'.
     if \<not> rr_ActorIsStaff req \<and> od_BuyerID o' \<noteq> rr_RequestedBy req then fail (ProblemE (NotFound ''Order not found.''))
     else if \<not> refundable (od_Status o')
     then fail (ProblemE (Conflict TypeStateTransition ''This order is not in a state that can be refunded.''))
     else bnd (lift (pickRefundLine o' (rr_ItemPublicID req))) (\<lambda>line.
       bnd (if rr_ActorIsStaff req then ret () else query (checkRefundEligibility en line)) (\<lambda>_.
       bnd (lift (refund_amount o' line (rr_Amount req))) (\<lambda>amount.
       bnd (query (item_by_id ''orders: read refunded total'' (lb_ItemID line))) (\<lambda>item.
       if wrap64 (it_refunded item + minor amount) > minor (BuyerTotal (lb_Breakdown line))
       then fail (ProblemE (Conflict TypeConflict ''That would refund more than was paid for this item.''))
       else bnd (query (captured_payment (od_ID o'))) (\<lambda>payment.
         bnd (query (\<lambda>d. Inr (item_transfer d (lb_ItemID line)))) (\<lambda>transfer.
         let settledAway = (case transfer of Some t \<Rightarrow> tr_status t = ''processed'' | None \<Rightarrow> False);
             full = Equal amount (BuyerTotal (lb_Breakdown line)) in
         bnd (call (request_refund en) (RequestRefund \<lparr>pr_ProviderPaymentID = pa_ref payment, pr_Amount = amount,
            pr_Reason = rr_Reason req, pr_ReverseSplits = (full \<and> \<not> settledAway \<and> TransferReversal en),
            pr_IdempotencyKey = ''refund:'' @ lb_ItemPublicID line @ '':'' @ Decimal amount,
            pr_Notes = [(''order'', od_PublicID o'), (''item'', lb_ItemPublicID line)]\<rparr>)) (\<lambda>res. case res of
           Inl e \<Rightarrow> fail (mapProviderError e)
         | Inr providerRefundID \<Rightarrow> record_refund en req o' line amount (it_refunded item) payment transfer providerRefundID)))))))))"

subsection \<open>What it may do\<close>

lemma keeps_postRefundLedger [keeps_intros]: "keeps stmts (postRefundLedger en o' line amount sa pub)"
  unfolding postRefundLedger_def refund_lines_def seller_share_def refund_component_def residue_line_def
  by (intro keeps_intros)

lemma keeps_record_refund [keeps_intros]: "keeps stmts (record_refund en req o' line amount al payment transfer prid)"
  unfolding record_refund_def recover_share_def applyRefundStatuses_def announce_refund_def by (intro keeps_intros)

lemma keeps_Refund [tx_intros]: "keeps history (Refund en req)"
  unfolding Refund_def by (intro tx_intros keeps_intros)

end
