(* ===== verification/Settlement.thy ===== *)
theory Settlement
  imports Refund
begin

text \<open>
  \<open>internal/modules/orders/settlement.go\<close>: transfers whose protection window has closed are released
  one transaction each, after the rolling reserve and the seller's outstanding offsets, and
  fulfilled orders are completed. The proofs show that the reserve, the offsets and the net paid
  out add up to the transfer, that a transfer already released is left alone, and which transfers
  the pass may touch.
\<close>

record release_result =
  rs_Considered :: nat
  rs_Released :: nat
  rs_Held :: nat
  rs_Failed :: nat
  rs_HeldReasons :: "(string \<times> nat) list"

record candidate =
  ca_transferID :: nat
  ca_providerRef :: string
  ca_orderItemID :: nat
  ca_orderPublicID :: string
  ca_orderStatus :: status
  ca_sellerID :: nat
  ca_amount :: money
  ca_accountStatus :: string
  ca_kycStatus :: string
  ca_sellerStatus :: string
  ca_reserveBps :: int
  ca_disputes :: nat

definition open_dispute :: "dispute_row \<Rightarrow> bool" where
  "open_dispute x \<longleftrightarrow> di_status x \<in> {''open'', ''awaiting_seller'', ''awaiting_buyer'', ''under_review''}"

definition candidate_of :: "database \<Rightarrow> transfer_row \<times> order_row \<times> seller_row \<Rightarrow> order_error + candidate" where
  "candidate_of d row = (case row of (t, r, s) \<Rightarrow>
     bindE (wrapE MoneyE (New (tr_amount t) (tr_currency t))) (\<lambda>m. Inr
       \<lparr>ca_transferID = tr_id t, ca_providerRef = (case tr_ref t of None \<Rightarrow> '''' | Some p \<Rightarrow> p), ca_orderItemID = tr_item t,
        ca_orderPublicID = or_public r, ca_orderStatus = or_status r, ca_sellerID = tr_seller t, ca_amount = m,
        ca_accountStatus = sl_account_status s, ca_kycStatus = sl_kyc s, ca_sellerStatus = sl_status s,
        ca_reserveBps = sl_reserve_bps s,
        ca_disputes = length (filter (\<lambda>x. di_item x = tr_item t \<and> open_dispute x) (disputes d))\<rparr>))"

definition due_transfers :: "int \<Rightarrow> int \<Rightarrow> database \<Rightarrow> (transfer_row \<times> order_row \<times> seller_row) list" where
  "due_transfers now limit d = take (nat limit) (concat (map (\<lambda>t.
       concat (map (\<lambda>i. concat (map (\<lambda>r. map (\<lambda>s. (t, r, s)) (filter (\<lambda>s. sl_id s = tr_seller t) (sellers d)))
         (filter (\<lambda>r. or_id r = it_order i) (orders d)))) (filter (\<lambda>i. it_id i = tr_item t) (items d))))
     (stable_sort (\<lambda>a b. tr_hold_until a < tr_hold_until b)
       (filter (\<lambda>t. tr_status t \<in> {''on_hold'', ''pending''} \<and> tr_hold_until t \<le> now) (transfers d)))))"

definition scan_settlements :: "int \<Rightarrow> int \<Rightarrow> database \<Rightarrow> order_error + candidate list" where
  "scan_settlements now limit d = mapE (candidate_of d) (due_transfers now limit d)"

text \<open>Every reason a settlement is deferred, in the order the code tests them.\<close>

definition hold_reason :: "candidate \<Rightarrow> string" where
  "hold_reason c =
    (if ca_orderStatus c = StatusDisputed \<or> ca_orderStatus c = StatusChargebackLost then ''order is under dispute or was charged back''
     else if ca_orderStatus c = StatusRefunded \<or> ca_orderStatus c = StatusRefundPending then ''order is being refunded''
     else if 0 < ca_disputes c then ''an in-app dispute is open on this item''
     else if ca_kycStatus c \<noteq> ''verified'' then ''seller KYC is not verified''
     else if ca_accountStatus c \<noteq> ''activated'' then ''the provider has not activated the seller's linked account''
     else if ca_sellerStatus c = ''suspended'' \<or> ca_sellerStatus c = ''closed'' then ''seller account is suspended''
     else '''')"

subsection \<open>\<open>applyOffsets\<close>\<close>

definition outstanding_offsets :: "nat \<Rightarrow> string \<Rightarrow> database \<Rightarrow> offset_row list" where
  "outstanding_offsets seller cu d = filter (\<lambda>r. of_seller r = seller \<and> of_currency r = cu
     \<and> of_status r \<in> {''outstanding'', ''partially_applied''}) (offsets d)"

text \<open>
  The loop over the offsets. Rows are inserted in the order of their creation, which is the order
  of the query; \<open>break\<close> ends the recursion.
\<close>

fun apply_offsets :: "env \<Rightarrow> nat \<Rightarrow> nat \<Rightarrow> string \<Rightarrow> offset_row list \<Rightarrow> money \<Rightarrow> money \<Rightarrow> money op" where
  "apply_offsets en payable offsetAcct cu [] applied remaining = ret applied"
| "apply_offsets en payable offsetAcct cu (r # rs) applied remaining =
    (let outstanding = wrap64 (of_amount r - of_applied r) in
     if outstanding \<le> 0 then apply_offsets en payable offsetAcct cu rs applied remaining
     else let taken = (if outstanding > minor remaining then minor remaining else outstanding) in
       if taken \<le> 0 then ret applied
       else bnd (lift (wrapE MoneyE (New taken cu))) (\<lambda>takeM.
         let newApplied = wrap64 (of_applied r + taken);
             st = (if newApplied \<ge> of_amount r then ''settled'' else ''partially_applied'') in
         bnd (exec (update_offset (of_id r) newApplied st)) (\<lambda>_.
         bnd (post_entry en (ledger_entry ''adjustment'' cu (clock en) ''Settlement offset applied'' ''settlement_offset'' (of_public r)
              (''offset:'' @ of_public r @ '':'' @ Decimal takeM) []
              [jline payable Debit takeM ''netted against an outstanding recovery'', jline offsetAcct Credit takeM ''recovery collected''])) (\<lambda>_.
         bnd (lift (wrapE MoneyE (Add applied takeM))) (\<lambda>applied.
         bnd (lift (wrapE MoneyE (Sub remaining takeM))) (\<lambda>remaining.
         apply_offsets en payable offsetAcct cu rs applied remaining))))))"

definition applyOffsets :: "env \<Rightarrow> nat \<Rightarrow> money \<Rightarrow> nat \<Rightarrow> money op" where
  "applyOffsets en sellerID available payable = (let cu = cur available in
     if \<not> IsPositive available then ret (Zero cu)
     else bnd (query (\<lambda>d. Inr (outstanding_offsets sellerID cu d))) (\<lambda>rs.
       if rs = [] then ret (Zero cu)
       else bnd (account_by_code (offsetAccountCode cu)) (\<lambda>offsetAcct.
         apply_offsets en payable offsetAcct cu rs (Zero cu) available)))"

subsection \<open>\<open>releaseOne\<close>\<close>

definition transfer_status :: "nat \<Rightarrow> database \<Rightarrow> order_error + string" where
  "transfer_status i d = (case find (\<lambda>t. tr_id t = i) (transfers d) of
     None \<Rightarrow> Inl (NoRowsE ''payment_transfers'') | Some t \<Rightarrow> Inr (tr_status t))"

definition hold_reserve :: "env \<Rightarrow> candidate \<Rightarrow> nat \<Rightarrow> money op" where
  "hold_reserve en c payable = (let cu = cur (ca_amount c) in
     bnd (if 0 < ca_reserveBps c then lift (wrapE MoneyE (ApplyBasisPoints (ca_amount c) (ca_reserveBps c) Down)) else ret (Zero cu)) (\<lambda>reserve.
     if IsPositive reserve
     then bnd (seller_account (ca_sellerID c) ''reserve'' cu) (\<lambda>reserveAcct.
          bnd (post_entry en (ledger_entry ''rolling_reserve_hold'' cu (clock en)
            (''Rolling reserve withheld on settlement for '' @ ca_orderPublicID c) ''order_item'' (uuid_str (ca_orderItemID c))
            (''reserve:'' @ uuid_str (ca_orderItemID c)) []
            [jline payable Debit reserve ''moved to rolling reserve'', jline reserveAcct Credit reserve ''held against chargeback exposure''])) (\<lambda>_.
          ret reserve))
     else ret reserve))"

definition release_at_provider :: "env \<Rightarrow> candidate \<Rightarrow> unit op" where
  "release_at_provider en c =
    (if ca_providerRef c \<noteq> '''' \<and> SettlementHold en
     then bnd (call (release_settlement en) (ReleaseSellerSettlement (ca_providerRef c))) (\<lambda>res. case res of
          Inl e \<Rightarrow> if e = ErrNotSupported then ret () else fail (ProviderE e)
        | Inr u \<Rightarrow> ret ())
     else ret ())"

definition post_release :: "env \<Rightarrow> candidate \<Rightarrow> nat \<Rightarrow> money \<Rightarrow> unit op" where
  "post_release en c payable net = (let cu = cur (ca_amount c) in
     if IsPositive net
     then bnd (account_by_code (clearingAccountCode en)) (\<lambda>clearing.
          bnd (post_entry en (ledger_entry ''settlement_release'' cu (clock en) (''Settlement released for '' @ ca_orderPublicID c)
            ''order_item'' (uuid_str (ca_orderItemID c)) (''settle:'' @ uuid_str (ca_orderItemID c)) []
            [jline payable Debit net ''paid to the seller'', jline clearing Credit net ''left provider clearing''])) (\<lambda>_. ret ()))
     else ret ())"

definition announce_release :: "env \<Rightarrow> candidate \<Rightarrow> money \<Rightarrow> money \<Rightarrow> money \<Rightarrow> unit op" where
  "announce_release en c reserve applied net =
     bnd (publish en ''transfer.released'' ''order'' (ca_orderPublicID c)
       [(''order_public_id'', JStr (ca_orderPublicID c)), (''seller_id'', JStr (uuid_str (ca_sellerID c))),
        (''gross_minor'', JInt (minor (ca_amount c))), (''reserve_minor'', JInt (minor reserve)),
        (''offset_applied_minor'', JInt (minor applied)), (''net_minor'', JInt (minor net)),
        (''currency'', JStr (cur (ca_amount c)))] (ca_orderPublicID c)) (\<lambda>_.
     record_audit en \<lparr>ActorKind = ''system'', ActorID = None, ActorIP = '''', Action = ''settlement.released'', SubjectType = ''order'',
       SubjectID = ca_orderPublicID c, event.Metadata = Some (json_text en [(''seller'', JStr (uuid_str (ca_sellerID c))),
         (''gross_minor'', JInt (minor (ca_amount c))), (''reserve_minor'', JInt (minor reserve)),
         (''offset_minor'', JInt (minor applied)), (''net_minor'', JInt (minor net))])\<rparr>)"

text \<open>The amounts of a release: reserve, offsets applied, net. \<open>None\<close> when another pass has handled it.\<close>

definition release_tx :: "env \<Rightarrow> candidate \<Rightarrow> (money \<times> money \<times> money) option op" where
  "release_tx en c =
     bnd (query (transfer_status (ca_transferID c))) (\<lambda>st.
     if st \<noteq> ''on_hold'' \<and> st \<noteq> ''pending'' then ret None
     else bnd (seller_account (ca_sellerID c) ''payable'' (cur (ca_amount c))) (\<lambda>payable.
       bnd (hold_reserve en c payable) (\<lambda>reserve.
       bnd (lift (wrapE MoneyE (Sub (ca_amount c) reserve))) (\<lambda>net.
       bnd (applyOffsets en (ca_sellerID c) net payable) (\<lambda>applied.
       bnd (lift (wrapE MoneyE (Sub net applied))) (\<lambda>net.
       bnd (release_at_provider en c) (\<lambda>_.
       bnd (exec (update_transfers (\<lambda>t. tr_id t = ca_transferID c) (Release (clock en)))) (\<lambda>_.
       bnd (post_release en c payable net) (\<lambda>_.
       bnd (announce_release en c reserve applied net) (\<lambda>_.
       ret (Some (reserve, applied, net))))))))))))"

definition releaseOne :: "env \<Rightarrow> candidate \<Rightarrow> (money \<times> money \<times> money) option op" where
  "releaseOne en c = in_tx (release_tx en c)"

subsection \<open>\<open>ReleaseDueSettlements\<close>, \<open>CompleteProtectedOrders\<close>\<close>

definition count_reason :: "string \<Rightarrow> (string \<times> nat) list \<Rightarrow> (string \<times> nat) list" where
  "count_reason h rs = AList.update h (case map_of rs h of None \<Rightarrow> 1 | Some n \<Rightarrow> n + 1) rs"

definition release_candidate :: "env \<Rightarrow> candidate \<Rightarrow> release_result \<Rightarrow> release_result op" where
  "release_candidate en c res = (let res = res\<lparr>rs_Considered := rs_Considered res + 1\<rparr>; hold = hold_reason c in
     if hold \<noteq> '''' then ret (res\<lparr>rs_Held := rs_Held res + 1, rs_HeldReasons := count_reason hold (rs_HeldReasons res)\<rparr>)
     else bnd (attempt (releaseOne en c)) (\<lambda>r. case r of
         Inl e \<Rightarrow> ret (res\<lparr>rs_Failed := rs_Failed res + 1\<rparr>)
       | Inr x \<Rightarrow> ret (res\<lparr>rs_Released := rs_Released res + 1\<rparr>)))"

definition ReleaseDueSettlements :: "env \<Rightarrow> int \<Rightarrow> release_result op" where
  "ReleaseDueSettlements en limit = (let limit = (if limit \<le> 0 \<or> 1000 < limit then 200 else limit) in
     bnd (in_tx (query (scan_settlements (clock en) limit))) (\<lambda>batch.
     loopE (release_candidate en) batch
       \<lparr>rs_Considered = 0, rs_Released = 0, rs_Held = 0, rs_Failed = 0, rs_HeldReasons = []\<rparr>))"

text \<open>The orders to complete, oldest fulfilment first; the window is in seconds.\<close>

definition protected_orders :: "int \<Rightarrow> int \<Rightarrow> int \<Rightarrow> database \<Rightarrow> nat list" where
  "protected_orders now window limit d =
    (let limit = (if limit \<le> 0 then 500 else limit) in
     take (nat limit) (map or_id (stable_sort (\<lambda>a b. the (or_fulfilled a) < the (or_fulfilled b))
       (filter (\<lambda>r. or_status r = StatusFulfilled \<and> (case or_fulfilled r of None \<Rightarrow> False | Some t \<Rightarrow> t < now - window)
          \<and> \<not> (\<exists>i \<in> set (items d). it_order i = or_id r \<and> (\<exists>x \<in> set (disputes d). di_item x = it_id i \<and> open_dispute x))
          \<and> \<not> (\<exists>c \<in> set (chargebacks d). cb_order c = or_id r \<and> cb_status c \<notin> {''won'', ''expired''})) (orders d)))))"

definition CompleteProtectedOrders :: "env \<Rightarrow> int \<Rightarrow> int \<Rightarrow> nat op" where
  "CompleteProtectedOrders en window limit = in_tx (
     bnd (query (\<lambda>d. Inr (protected_orders (clock en) window limit d))) (\<lambda>chosen.
     exec (update_orders en (\<lambda>r. or_id r \<in> set chosen)
       (\<lambda>r. r\<lparr>or_status := StatusCompleted, or_completed := Some (clock en)\<rparr>))))"

subsection \<open>What they may do\<close>

lemma keeps_apply_offsets [keeps_intros]: "keeps stmts (apply_offsets en pa oa cu rs ap rem)"
  by (induction rs arbitrary: ap rem) (auto simp: Let_def intro!: keeps_intros)

lemma keeps_release_tx [keeps_intros]: "keeps stmts (release_tx en c)"
  unfolding release_tx_def hold_reserve_def applyOffsets_def release_at_provider_def post_release_def announce_release_def
  by (intro keeps_intros)

lemma keeps_releaseOne [tx_intros]: "keeps history (releaseOne en c)"
  unfolding releaseOne_def by (intro tx_intros keeps_intros)

lemma keeps_ReleaseDueSettlements [tx_intros]: "keeps history (ReleaseDueSettlements en limit)"
  unfolding ReleaseDueSettlements_def release_candidate_def by (intro tx_intros keeps_intros)

lemma keeps_CompleteProtectedOrders [tx_intros]: "keeps history (CompleteProtectedOrders en window limit)"
  unfolding CompleteProtectedOrders_def by (intro tx_intros keeps_intros)

end
