(* ===== verification/Webhook.thy ===== *)
theory Webhook
  imports Settlement
begin

text \<open>
  \<open>internal/modules/orders/webhook.go\<close>: a provider event is verified, claimed by its id and the digest
  of its bytes, and applied: captures, failures, refunds, transfers, chargebacks, account status.
  The proofs show that an event already processed changes nothing, what an altered copy of it does,
  that a lost chargeback's entry balances, and that an internal deadline is never later than the
  network's.
\<close>

record webhook_outcome =
  wo_EventID :: string
  wo_Type :: string
  wo_Processed :: bool
  wo_Duplicate :: bool
  wo_ReplayMismatch :: bool

subsection \<open>Chargebacks: deadlines and networks\<close>

definition representmentWindow :: "string \<Rightarrow> int" where
  "representmentWindow network =
    (if network = ''rupay'' then 7 * day
     else if network = ''visa'' \<or> network = ''mastercard'' then 10 * day
     else if network = ''amex'' \<or> network = ''diners'' then 20 * day
     else 7 * day)"

definition normaliseNetwork :: "string \<Rightarrow> string" where
  "normaliseNetwork n = (let l = map lower_char n in
     if l = ''visa'' then ''visa''
     else if l = ''mastercard'' \<or> l = ''master card'' \<or> l = ''mc'' then ''mastercard''
     else if l = ''rupay'' then ''rupay''
     else if l = ''amex'' \<or> l = ''american express'' then ''amex''
     else if l = ''diners'' \<or> l = ''diners club'' then ''diners''
     else if l = ''upi'' then ''upi''
     else ''other'')"

definition networkFromRaw :: "dispute_payload option \<Rightarrow> string" where
  "networkFromRaw raw = (case raw of None \<Rightarrow> ''other''
   | Some p \<Rightarrow> (case dp_network p of
       Some n \<Rightarrow> if n \<noteq> '''' then normaliseNetwork n
                 else (case dp_card_network p of Some c \<Rightarrow> if c \<noteq> '''' then normaliseNetwork c else ''other'' | None \<Rightarrow> ''other'')
     | None \<Rightarrow> (case dp_card_network p of Some c \<Rightarrow> if c \<noteq> '''' then normaliseNetwork c else ''other'' | None \<Rightarrow> ''other'')))"

definition reasonCodeFromRaw :: "dispute_payload option \<Rightarrow> string" where
  "reasonCodeFromRaw raw = (case raw of None \<Rightarrow> '''' | Some p \<Rightarrow> (case dp_reason_code p of None \<Rightarrow> '''' | Some c \<Rightarrow> c))"

subsection \<open>Captures and failures\<close>

definition order_of_intent :: "env \<Rightarrow> string \<Rightarrow> database \<Rightarrow> order_row option" where
  "order_of_intent en ref d = (case concat (map (\<lambda>r. map (\<lambda>i. r)
       (filter (\<lambda>i. in_order i = or_id r \<and> in_provider i = ProviderName en \<and> in_ref i = ref) (intents d))) (orders d)) of
     [] \<Rightarrow> None | r # _ \<Rightarrow> Some r)"

definition record_run :: "env \<Rightarrow> string \<Rightarrow> nat op" where
  "record_run en cu = bnd fresh (\<lambda>runID.
     bnd (exec (insert_run \<lparr>rn_id = runID, rn_provider = ProviderName en, rn_currency = cu, rn_count = 1\<rparr>)) (\<lambda>_. ret runID))"

definition recordOrphanPayment :: "env \<Rightarrow> payment_record \<Rightarrow> unit op" where
  "recordOrphanPayment en record =
     bnd (record_run en (cur (pm_Amount record))) (\<lambda>runID. bnd fresh (\<lambda>_.
     exec (insert_difference \<lparr>df_run = runID, df_kind = ''missing_in_ledger'', df_ref = pm_ProviderPaymentID record, df_order = None,
       df_expected = None, df_actual = minor (pm_Amount record), df_currency = cur (pm_Amount record)\<rparr>)))"

definition recordAmountMismatch :: "env \<Rightarrow> order_view \<Rightarrow> payment_record \<Rightarrow> unit op" where
  "recordAmountMismatch en o' record =
     bnd (record_run en (od_Currency o')) (\<lambda>runID. bnd fresh (\<lambda>_.
     bnd (exec (insert_difference \<lparr>df_run = runID, df_kind = ''amount_mismatch'', df_ref = pm_ProviderPaymentID record,
       df_order = Some (od_PublicID o'), df_expected = Some (minor (od_GrandTotal o')), df_actual = minor (pm_Amount record),
       df_currency = od_Currency o'\<rparr>)) (\<lambda>_.
     record_audit en \<lparr>ActorKind = ''system'', ActorID = None, ActorIP = '''', Action = ''payment.amount_mismatch'',
       SubjectType = ''order'', SubjectID = od_PublicID o',
       event.Metadata = Some (json_text en [(''expected_minor'', JInt (minor (od_GrandTotal o'))),
         (''captured_minor'', JInt (minor (pm_Amount record)))])\<rparr>)))"

definition capture_event_tx :: "env \<Rightarrow> payment_record \<Rightarrow> unit op" where
  "capture_event_tx en record =
     bnd (query (\<lambda>d. Inr (order_of_intent en (pm_ProviderIntentID record) d))) (\<lambda>found. case found of
       None \<Rightarrow> recordOrphanPayment en record
     | Some r \<Rightarrow>
       bnd (load_order en (or_public r)) (\<lambda>o'.
       if od_Status o' \<noteq> StatusAwaitingPayment then ret ()
       else if \<not> Equal (pm_Amount record) (od_GrandTotal o') then recordAmountMismatch en o' record
       else bnd (recordCapture en o' record '''' None) (\<lambda>_. ret ())))"

definition onPaymentCaptured :: "env \<Rightarrow> webhook_event \<Rightarrow> unit op" where
  "onPaymentCaptured en ev =
    (if we_ProviderPaymentID ev = '''' then ret ()
     else bnd (call (reconcile_payment en) (ReconcilePayment (we_ProviderPaymentID ev))) (\<lambda>res. case res of
         Inl e \<Rightarrow> fail (ProviderE e)
       | Inr record \<Rightarrow> if pm_Status record \<noteq> PaymentCaptured then ret () else in_tx (capture_event_tx en record)))"

definition failed_event_tx :: "env \<Rightarrow> webhook_event \<Rightarrow> unit op" where
  "failed_event_tx en ev =
     bnd (query (\<lambda>d. Inr (order_of_intent en (we_ProviderIntentID ev) d))) (\<lambda>found. case found of
       None \<Rightarrow> ret ()
     | Some r \<Rightarrow>
       if or_status r \<noteq> StatusAwaitingPayment then ret ()
       else bnd (exec (update_intents (\<lambda>i. in_ref i = we_ProviderIntentID ev) ''failed'')) (\<lambda>_.
         bnd (transition en (or_id r) StatusAwaitingPayment StatusPaymentFailed ''provider'' None ''provider reported failure'') (\<lambda>_.
         bnd (publish en ''payment.failed'' ''order'' (or_public r)
           [(''order_public_id'', JStr (or_public r)), (''reason'', JStr (we_Status ev))] (or_public r)) (\<lambda>_. ret ()))))"

definition onPaymentFailed :: "env \<Rightarrow> webhook_event \<Rightarrow> unit op" where
  "onPaymentFailed en ev = (if we_ProviderIntentID ev = '''' then ret () else in_tx (failed_event_tx en ev))"

subsection \<open>Refunds and transfers\<close>

definition onRefundProcessed :: "env \<Rightarrow> webhook_event \<Rightarrow> unit op" where
  "onRefundProcessed en ev =
    (if we_ProviderRefundID ev = '''' then ret ()
     else in_tx (bnd (exec (update_refunds (\<lambda>r. rf_provider r = ProviderName en \<and> rf_ref r = Some (we_ProviderRefundID ev)
            \<and> rf_status r \<noteq> ''succeeded'') ''succeeded'')) (\<lambda>_. ret ())))"

definition onTransferProcessed :: "env \<Rightarrow> webhook_event \<Rightarrow> unit op" where
  "onTransferProcessed en ev =
    (if we_ProviderTransferID ev = '''' then ret ()
     else in_tx (bnd (exec (update_transfers (\<lambda>t. tr_provider t = ProviderName en \<and> tr_ref t = Some (we_ProviderTransferID ev)
            \<and> tr_status t \<noteq> ''processed'') (MarkProcessed (clock en)))) (\<lambda>_. ret ())))"

definition onTransferFailed :: "env \<Rightarrow> webhook_event \<Rightarrow> unit op" where
  "onTransferFailed en ev =
    (if we_ProviderTransferID ev = '''' then ret ()
     else in_tx (bnd (exec (update_transfers (\<lambda>t. tr_provider t = ProviderName en \<and> tr_ref t = Some (we_ProviderTransferID ev))
            (MarkFailed ''provider reported transfer failure''))) (\<lambda>_. ret ())))"

subsection \<open>Chargebacks\<close>

definition loss_rows :: "nat \<Rightarrow> database \<Rightarrow> (item_row \<times> string option) list" where
  "loss_rows i d = map (\<lambda>r. (r, map_option tr_status (item_transfer d (it_id r)))) (filter (\<lambda>r. it_order r = i) (items d))"

definition recover_item :: "env \<Rightarrow> string \<Rightarrow> string \<Rightarrow> item_row \<Rightarrow> string option \<Rightarrow> money \<Rightarrow> (nat \<times> string) op" where
  "recover_item en cu orderPublic r st net =
    (if st = Some ''processed''
     then bnd (account_by_code (offsetAccountCode cu)) (\<lambda>a. bnd fresh (\<lambda>i. bnd (new_public ''pot'') (\<lambda>pub.
          bnd (exec (insert_offset \<lparr>of_id = i, of_public = pub, of_seller = it_seller r, of_origin = ''chargeback'', of_item = it_id r,
            of_amount = minor net, of_applied = 0, of_currency = cu, of_status = ''outstanding''\<rparr>)) (\<lambda>_.
          ret (a, ''recoverable from the seller's next settlement'')))))
     else bnd (seller_account (it_seller r) ''payable'' cu) (\<lambda>a.
          bnd (exec (update_transfers (\<lambda>t. tr_item t = it_id r) Cancel)) (\<lambda>_.
          ret (a, ''seller share reversed: chargeback lost before settlement''))))"

definition loss_line :: "env \<Rightarrow> string \<Rightarrow> string \<Rightarrow> item_row \<times> string option \<Rightarrow> shares \<Rightarrow> shares op" where
  "loss_line en cu orderPublic row acc = (case row of (r, st) \<Rightarrow> case acc of (ls, recovered) \<Rightarrow>
     case New (it_net r) cu of
       Inl e \<Rightarrow> ret acc
     | Inr net \<Rightarrow>
       if \<not> IsPositive net then ret acc
       else bnd (recover_item en cu orderPublic r st net) (\<lambda>(a, memo).
         bnd (lift (wrapE MoneyE (Add recovered net))) (\<lambda>recovered.
         bnd (exec (update_items (\<lambda>x. it_id x = it_id r) (\<lambda>x. ''charged_back'') it_refunded it_fulfilled)) (\<lambda>_.
         ret (ls @ [jline a Debit net memo], recovered)))))"

definition absorbed_line :: "nat \<Rightarrow> money \<Rightarrow> money_error + ledger_line list" where
  "absorbed_line lossAcct absorbed =
    (if IsPositive absorbed
     then Inr [jline lossAcct Debit absorbed ''platform share of the charged-back amount, absorbed'']
     else if IsNegative absorbed
     then bindE (Abs absorbed) (\<lambda>a. Inr [jline lossAcct Credit a ''recovery in excess of the charged-back amount''])
     else Inr [])"

definition postChargebackLoss :: "env \<Rightarrow> nat \<Rightarrow> string \<Rightarrow> money \<Rightarrow> string \<Rightarrow> unit op" where
  "postChargebackLoss en orderID orderPublic amount disputeID = (let cu = cur amount in
     bnd (account_by_code (clearingAccountCode en)) (\<lambda>clearing.
     bnd (account_by_code ''platform.expense.chargeback_loss'') (\<lambda>lossAcct.
     bnd (query (\<lambda>d. Inr (loss_rows orderID d))) (\<lambda>rows'.
     bnd (loopE (loss_line en cu orderPublic) rows' ([], Zero cu)) (\<lambda>(ls, recovered).
     bnd (lift (wrapE MoneyE (Sub amount recovered))) (\<lambda>absorbed.
     bnd (lift (wrapE MoneyE (absorbed_line lossAcct absorbed))) (\<lambda>al.
     bnd (post_entry en (ledger_entry ''chargeback'' cu (clock en) (''Chargeback lost on order '' @ orderPublic) ''order'' orderPublic
       (''chargeback:'' @ disputeID) [] (ls @ al @ [jline clearing Credit amount ''debited by the acquirer'']))) (\<lambda>_. ret ()))))))))"

definition payment_order :: "env \<Rightarrow> string \<Rightarrow> database \<Rightarrow> (payment_row \<times> order_row) option" where
  "payment_order en ref d = (case concat (map (\<lambda>p. map (\<lambda>r. (p, r)) (filter (\<lambda>r. or_id r = pa_order p) (orders d)))
       (filter (\<lambda>p. pa_provider p = ProviderName en \<and> pa_ref p = ref) (payments d))) of
     [] \<Rightarrow> None | x # _ \<Rightarrow> Some x)"

text \<open>\<open>err != nil && !errors.Is(err, errConcurrentTransition)\<close>.\<close>

definition tolerant :: "unit op \<Rightarrow> unit op" where
  "tolerant m = bnd (attempt m) (\<lambda>res. case res of
     Inl e \<Rightarrow> if e = errConcurrentTransition then ret () else fail e | Inr u \<Rightarrow> ret ())"

definition chargeback_created :: "env \<Rightarrow> webhook_event \<Rightarrow> payment_row \<Rightarrow> order_row \<Rightarrow> money \<Rightarrow> string \<Rightarrow> int \<Rightarrow> unit op" where
  "chargeback_created en ev p r amount network respondBy =
     bnd fresh (\<lambda>i. bnd (new_public ''cbk'') (\<lambda>_.
     bnd (exec (insert_chargeback \<lparr>cb_id = i, cb_order = or_id r, cb_payment = pa_id p, cb_provider = ProviderName en,
        cb_ref = we_ProviderDisputeID ev, cb_network = network, cb_reason = nullIfEmpty (reasonCodeFromRaw (we_Dispute ev)),
        cb_amount = minor amount, cb_currency = or_currency r, cb_status = ''evidence_required'', cb_respond_by = respondBy\<rparr>)) (\<lambda>_.
     bnd (if or_status r \<noteq> StatusDisputed
          then tolerant (transition en (or_id r) (or_status r) StatusDisputed ''provider'' None ''chargeback received'') else ret ()) (\<lambda>_.
     bnd (query (\<lambda>d. Inr (map it_id (filter (\<lambda>x. it_order x = or_id r) (items d))))) (\<lambda>its.
     bnd (exec (update_transfers (\<lambda>t. tr_item t \<in> set its \<and> tr_status t \<in> {''pending'', ''on_hold''}) (Rehold (respondBy + 30 * day)))) (\<lambda>_.
     bnd (publish en ''chargeback.opened'' ''order'' (or_public r)
       [(''order_public_id'', JStr (or_public r)), (''network'', JStr network), (''amount_minor'', JInt (minor amount)),
        (''respond_by'', JStr (time_text en respondBy))] (or_public r)) (\<lambda>_. ret ())))))))"

definition set_chargeback :: "env \<Rightarrow> webhook_event \<Rightarrow> string \<Rightarrow> unit op" where
  "set_chargeback en ev st = bnd (exec (update_chargebacks
     (\<lambda>c. cb_provider c = ProviderName en \<and> cb_ref c = we_ProviderDisputeID ev) st)) (\<lambda>_. ret ())"

definition dispute_event_tx :: "env \<Rightarrow> webhook_event \<Rightarrow> unit op" where
  "dispute_event_tx en ev =
     bnd (query (\<lambda>d. Inr (payment_order en (we_ProviderPaymentID ev) d))) (\<lambda>found. case found of
       None \<Rightarrow> ret ()
     | Some (p, r) \<Rightarrow>
       let amount = (case we_Amount ev of None \<Rightarrow> Zero (or_currency r) | Some m \<Rightarrow> m);
           network = networkFromRaw (we_Dispute ev);
           respondBy = clock en + representmentWindow network in
       bnd (if we_Type ev = ''payment.dispute.created'' then chargeback_created en ev p r amount network respondBy
            else if we_Type ev = ''payment.dispute.won''
            then bnd (set_chargeback en ev ''won'') (\<lambda>_.
              tolerant (transition en (or_id r) StatusDisputed StatusFulfilled ''provider'' None ''representment succeeded''))
            else if we_Type ev = ''payment.dispute.lost''
            then bnd (set_chargeback en ev ''lost'') (\<lambda>_.
              bnd (postChargebackLoss en (or_id r) (or_public r) amount (we_ProviderDisputeID ev)) (\<lambda>_.
              tolerant (transition en (or_id r) StatusDisputed StatusChargebackLost ''provider'' None ''representment failed'')))
            else ret ()) (\<lambda>_.
       record_audit en \<lparr>ActorKind = ''provider'', ActorID = None, ActorIP = '''', Action = ''chargeback.'' @ we_Type ev,
         SubjectType = ''order'', SubjectID = or_public r, event.Metadata = Some (json_text en
           [(''dispute_id'', JStr (we_ProviderDisputeID ev)), (''network'', JStr network), (''amount_minor'', JInt (minor amount))])\<rparr>))"

definition onDispute :: "env \<Rightarrow> webhook_event \<Rightarrow> unit op" where
  "onDispute en ev = (if we_ProviderDisputeID ev = '''' \<or> we_ProviderPaymentID ev = '''' then ret () else in_tx (dispute_event_tx en ev))"

definition onAccountStatus :: "env \<Rightarrow> webhook_event \<Rightarrow> unit op" where
  "onAccountStatus en ev = (let st = we_Status ev in
     if we_ProviderAccountID ev = '''' then ret ()
     else if st = '''' then ret ()
     else if st \<notin> {''created'', ''needs_clarification'', ''under_review'', ''activated'', ''suspended''} then ret ()
     else in_tx (bnd (exec (set_account_status (we_ProviderAccountID ev) st (if st = ''activated'' then Some (clock en) else None))) (\<lambda>found.
       case found of None \<Rightarrow> ret ()
       | Some sellerPublic \<Rightarrow> bnd (publish en ''seller.kyc_updated'' ''seller'' sellerPublic
           [(''seller_public_id'', JStr sellerPublic), (''provider_account_status'', JStr st)] sellerPublic) (\<lambda>_. ret ()))))"

subsection \<open>\<open>HandleWebhook\<close>\<close>

definition applyWebhook :: "env \<Rightarrow> webhook_event \<Rightarrow> unit op" where
  "applyWebhook en ev = (let ty = we_Type ev in
     if ty \<in> {''payment.captured'', ''order.paid''} then onPaymentCaptured en ev
     else if ty = ''payment.failed'' then onPaymentFailed en ev
     else if ty \<in> {''refund.processed'', ''refund.created''} then onRefundProcessed en ev
     else if ty = ''transfer.processed'' then onTransferProcessed en ev
     else if ty = ''transfer.failed'' then onTransferFailed en ev
     else if ty \<in> {''payment.dispute.created'', ''payment.dispute.won'', ''payment.dispute.lost'', ''payment.dispute.closed''}
     then onDispute en ev
     else if ty \<in> {''account.activated'', ''account.under_review'', ''account.needs_clarification'', ''account.suspended''}
     then onAccountStatus en ev
     else ret ())"

definition find_event :: "env \<Rightarrow> webhook_event \<Rightarrow> database \<Rightarrow> webhook_row option" where
  "find_event en ev d = find (\<lambda>r. wh_provider r = ProviderName en \<and> wh_event r = we_EventID ev) (webhooks d)"

text \<open>The claim: the outcome so far. The stored payload is not read again and is left out.\<close>

definition claim_event :: "env \<Rightarrow> webhook_event \<Rightarrow> string \<Rightarrow> webhook_outcome op" where
  "claim_event en ev rawBody = (let digest = sha256 en rawBody;
       out = \<lparr>wo_EventID = we_EventID ev, wo_Type = we_Type ev, wo_Processed = False, wo_Duplicate = False, wo_ReplayMismatch = False\<rparr> in
     bnd (query (\<lambda>d. Inr (find_event en ev d))) (\<lambda>existing. case existing of
       Some x \<Rightarrow>
         if wh_digest x \<noteq> digest
         then bnd (exec (update_webhook (ProviderName en) (we_EventID ev) ''replay_detected'' wh_error)) (\<lambda>_.
              bnd (record_audit en \<lparr>ActorKind = ''provider'', ActorID = None, ActorIP = '''', Action = ''webhook.replay_mismatch'',
                SubjectType = ''webhook'', SubjectID = we_EventID ev,
                event.Metadata = Some (json_text en [(''event_type'', JStr (we_Type ev))])\<rparr>) (\<lambda>_.
              ret (out\<lparr>wo_Duplicate := True, wo_ReplayMismatch := True\<rparr>)))
         else if wh_status x = ''processed'' \<or> wh_status x = ''ignored''
         then ret (out\<lparr>wo_Duplicate := True, wo_Processed := True\<rparr>)
         else ret out
     | None \<Rightarrow> bnd fresh (\<lambda>_. bnd (exec (insert_webhook \<lparr>wh_provider = ProviderName en, wh_event = we_EventID ev,
           wh_type = we_Type ev, wh_digest = digest, wh_status = ''received'', wh_attempts = 0, wh_error = None\<rparr>)) (\<lambda>_. ret out))))"

definition HandleWebhook :: "env \<Rightarrow> string \<Rightarrow> string \<Rightarrow> webhook_outcome op" where
  "HandleWebhook en header rawBody = (case parse_webhook en header rawBody of
     Inl e \<Rightarrow>
       if e = ErrInvalidSignature
       then bnd (attempt (in_tx (record_audit en \<lparr>ActorKind = ''provider'', ActorID = None, ActorIP = '''',
              Action = ''webhook.signature_rejected'', SubjectType = ''webhook'', SubjectID = ProviderName en,
              event.Metadata = Some (json_text en [(''bytes'', JInt (int (length rawBody)))])\<rparr>))) (\<lambda>_.
            fail (ProblemE Unauthenticated))
       else fail (ProblemE (Validation ''body'' ''unparseable''))
   | Inr ev \<Rightarrow>
       bnd (in_tx (claim_event en ev rawBody)) (\<lambda>out.
       if wo_Duplicate out then ret out
       else bnd (attempt (applyWebhook en ev)) (\<lambda>applyErr.
         let (st, note) = (case applyErr of Inl e \<Rightarrow> (''failed'', error_text en e) | Inr u \<Rightarrow> (''processed'', '''')) in
         bnd (attempt (in_tx (exec (update_webhook (ProviderName en) (we_EventID ev) st (\<lambda>r. nullIfEmpty note))))) (\<lambda>_.
         case applyErr of Inl e \<Rightarrow> fail e | Inr u \<Rightarrow> ret (out\<lparr>wo_Processed := True\<rparr>)))))"

subsection \<open>What they may do\<close>

lemma keeps_tolerant [keeps_intros]: "keeps stmts m \<Longrightarrow> keeps stmts (tolerant m)"
  unfolding tolerant_def by (intro keeps_intros)

lemma keeps_postChargebackLoss [keeps_intros]: "keeps stmts (postChargebackLoss en i pub amount did)"
  unfolding postChargebackLoss_def loss_line_def recover_item_def by (intro keeps_intros)

lemma keeps_dispute_event [keeps_intros]: "keeps stmts (dispute_event_tx en ev)"
  unfolding dispute_event_tx_def chargeback_created_def set_chargeback_def by (intro keeps_intros)

lemma keeps_capture_event [keeps_intros]: "keeps stmts (capture_event_tx en record)"
  unfolding capture_event_tx_def recordOrphanPayment_def recordAmountMismatch_def record_run_def by (intro keeps_intros)

lemma keeps_failed_event [keeps_intros]: "keeps stmts (failed_event_tx en ev)"
  unfolding failed_event_tx_def by (intro keeps_intros)

lemma keeps_applyWebhook [tx_intros]: "keeps history (applyWebhook en ev)"
  unfolding applyWebhook_def onPaymentCaptured_def onPaymentFailed_def onRefundProcessed_def onTransferProcessed_def
    onTransferFailed_def onDispute_def onAccountStatus_def
  by (intro tx_intros keeps_intros)

lemma keeps_claim_event [keeps_intros]: "keeps stmts (claim_event en ev raw)"
  unfolding claim_event_def by (intro keeps_intros)

lemma keeps_HandleWebhook [tx_intros]: "keeps history (HandleWebhook en header raw)"
  unfolding HandleWebhook_def by (intro tx_intros keeps_intros)

end
