(* ===== verification/OrderDemo.thy ===== *)
theory OrderDemo
  imports Webhook
begin

text \<open>
  A small marketplace to evaluate the model on: the platform's accounts, one seller, one product
  with one variant, and a provider that captures what it is asked to. The examples of the
  properties run on it.
\<close>

definition demo_codes :: "(string \<times> acct_kind) list" where
  "demo_codes = [(''platform.clearing.bridge'', Asset), (''platform.input_credit.gst'', Asset),
     (''platform.payable.gst_output'', Liability), (''platform.payable.tcs'', Liability), (''platform.payable.tds_194o'', Liability),
     (''platform.income.commission'', Income), (''platform.expense.psp_fee'', Expense), (''platform.expense.refund_absorbed'', Expense),
     (''platform.expense.chargeback_loss'', Expense), (''platform.receivable.seller_offset'', Asset)]"

definition demo_accounts :: "account list" where
  "demo_accounts = map (\<lambda>(i, code, k). \<lparr>a_id = i, a_code = PlatformCode code, a_kind = k, a_currency = ''INR'',
     is_control = False, closed = False\<rparr>) (enumerate 10 demo_codes)"

definition demo_journal :: ledger where
  "demo_journal = \<lparr>accounts = demo_accounts, entries = [], jlines = [], balances = [], next_seq = 1, next_uuid = 100\<rparr>"

definition demo_seller :: seller_row where
  "demo_seller = \<lparr>sl_id = 7, sl_public = ''slr_7'', sl_name = ''Studio'', sl_gst_registered = True, sl_gstin = Some ''33ABCDE1234F1Z5'',
     sl_pan = Some ''ABCDE1234F'', sl_state = Some 33, sl_entity = ''llp'', sl_status = ''active'', sl_kyc = ''verified'',
     sl_account = Some ''acc_7'', sl_account_status = ''activated'', sl_activated = Some 0, sl_hold_days = 14, sl_reserve_bps = 500\<rparr>"

definition demo_product :: product_row where
  "demo_product = \<lparr>pr_id = 8, pr_public = ''prd_8'', pr_seller = 7, pr_title = ''Font'', pr_license_type = ''standard'', pr_license_terms = ''t'',
     pr_refund_policy = ''refundable_14_days'', pr_days = None, pr_delivery = ''file'', pr_status = ''published'', pr_sales = 0, pr_refunds = 0\<rparr>"

definition demo_variant :: "int option \<Rightarrow> variant_row" where
  "demo_variant cap = \<lparr>va_id = 9, va_public = ''var_9'', va_product = 8, va_price = 100000, va_currency = ''INR'', va_active = True,
     va_max = cap, va_sales = 0\<rparr>"

definition demo_database :: "int option \<Rightarrow> database" where
  "demo_database cap = \<lparr>orders = [], events = [], items = [], intents = [], payments = [], transfers = [], licenses = [], refunds = [],
     chargebacks = [], offsets = [], deltas = [], turnover = [], invoices = [], series = [], disputes = [], downloads = [],
     idem_keys = [], webhooks = [], runs = [], differences = [], sellers = [demo_seller], fees = [], products = [demo_product],
     variants = [demo_variant cap], journal = demo_journal, outbox = [], auditlog = \<lparr>rows = [], seq_next = 1, pos_next = 1\<rparr>\<rparr>"

definition demo_start :: world where
  "demo_start = \<lparr>w_db = demo_database None, w_fresh = 50, w_calls = [], w_order_seq = 1\<rparr>"

text \<open>The provider names an intent after its order, and reports a payment of the demo price, captured.\<close>

definition demo_total :: money where
  "demo_total = \<lparr>minor = 118000, cur = ''INR''\<rparr>"

definition demo_payment :: "string \<Rightarrow> payment_record" where
  "demo_payment ref = \<lparr>pm_ProviderPaymentID = ref, pm_ProviderIntentID = ''int'', pm_Amount = demo_total, pm_Status = PaymentCaptured,
     pm_Method = ''upi'', pm_CardNetwork = [], pm_Fee = Some \<lparr>minor = 2360, cur = ''INR''\<rparr>,
     pm_Tax = Some \<lparr>minor = 425, cur = ''INR''\<rparr>\<rparr>"

definition demo_reconcile :: "provider_call list \<Rightarrow> provider_error + payment_record" where
  "demo_reconcile cs = (case cs of ReconcilePayment ref # _ \<Rightarrow> Inr (demo_payment ref) | _ \<Rightarrow> Inl ErrNotFound)"

definition demo_create :: "provider_call list \<Rightarrow> provider_error + create_payment_result" where
  "demo_create cs = (case cs of CreatePayment r # _ \<Rightarrow> Inr \<lparr>cr_ProviderIntentID = OrderReference r, cr_CheckoutParams = []\<rparr> | _ \<Rightarrow> Inl ErrNotFound)"

definition demo_env :: "int \<Rightarrow> env" where
  "demo_env now = \<lparr>ProviderName = ''bridge'', SplitSettlement = False, SettlementHold = False, TransferReversal = False,
     create_payment = demo_create, verify_payment = (\<lambda>cs. Inr (True, '''')), reconcile_payment = demo_reconcile,
     capture_payment = (\<lambda>cs. Inl ErrNotSupported), request_refund = (\<lambda>cs. Inr (''rfnd_'' @ dec_nat (length cs))), release_settlement = (\<lambda>cs. Inr ()),
     parse_webhook = (\<lambda>h b. Inl ErrInvalidSignature), tax_policy = DefaultPolicy, pspFeeBps = 200, pspFeeGSTBps = 1800,
     DownloadsPerLicense = 5, json_text = (\<lambda>kvs. ''{}''), jsonb = Some, inet = (\<lambda>ip. True),
     sha256 = (\<lambda>s. replicate 32 (CHR ''h'')), time_text = (\<lambda>t. ''1970-01-12T13:46:40Z''), error_text = (\<lambda>e. ''error''), request_id = '''', clock = now\<rparr>"

definition demo_request :: "nat \<Rightarrow> checkout_request" where
  "demo_request buyer = \<lparr>rq_BuyerID = buyer, rq_Items = [\<lparr>ProductPublicID = ''prd_8'', VariantPublicID = ''var_9''\<rparr>], rq_BuyerStateCode = 33,
     rq_BuyerCountry = ''in'', rq_BuyerGSTIN = '''', rq_IsB2B = False, rq_IP = '''', rq_IdempotencyKey = ''key-00001''\<rparr>"

text \<open>
  Two orders of the same product, each awaiting a payment of the same amount, by the buyers 21 and 22.
\<close>

definition demo_order :: "nat \<Rightarrow> nat \<Rightarrow> status \<Rightarrow> order_row" where
  "demo_order i buyer st = \<lparr>or_id = i, or_public = pub_id ''ord'' i, or_number = ''MKT-'' @ dec_nat i, or_buyer = buyer, or_status = st,
     or_currency = ''INR'', or_items = 100000, or_tax = 18000, or_grand = 118000, or_refunded = 0, or_country = ''IN'', or_state = Some 33,
     or_gstin = None, or_b2b = False, or_ip = None, or_placed = Some 999000, or_paid = None, or_fulfilled = None, or_completed = None,
     or_expires = Some 1000800, or_created = 999000\<rparr>"

definition demo_item :: "nat \<Rightarrow> nat \<Rightarrow> item_row" where
  "demo_item i ord = \<lparr>it_id = i, it_public = pub_id ''oit'' i, it_order = ord, it_product = 8, it_variant = 9, it_seller = 7,
     it_title = ''Font'', it_license_type = ''standard'', it_license_terms = ''t'', it_refund_policy = ''refundable_14_days'',
     it_gstin = Some ''33ABCDE1234F1Z5'', it_pan = Some ''ABCDE1234F'', it_state = Some 33, it_currency = ''INR'', it_unit = 100000,
     it_line_total = 100000, it_gst_bps = 1800, it_cgst = 9000, it_sgst = 9000, it_igst = 0, it_tax = 18000, it_buyer_total = 118000,
     it_commission_bps = 900, it_commission = 9000, it_commission_gst = 1620, it_tcs_bps = 100, it_tcs = 1000, it_tds_bps = 10,
     it_tds = 100, it_psp = 2360, it_psp_gst = 425, it_net = 106280, it_refunded = 0, it_status = ''pending'', it_fulfilled = None,
     it_created = 999000\<rparr>"

definition demo_intent :: "nat \<Rightarrow> nat \<Rightarrow> intent_row" where
  "demo_intent i ord = \<lparr>in_id = i, in_order = ord, in_provider = ''bridge'', in_ref = pub_id ''ord'' ord, in_amount = 118000,
     in_currency = ''INR'', in_status = ''created'', in_expires = 1001000, in_created = 999500\<rparr>"

definition demo_awaiting :: "int option \<Rightarrow> world" where
  "demo_awaiting cap = \<lparr>w_db = (demo_database cap)\<lparr>orders := [demo_order 31 21 StatusAwaitingPayment, demo_order 32 22 StatusAwaitingPayment],
       items := [demo_item 41 31, demo_item 42 32], intents := [demo_intent 45 31, demo_intent 46 32]\<rparr>,
     w_fresh = 50, w_calls = [], w_order_seq = 3\<rparr>"

definition demo_confirm :: "nat \<Rightarrow> nat \<Rightarrow> string \<Rightarrow> confirm_request" where
  "demo_confirm ord buyer ref = \<lparr>cf_OrderPublicID = pub_id ''ord'' ord, cf_ProviderIntentID = pub_id ''ord'' ord,
     cf_ProviderPaymentID = ref, cf_Signature = ''sig'', cf_BuyerID = buyer, cf_IP = ''10.0.0.1''\<rparr>"


subsection \<open>Evaluation\<close>

text \<open>
  Rules by which \<open>simp\<close> runs an operation on a concrete world: first the step, then what follows it.
\<close>

named_theorems demo_eval \<open>rules that run the model on concrete worlds\<close>

lemma bnd_weak: "m = m' \<Longrightarrow> w = w' \<Longrightarrow> bnd m f w = bnd m' f w'"
  by simp

lemma bindE_weak: "m = m' \<Longrightarrow> bindE m f = bindE m' f"
  by simp

lemma op_eval [demo_eval]:
  "bnd m f w = (case m w of (Inl e, w') \<Rightarrow> (Inl e, w') | (Inr x, w') \<Rightarrow> f x w')"
  "query q w = (q (w_db w), w)"
  "exec s w = (case s (w_db w) of Inl e \<Rightarrow> (Inl e, w) | Inr (x, d) \<Rightarrow> (Inr x, w\<lparr>w_db := d\<rparr>))"
  "lift r w = (r, w)"
  by (simp_all add: bnd_def query_def exec_def lift_def)

lemma demo_env_eval [demo_eval]:
  "ProviderName (demo_env now) = ''bridge''" "clock (demo_env now) = now" "jsonb (demo_env now) = Some"
  "json_text (demo_env now) kvs = ''{}''" "inet (demo_env now) ip = True" "sha256 (demo_env now) x = replicate 32 (CHR ''h'')"
  "time_text (demo_env now) t = ''1970-01-12T13:46:40Z''" "request_id (demo_env now) = []" "verify_payment (demo_env now) cs = Inr (True, [])"
  "reconcile_payment (demo_env now) cs = demo_reconcile cs" "create_payment (demo_env now) cs = demo_create cs"
  "request_refund (demo_env now) cs = Inr (''rfnd_'' @ dec_nat (length cs))" "tax_policy (demo_env now) = DefaultPolicy"
  "DownloadsPerLicense (demo_env now) = 5" "pspFeeBps (demo_env now) = 200" "pspFeeGSTBps (demo_env now) = 1800"
  "TransferReversal (demo_env now) = False" "SettlementHold (demo_env now) = False" "SplitSettlement (demo_env now) = False"
  by (simp_all add: demo_env_def)

lemmas demo_worlds [demo_eval] = demo_awaiting_def demo_database_def demo_journal_def demo_total_def demo_order_def
  demo_item_def demo_intent_def demo_product_def demo_variant_def demo_confirm_def demo_payment_def
  demo_reconcile_def demo_create_def

lemmas demo_ledger [demo_eval] = Post_def Validate_def validate_line_def find_entry_def insert_entry_def insert_line_def entry_kinds_def
  currency_code_def find_account_def char_count_def money_minor_def IsPositive_def IsNegative_def IsZero_def Zero_def Add_def Sub_def Neg_def
  sameCurrency_def SellerAccount_def AccountByCode_def pub_id_def commit_check_def journal_entry_must_balance_def entry_lines_def
  dir_sum_def in_i64_def wrap64_def Valid_def exponents_def New_def Equal_def dec_nat.simps

lemmas demo_shape [demo_eval] = fresh_def new_public_def call_def attempt_def Let_def in_tx_def LoadOrder_def load_order_def load_line_def
  order_items_def stable_sort_def item_less_def amount_ok_def positive_ok_def bps_ok_def char_fits_def smallint_ok_def upper_letters_def


text \<open>The accounts, found by code or by id.\<close>

lemma demo_account_codes [demo_eval]:
  "find (\<lambda>a. a_code a = PlatformCode ''platform.clearing.bridge'' \<and> \<not> closed a) (demo_accounts @ as) = Some
     \<lparr>a_id = 10, a_code = PlatformCode ''platform.clearing.bridge'', a_kind = Asset, a_currency = ''INR'', is_control = False, closed = False\<rparr>"
  "find (\<lambda>a. a_code a = PlatformCode ''platform.input_credit.gst'' \<and> \<not> closed a) (demo_accounts @ as) = Some
     \<lparr>a_id = 11, a_code = PlatformCode ''platform.input_credit.gst'', a_kind = Asset, a_currency = ''INR'', is_control = False, closed = False\<rparr>"
  "find (\<lambda>a. a_code a = PlatformCode ''platform.payable.gst_output'' \<and> \<not> closed a) (demo_accounts @ as) = Some
     \<lparr>a_id = 12, a_code = PlatformCode ''platform.payable.gst_output'', a_kind = Liability, a_currency = ''INR'', is_control = False, closed = False\<rparr>"
  "find (\<lambda>a. a_code a = PlatformCode ''platform.payable.tcs'' \<and> \<not> closed a) (demo_accounts @ as) = Some
     \<lparr>a_id = 13, a_code = PlatformCode ''platform.payable.tcs'', a_kind = Liability, a_currency = ''INR'', is_control = False, closed = False\<rparr>"
  "find (\<lambda>a. a_code a = PlatformCode ''platform.payable.tds_194o'' \<and> \<not> closed a) (demo_accounts @ as) = Some
     \<lparr>a_id = 14, a_code = PlatformCode ''platform.payable.tds_194o'', a_kind = Liability, a_currency = ''INR'', is_control = False, closed = False\<rparr>"
  "find (\<lambda>a. a_code a = PlatformCode ''platform.income.commission'' \<and> \<not> closed a) (demo_accounts @ as) = Some
     \<lparr>a_id = 15, a_code = PlatformCode ''platform.income.commission'', a_kind = Income, a_currency = ''INR'', is_control = False, closed = False\<rparr>"
  "find (\<lambda>a. a_code a = PlatformCode ''platform.expense.psp_fee'' \<and> \<not> closed a) (demo_accounts @ as) = Some
     \<lparr>a_id = 16, a_code = PlatformCode ''platform.expense.psp_fee'', a_kind = Expense, a_currency = ''INR'', is_control = False, closed = False\<rparr>"
  "find (\<lambda>a. a_code a = PlatformCode ''platform.expense.refund_absorbed'' \<and> \<not> closed a) (demo_accounts @ as) = Some
     \<lparr>a_id = 17, a_code = PlatformCode ''platform.expense.refund_absorbed'', a_kind = Expense, a_currency = ''INR'', is_control = False, closed = False\<rparr>"
  "find (\<lambda>a. a_code a = PlatformCode ''platform.expense.chargeback_loss'' \<and> \<not> closed a) (demo_accounts @ as) = Some
     \<lparr>a_id = 18, a_code = PlatformCode ''platform.expense.chargeback_loss'', a_kind = Expense, a_currency = ''INR'', is_control = False, closed = False\<rparr>"
  "find (\<lambda>a. a_code a = PlatformCode ''platform.receivable.seller_offset'' \<and> \<not> closed a) (demo_accounts @ as) = Some
     \<lparr>a_id = 19, a_code = PlatformCode ''platform.receivable.seller_offset'', a_kind = Asset, a_currency = ''INR'', is_control = False, closed = False\<rparr>"
  by (simp_all add: demo_accounts_def demo_codes_def)

lemma demo_account_ids [demo_eval]:
  "find (\<lambda>a. a_id a = 10) (demo_accounts @ as) = Some
     \<lparr>a_id = 10, a_code = PlatformCode ''platform.clearing.bridge'', a_kind = Asset, a_currency = ''INR'', is_control = False, closed = False\<rparr>"
  "find (\<lambda>a. a_id a = 11) (demo_accounts @ as) = Some
     \<lparr>a_id = 11, a_code = PlatformCode ''platform.input_credit.gst'', a_kind = Asset, a_currency = ''INR'', is_control = False, closed = False\<rparr>"
  "find (\<lambda>a. a_id a = 12) (demo_accounts @ as) = Some
     \<lparr>a_id = 12, a_code = PlatformCode ''platform.payable.gst_output'', a_kind = Liability, a_currency = ''INR'', is_control = False, closed = False\<rparr>"
  "find (\<lambda>a. a_id a = 13) (demo_accounts @ as) = Some
     \<lparr>a_id = 13, a_code = PlatformCode ''platform.payable.tcs'', a_kind = Liability, a_currency = ''INR'', is_control = False, closed = False\<rparr>"
  "find (\<lambda>a. a_id a = 14) (demo_accounts @ as) = Some
     \<lparr>a_id = 14, a_code = PlatformCode ''platform.payable.tds_194o'', a_kind = Liability, a_currency = ''INR'', is_control = False, closed = False\<rparr>"
  "find (\<lambda>a. a_id a = 15) (demo_accounts @ as) = Some
     \<lparr>a_id = 15, a_code = PlatformCode ''platform.income.commission'', a_kind = Income, a_currency = ''INR'', is_control = False, closed = False\<rparr>"
  "find (\<lambda>a. a_id a = 16) (demo_accounts @ as) = Some
     \<lparr>a_id = 16, a_code = PlatformCode ''platform.expense.psp_fee'', a_kind = Expense, a_currency = ''INR'', is_control = False, closed = False\<rparr>"
  "find (\<lambda>a. a_id a = 17) (demo_accounts @ as) = Some
     \<lparr>a_id = 17, a_code = PlatformCode ''platform.expense.refund_absorbed'', a_kind = Expense, a_currency = ''INR'', is_control = False, closed = False\<rparr>"
  "find (\<lambda>a. a_id a = 18) (demo_accounts @ as) = Some
     \<lparr>a_id = 18, a_code = PlatformCode ''platform.expense.chargeback_loss'', a_kind = Expense, a_currency = ''INR'', is_control = False, closed = False\<rparr>"
  "find (\<lambda>a. a_id a = 19) (demo_accounts @ as) = Some
     \<lparr>a_id = 19, a_code = PlatformCode ''platform.receivable.seller_offset'', a_kind = Asset, a_currency = ''INR'', is_control = False, closed = False\<rparr>"
  by (simp_all add: demo_accounts_def demo_codes_def)

lemma demo_account_others [demo_eval]:
  "find (\<lambda>a. a_code a = SellerCode s p c) (demo_accounts @ as) = find (\<lambda>a. a_code a = SellerCode s p c) as"
  "20 \<le> i \<Longrightarrow> find (\<lambda>a. a_id a = i) (demo_accounts @ as) = find (\<lambda>a. a_id a = i) as"
  by (simp_all add: demo_accounts_def demo_codes_def)

lemmas demo_account_end [demo_eval] = demo_account_codes [where as = "[]", simplified] demo_account_ids [where as = "[]", simplified]
  demo_account_others [where as = "[]", simplified]

lemma demo_seller_eval [demo_eval]:
  "sl_id demo_seller = 7" "sl_public demo_seller = ''slr_7''" "sl_name demo_seller = ''Studio''" "sl_gstin demo_seller = Some ''33ABCDE1234F1Z5''"
  "sl_state demo_seller = Some 33" "sl_kyc demo_seller = ''verified''" "sl_account demo_seller = Some ''acc_7''"
  "sl_account_status demo_seller = ''activated''" "sl_hold_days demo_seller = 14" "sl_reserve_bps demo_seller = 500"
  "sl_status demo_seller = ''active''"
  by (simp_all add: demo_seller_def)

text \<open>Values the examples meet again and again, computed once.\<close>

lemma demo_texts [demo_eval]:
  "FinancialYearStart 1000000 = -23760000" "year_yy (-23760000) = ''69''" "year_later (-23760000) = 7776000"
  "year_yy 7776000 = ''70''" "lpad 6 ''1'' = ''000001''" "lpad 6 ''2'' = ''000002''"
  by code_simp+

lemma demo_digits [demo_eval]:
  "digit_char 0 = CHR ''0''" "digit_char (Suc 0) = CHR ''1''" "digit_char 2 = CHR ''2''" "digit_char 3 = CHR ''3''" "digit_char 4 = CHR ''4''"
  "digit_char 5 = CHR ''5''" "digit_char 6 = CHR ''6''" "digit_char 7 = CHR ''7''" "digit_char 8 = CHR ''8''" "digit_char 9 = CHR ''9''"
  by code_simp+

lemma demo_policy [demo_eval]:
  "PlatformStateCode DefaultPolicy = 33" "PlatformGSTIN DefaultPolicy = []" "PSPFeeBearer DefaultPolicy = ''platform''"
  by (simp_all add: DefaultPolicy_def)

lemmas demo_statements [demo_eval] = insert_payment_def payment_methods_def update_intents_def update_orders_def order_update_ok_def
  order_core_def transition_ok_def order_transitions_allowed_def order_checks_def insert_event_def update_items_def item_checks_def
  insert_license_def insert_transfer_def insert_delta_def next_invoice_number_def insert_invoice_def variant_sold_def product_sold_def
  insert_refund_def refund_reasons_def update_transfers_def refund_licenses_def product_refunded_def insert_offset_def offset_checks_def

lemmas demo_modules [demo_eval] = account_by_code_def seller_account_def post_entry_def publish_def PublishJSON_def Publish_def
  insert_message_def record_audit_def Record_def audit_insert_def actor_kinds_def null_if_empty_def nullIfEmpty_def last_hash_def

lemmas demo_capture [demo_eval] = recordCapture_def insert_capture_def payment_id_def payment_method_def postCaptureLedger_def
  capture_line_def post_fee_def fee_amounts_def positive_lines_def clearingAccountCode_def uuid_str_def zero_uuid_def
  transitionStamped_def transition_def issueLicenses_def issue_license_def license_terms_def download_limit_def recordTransfers_def
  record_transfer_def updateTurnover_def fyStart_def issueInvoices_def seller_for_invoice_def supply_invoice_def
  commission_invoice_def splitCommissionGST_def mark_sold_def announce_paid_def


lemma demo_half [demo_eval]: "MulRatio \<lparr>minor = 1620, cur = ''INR''\<rparr> 1 2 Down = Inr \<lparr>minor = 810, cur = ''INR''\<rparr>"
  by (simp add: MulRatio_exact money_ok_def in_i64_def round_ref_def round_mag_def)


subsection \<open>A confirmed payment\<close>

text \<open>
  The order 32 has been paid with \<open>pay_A\<close>. The browser of the buyer of the order 31 names the same
  payment: nothing ties a payment to the order it was made for, and the order 31 is fulfilled too.
\<close>

definition demo_spent :: world where
  "demo_spent = \<lparr>w_db = (demo_database None)\<lparr>orders := [demo_order 31 21 StatusAwaitingPayment,
         (demo_order 32 22 StatusFulfilled)\<lparr>or_paid := Some 999600\<rparr>],
       items := [demo_item 41 31], intents := [demo_intent 45 31],
       payments := [\<lparr>pa_id = 47, pa_order = 32, pa_provider = ''bridge'', pa_ref = ''pay_A'', pa_method = ''upi'', pa_network = None,
         pa_amount = 118000, pa_currency = ''INR'', pa_fee = Some 2360, pa_fee_tax = Some 425, pa_status = ''captured'',
         pa_captured = 999600, pa_raw = ''captured''\<rparr>]\<rparr>,
     w_fresh = 50, w_calls = [], w_order_seq = 3\<rparr>"

lemma payment_spent_twice:
  "case ConfirmPayment (demo_env 1000000) (demo_confirm 31 21 ''pay_A'') demo_spent of
     (Inr r, w) \<Rightarrow> \<not> co_AlreadyConfirmed r \<and> map or_status (orders (w_db w)) = [StatusFulfilled, StatusFulfilled]
       \<and> map pa_order (payments (w_db w)) = [32] \<and> map li_item (licenses (w_db w)) = [41] \<and> length (od_Lines (co_Order r)) = 1
   | (Inl e, w) \<Rightarrow> False"
  by (simp add: ConfirmPayment_def confirm_tx_def demo_spent_def demo_eval cong: bindE_weak bnd_weak)

end
