(* ===== verification/Marketplace.thy ===== *)
theory Marketplace
  imports OrderDemo
begin

text \<open>
  The orders package as a whole: every request and scheduled task it serves, one after another and
  with other modules' work in between, from an empty set of orders. The worker's
  \<open>expireStaleOrders\<close> (\<open>internal/worker/worker.go\<close>) also writes orders and is modelled here. The
  invariants proved once over single statements hold in every reachable world, whatever the
  provider answers and wherever an operation fails.
\<close>

subsection \<open>The worker's own statement on orders\<close>

definition stale_orders :: "(nat \<Rightarrow> bool) \<Rightarrow> int \<Rightarrow> database \<Rightarrow> order_row list" where
  "stale_orders held now d = take 200 (filter (\<lambda>r. \<not> held (or_id r))
     (stable_sort (\<lambda>a b. the (or_expires a) < the (or_expires b))
       (filter (\<lambda>r. or_status r \<in> {StatusDraft, StatusAwaitingPayment}
          \<and> (case or_expires r of None \<Rightarrow> False | Some t \<Rightarrow> t < now)) (orders d))))"

text \<open>Rows another transaction holds are skipped: \<open>held\<close>.\<close>

definition expireStaleOrders :: "env \<Rightarrow> (nat \<Rightarrow> bool) \<Rightarrow> nat op" where
  "expireStaleOrders en held = in_tx (
     bnd (query (\<lambda>d. Inr (stale_orders held (clock en) d))) (\<lambda>batch.
     bnd (forE (\<lambda>r. bnd (exec (update_orders en (\<lambda>x. or_id x = or_id r) (\<lambda>x. x\<lparr>or_status := StatusExpired\<rparr>))) (\<lambda>_.
        exec (insert_event \<lparr>ev_order = or_id r, ev_from = Some (or_status r), ev_to = StatusExpired, ev_actor_kind = ''system'',
          ev_actor = None, ev_reason = ''payment window elapsed''\<rparr>))) batch) (\<lambda>_.
     ret (length batch))))"

lemma keeps_expireStaleOrders [tx_intros]: "keeps history (expireStaleOrders en held)"
  unfolding expireStaleOrders_def by (intro tx_intros keeps_intros)

subsection \<open>Requests and worlds\<close>

datatype request =
    CheckoutRequest checkout_request
  | BeginPaymentRequest string nat
  | ConfirmRequest confirm_request
  | RefundRequest refund_request_in
  | ReleaseTask int
  | CompleteTask int int
  | ExpireTask "nat \<Rightarrow> bool"
  | WebhookRequest string string

fun serve :: "env \<Rightarrow> request \<Rightarrow> unit op" where
  "serve en (CheckoutRequest req) = bnd (Checkout en req) (\<lambda>_. ret ())"
| "serve en (BeginPaymentRequest pid buyer) = bnd (BeginPayment en pid buyer) (\<lambda>_. ret ())"
| "serve en (ConfirmRequest req) = bnd (ConfirmPayment en req) (\<lambda>_. ret ())"
| "serve en (RefundRequest req) = bnd (Refund en req) (\<lambda>_. ret ())"
| "serve en (ReleaseTask limit) = bnd (ReleaseDueSettlements en limit) (\<lambda>_. ret ())"
| "serve en (CompleteTask window limit) = bnd (CompleteProtectedOrders en window limit) (\<lambda>_. ret ())"
| "serve en (ExpireTask held) = bnd (expireStaleOrders en held) (\<lambda>_. ret ())"
| "serve en (WebhookRequest header raw) = bnd (HandleWebhook en header raw) (\<lambda>_. ret ())"

lemma keeps_serve: "keeps history (serve en q)"
  by (cases q) (simp_all, (intro tx_intros)+)

text \<open>
  What the other modules do between two requests: they leave the tables below alone, and the
  ledger moves by a committed unit of work or by a rollup.
\<close>

definition ledger_step :: "ledger \<Rightarrow> ledger \<Rightarrow> bool" where
  "ledger_step l l' \<longleftrightarrow> l' = l \<or> (\<exists>ops. foldE run_op ops l = Inr l' \<and> commit_check l l' = Inr ()) \<or> (\<exists>n. Rollup l = Inr (n, l'))"

definition license_core :: "license_row \<Rightarrow> nat \<times> string \<times> nat \<times> nat" where
  "license_core r = (li_id r, li_public r, li_item r, li_user r)"

definition elsewhere :: "database \<Rightarrow> database \<Rightarrow> bool" where
  "elsewhere d d' \<longleftrightarrow> orders d' = orders d \<and> items d' = items d \<and> payments d' = payments d \<and> transfers d' = transfers d
     \<and> refunds d' = refunds d \<and> chargebacks d' = chargebacks d \<and> map license_core (licenses d') = map license_core (licenses d)
     \<and> ledger_step (journal d) (journal d')"

definition first_day :: "database \<Rightarrow> bool" where
  "first_day d \<longleftrightarrow> orders d = [] \<and> items d = [] \<and> payments d = [] \<and> transfers d = [] \<and> licenses d = [] \<and> refunds d = []
     \<and> chargebacks d = [] \<and> chart (journal d)"

inductive reached :: "world \<Rightarrow> bool" where
  start: "first_day (w_db w) \<Longrightarrow> reached w"
| serve: "reached w \<Longrightarrow> serve en q w = (r, w') \<Longrightarrow> reached w'"
| others: "reached w \<Longrightarrow> elsewhere (w_db w) d' \<Longrightarrow> reached (w\<lparr>w_db := d'\<rparr>)"

subsection \<open>The ledger\<close>

definition ledger_rel :: "database \<Rightarrow> database \<Rightarrow> bool" where
  "ledger_rel d d' \<longleftrightarrow> (ledger_wf (journal d) \<longrightarrow> ledger_wf (journal d') \<and> ledger_ext (journal d) (journal d'))"

interpretation ledger_rel: step_relation ledger_rel
  by unfold_locales (auto simp: ledger_rel_def intro: ledger_ext_trans)

lemma stmt_journal:
  assumes "stmt d d'"
  shows "journal d' = journal d \<or> (\<exists>now e p. Post now e (journal d) = Inr (p, journal d'))
    \<or> (\<exists>s p c a. SellerAccount s p c (journal d) = Inr (a, journal d'))"
  using assms
proof (cases rule: stmt.cases)
  case (insert_payment pa u)
  then show ?thesis by (auto simp: insert_payment_def split: if_splits)
next
  case (insert_transfer tr u)
  then show ?thesis by (auto simp: insert_transfer_def split: if_splits)
next
  case (insert_license li u)
  then show ?thesis by (auto simp: insert_license_def split: if_splits)
next
  case (insert_chargeback cb u)
  then show ?thesis by (auto simp: insert_chargeback_def split: if_splits)
qed (auto simp: insert_order_def update_orders_def insert_item_def update_items_def update_transfers_def insert_refund_def
    update_refunds_def update_chargebacks_def)

lemma stmts_ledger: "stmts d d' \<Longrightarrow> ledger_rel d d'"
proof (induction rule: rtranclp_induct)
  case base
  show ?case by (rule ledger_rel.refl)
next
  case (step d1 d2)
  have "ledger_rel d1 d2" using stmt_journal [OF step(2)]
    by (auto simp: ledger_rel_def dest: Post_wf SellerAccount_wf)
  then show ?case by (rule ledger_rel.trans [OF step.IH])
qed

lemma history_ledger: "history d d' \<Longrightarrow> ledger_ok (journal d) \<Longrightarrow> ledger_ok (journal d')"
proof (induction rule: rtranclp_induct)
  case (step d1 d2)
  then have s: "stmts d1 d2" and c: "commit_check (journal d1) (journal d2) = Inr ()" by (simp_all add: committed_def)
  have "ledger_ok (journal d1)" using step by blast
  then show ?case using stmts_ledger [OF s] commit_check_balances [OF _ _ _ c] by (auto simp: ledger_rel_def ledger_ok_def)
qed

lemma ledger_step_ok: "ledger_ok l \<Longrightarrow> ledger_step l l' \<Longrightarrow> ledger_ok l'"
  using run_ops_wf [of l] commit_check_balances [of l l'] Rollup_ok
  unfolding ledger_step_def ledger_ok_def by blast

lemma reached_ledger: "reached w \<Longrightarrow> ledger_ok (journal (w_db w))"
proof (induction rule: reached.induct)
  case (start w)
  then show ?case using reachable_ok [OF reachable.start] by (simp add: first_day_def)
next
  case (serve w en q r w')
  then show ?case using history_ledger history.keeps_after [OF keeps_serve] by blast
next
  case (others w d')
  then show ?case using ledger_step_ok by (simp add: elsewhere_def)
qed

subsection \<open>The state machine\<close>

abbreviation moves :: "(status \<times> status) set" where
  "moves \<equiv> set order_transitions_allowed"

definition order_evolves :: "order_row \<Rightarrow> order_row \<Rightarrow> bool" where
  "order_evolves r r' \<longleftrightarrow> order_core r' = order_core r \<and> (or_status r, or_status r') \<in> moves\<^sup>*"

lemma order_evolves_refl [simp]: "order_evolves r r"
  by (simp add: order_evolves_def)

lemma order_evolves_trans: "order_evolves a b \<Longrightarrow> order_evolves b c \<Longrightarrow> order_evolves a c"
  by (auto simp: order_evolves_def)

definition order_rel :: "database \<Rightarrow> database \<Rightarrow> bool" where
  "order_rel d d' \<longleftrightarrow> (\<exists>rs new. orders d' = rs @ new \<and> list_all2 order_evolves (orders d) rs)"

lemma order_rel_same: "orders d' = orders d \<Longrightarrow> order_rel d d'"
  unfolding order_rel_def by (rule exI [of _ "orders d"], rule exI [of _ "[]"]) (simp add: list_all2_same)

lemma order_rel_trans:
  assumes "order_rel a b" and "order_rel b c"
  shows "order_rel a c"
proof -
  obtain rs new where 1: "orders b = rs @ new" "list_all2 order_evolves (orders a) rs"
    using assms(1) by (auto simp: order_rel_def)
  obtain qs new' where 2: "orders c = qs @ new'" "list_all2 order_evolves (orders b) qs"
    using assms(2) by (auto simp: order_rel_def)
  from 1 2 obtain q1 q2 where q: "qs = q1 @ q2" "list_all2 order_evolves rs q1"
    by (auto simp: list_all2_append1)
  have "list_all2 order_evolves (orders a) q1"
    using order_evolves_trans by (rule list_all2_trans [OF _ 1(2) q(2)])
  then show ?thesis using 2(1) q(1) by (auto simp: order_rel_def)
qed

interpretation order_rel: step_relation order_rel
  by unfold_locales (auto intro: order_rel_same order_rel_trans)

lemma update_orders_rel:
  assumes "update_orders en p f d = Inr (n, d')"
  shows "list_all2 (\<lambda>r r'. r' = r \<or> order_core r' = order_core r \<and> transition_ok (or_status r) (or_status r')
    \<and> order_checks en r' = Inr ()) (orders d) (orders d')"
proof -
  from assms obtain rs where m: "mapE (\<lambda>r. if p r then bindE (order_update_ok en r (f r)) (\<lambda>_. Inr (f r)) else Inr r) (orders d) = Inr rs"
    and d': "orders d' = rs" by (auto simp: update_orders_def)
  have "orders d' ! i = orders d ! i \<or> order_core (orders d' ! i) = order_core (orders d ! i)
      \<and> transition_ok (or_status (orders d ! i)) (or_status (orders d' ! i)) \<and> order_checks en (orders d' ! i) = Inr ()"
    if "i < length (orders d)" for i
    using mapE_nth [OF m that] d' by (auto simp: order_update_ok_def split: if_splits)
  then show ?thesis using mapE_length [OF m] d' by (simp add: list_all2_conv_all_nth)
qed

lemma stmt_orders:
  assumes "stmt d d'"
  shows "orders d' = orders d \<or> (\<exists>en r. order_checks en r = Inr () \<and> orders d' = orders d @ [r]
      \<and> or_id r \<notin> set (map or_id (orders d)) \<and> or_public r \<notin> set (map or_public (orders d)) \<and> or_number r \<notin> set (map or_number (orders d)))
    \<or> (\<exists>en. list_all2 (\<lambda>r r'. r' = r \<or> order_core r' = order_core r \<and> transition_ok (or_status r) (or_status r')
        \<and> order_checks en r' = Inr ()) (orders d) (orders d'))"
  using assms
proof (cases rule: stmt.cases)
  case (insert_order en r u)
  then have "order_checks en r = Inr ()" "orders d' = orders d @ [r]" "or_id r \<notin> set (map or_id (orders d))"
    "or_public r \<notin> set (map or_public (orders d))" "or_number r \<notin> set (map or_number (orders d))"
    by (auto simp: insert_order_def split: if_splits)
  then show ?thesis by blast
next
  case (update_orders en p f n)
  then show ?thesis using update_orders_rel by blast
next
  case (insert_payment pa u)
  then show ?thesis by (auto simp: insert_payment_def split: if_splits)
next
  case (insert_transfer tr u)
  then show ?thesis by (auto simp: insert_transfer_def split: if_splits)
next
  case (insert_license li u)
  then show ?thesis by (auto simp: insert_license_def split: if_splits)
next
  case (insert_chargeback cb u)
  then show ?thesis by (auto simp: insert_chargeback_def split: if_splits)
qed (auto simp: insert_item_def update_items_def update_transfers_def insert_refund_def update_refunds_def update_chargebacks_def)

lemma stmt_order_rel: "stmt d d' \<Longrightarrow> order_rel d d'"
proof -
  assume "stmt d d'"
  from stmt_orders [OF this] consider "orders d' = orders d" | r where "orders d' = orders d @ [r]"
    | en where "list_all2 (\<lambda>r r'. r' = r \<or> order_core r' = order_core r \<and> transition_ok (or_status r) (or_status r')
        \<and> order_checks en r' = Inr ()) (orders d) (orders d')" by blast
  then show "order_rel d d'"
  proof cases
    case 1
    then show ?thesis by (rule order_rel_same)
  next
    case 2
    then show ?thesis unfolding order_rel_def by (intro exI [of _ "orders d"] exI [of _ "[r]"]) (simp add: list_all2_same)
  next
    case 3
    then have "list_all2 order_evolves (orders d) (orders d')"
      by (rule list_all2_mono) (auto simp: order_evolves_def transition_ok_def)
    then show ?thesis unfolding order_rel_def by (intro exI [of _ "orders d'"] exI [of _ "[]"]) simp
  qed
qed

lemma history_stmts: "history d d' \<Longrightarrow> stmts d d'"
  by (induction rule: rtranclp_induct) (auto simp: committed_def)

lemma stmts_rel:
  assumes "stmts d d'" and "\<And>a b. stmt a b \<Longrightarrow> R a b" and "\<And>a. R a a" and "\<And>a b c. R a b \<Longrightarrow> R b c \<Longrightarrow> R a c"
  shows "R d d'"
  using assms by (induction rule: rtranclp_induct) blast+

lemma serve_orders: "serve en q w = (r, w') \<Longrightarrow> order_rel (w_db w) (w_db w')"
  by (rule stmts_rel [where R = order_rel, OF history_stmts [OF history.keeps_after [OF keeps_serve]]])
    (auto intro: stmt_order_rel order_rel.refl order_rel_trans)

subsection \<open>The tables\<close>

definition order_ok :: "order_row \<Rightarrow> bool" where
  "order_ok r \<longleftrightarrow> 0 \<le> or_items r \<and> 0 \<le> or_tax r \<and> amount_ok (or_grand r) \<and> or_grand r = or_items r + or_tax r
     \<and> 0 \<le> or_refunded r \<and> or_refunded r \<le> or_grand r
     \<and> (or_status r \<in> {StatusPaid, StatusFulfilled, StatusCompleted} \<longrightarrow> or_paid r \<noteq> None)
     \<and> (or_country r = ''IN'' \<longrightarrow> or_state r \<noteq> None)"

definition item_ok :: "item_row \<Rightarrow> bool" where
  "item_ok r \<longleftrightarrow> amount_ok (it_commission r) \<and> amount_ok (it_commission_gst r) \<and> amount_ok (it_tcs r) \<and> amount_ok (it_tds r)
     \<and> money_minor (it_net r) \<and> amount_ok (it_buyer_total r)
     \<and> it_buyer_total r = it_line_total r + it_cgst r + it_sgst r + it_igst r
     \<and> 0 \<le> it_refunded r \<and> it_refunded r \<le> it_buyer_total r
     \<and> (it_igst r = 0 \<or> it_cgst r = 0 \<and> it_sgst r = 0)"

definition transfer_ok :: "transfer_row \<Rightarrow> bool" where
  "transfer_ok t \<longleftrightarrow> 0 < tr_amount t \<and> 0 \<le> tr_reversed t \<and> tr_reversed t \<le> tr_amount t"

definition orders_ok :: "database \<Rightarrow> bool" where
  "orders_ok d \<longleftrightarrow> distinct (map or_id (orders d)) \<and> distinct (map or_public (orders d)) \<and> distinct (map or_number (orders d))
     \<and> (\<forall>r \<in> set (orders d). order_ok r)"

definition items_ok :: "database \<Rightarrow> bool" where
  "items_ok d \<longleftrightarrow> distinct (map it_id (items d)) \<and> (\<forall>r \<in> set (items d). item_ok r)"

definition payments_ok :: "database \<Rightarrow> bool" where
  "payments_ok d \<longleftrightarrow> distinct (map (\<lambda>r. (pa_provider r, pa_ref r)) (payments d)) \<and> (\<forall>r \<in> set (payments d). 0 < pa_amount r)"

text \<open>A line has at most one transfer and at most one licence, and neither is for a line that does not exist.\<close>

definition lines_ok :: "database \<Rightarrow> bool" where
  "lines_ok d \<longleftrightarrow> distinct (map tr_item (transfers d)) \<and> distinct (map li_item (licenses d))
     \<and> set (map tr_item (transfers d)) \<union> set (map li_item (licenses d)) \<subseteq> set (map it_id (items d))
     \<and> (\<forall>t \<in> set (transfers d). transfer_ok t)"

definition tables_ok :: "database \<Rightarrow> bool" where
  "tables_ok d \<longleftrightarrow> orders_ok d \<and> items_ok d \<and> payments_ok d \<and> lines_ok d"

lemma order_checks_ok: "order_checks en r = Inr u \<Longrightarrow> order_ok r"
  by (auto simp: order_checks_def order_ok_def amount_ok_def split: if_splits)

lemma item_checks_ok: "item_checks r = Inr u \<Longrightarrow> item_ok r"
  by (auto simp: item_checks_def item_ok_def amount_ok_def split: if_splits)

lemma order_core_map:
  "list_all2 (\<lambda>r r'. order_core r' = order_core r) xs ys \<Longrightarrow>
    map or_id ys = map or_id xs \<and> map or_public ys = map or_public xs \<and> map or_number ys = map or_number xs"
  by (induction rule: list_all2_induct) (auto simp: order_core_def)

lemma list_all2_set2: "list_all2 P xs ys \<Longrightarrow> y \<in> set ys \<Longrightarrow> \<exists>x \<in> set xs. P x y"
  by (induction rule: list_all2_induct) auto

lemma stmt_orders_ok:
  assumes "stmt d d'" and "orders_ok d"
  shows "orders_ok d'"
  using stmt_orders [OF assms(1)]
proof (elim disjE exE conjE)
  fix en
  assume l: "list_all2 (\<lambda>r r'. r' = r \<or> order_core r' = order_core r \<and> transition_ok (or_status r) (or_status r')
    \<and> order_checks en r' = Inr ()) (orders d) (orders d')"
  then have "list_all2 (\<lambda>r r'. order_core r' = order_core r) (orders d) (orders d')" by (rule list_all2_mono) auto
  moreover have "order_ok r'" if "r' \<in> set (orders d')" for r'
    using list_all2_set2 [OF l that] assms(2) order_checks_ok by (auto simp: orders_ok_def)
  ultimately show ?thesis using order_core_map assms(2) by (auto simp: orders_ok_def)
next
  fix en r
  assume "order_checks en r = Inr ()" "orders d' = orders d @ [r]" "or_id r \<notin> set (map or_id (orders d))"
    "or_public r \<notin> set (map or_public (orders d))" "or_number r \<notin> set (map or_number (orders d))"
  then show ?thesis using assms(2) order_checks_ok by (auto simp: orders_ok_def)
qed (use assms(2) in \<open>simp add: orders_ok_def\<close>)

lemma mapE_list_all2: "mapE f xs = Inr ys \<Longrightarrow> list_all2 (\<lambda>x y. f x = Inr y) xs ys"
  by (induction xs arbitrary: ys) auto

lemma stmt_items:
  assumes "stmt d d'"
  shows "items d' = items d \<or> (\<exists>r. item_checks r = Inr () \<and> it_id r \<notin> set (map it_id (items d)) \<and> items d' = items d @ [r])
    \<or> list_all2 (\<lambda>r r'. r' = r \<or> it_id r' = it_id r \<and> item_checks r' = Inr ()) (items d) (items d')"
  using assms
proof (cases rule: stmt.cases)
  case (insert_item i u)
  then have "item_checks i = Inr ()" "it_id i \<notin> set (map it_id (items d))" "items d' = items d @ [i]"
    by (auto simp: insert_item_def split: if_splits)
  then show ?thesis by blast
next
  case (update_items p s r f n)
  then obtain rs where m: "mapE (\<lambda>x. if p x then let x' = x\<lparr>it_status := s x, it_refunded := r x, it_fulfilled := f x\<rparr>
      in bindE (item_checks x') (\<lambda>_. Inr x') else Inr x) (items d) = Inr rs" "items d' = rs"
    by (auto simp: update_items_def)
  have "list_all2 (\<lambda>r r'. r' = r \<or> it_id r' = it_id r \<and> item_checks r' = Inr ()) (items d) rs"
    using mapE_list_all2 [OF m(1)] by (rule list_all2_mono) (auto simp: Let_def split: if_splits)
  then show ?thesis using m(2) by simp
next
  case (insert_payment pa u)
  then show ?thesis by (auto simp: insert_payment_def split: if_splits)
next
  case (insert_transfer tr u)
  then show ?thesis by (auto simp: insert_transfer_def split: if_splits)
next
  case (insert_license li u)
  then show ?thesis by (auto simp: insert_license_def split: if_splits)
next
  case (insert_chargeback cb u)
  then show ?thesis by (auto simp: insert_chargeback_def split: if_splits)
qed (auto simp: insert_order_def update_orders_def update_transfers_def insert_refund_def update_refunds_def update_chargebacks_def)

lemma stmt_items_ok:
  assumes "stmt d d'" and "items_ok d"
  shows "items_ok d' \<and> set (map it_id (items d)) \<subseteq> set (map it_id (items d'))"
  using stmt_items [OF assms(1)]
proof (elim disjE exE conjE)
  fix r
  assume "item_checks r = Inr ()" "it_id r \<notin> set (map it_id (items d))" "items d' = items d @ [r]"
  then show ?thesis using assms(2) item_checks_ok by (auto simp: items_ok_def)
next
  assume l: "list_all2 (\<lambda>r r'. r' = r \<or> it_id r' = it_id r \<and> item_checks r' = Inr ()) (items d) (items d')"
  have m: "map it_id (items d') = map it_id (items d)"
    using l by (induction rule: list_all2_induct) auto
  have "item_ok r'" if "r' \<in> set (items d')" for r'
    using list_all2_set2 [OF l that] assms(2) item_checks_ok by (auto simp: items_ok_def)
  then show ?thesis using m assms(2) by (auto simp: items_ok_def)
qed (use assms(2) in \<open>simp add: items_ok_def\<close>)

lemma stmt_payments_ok:
  assumes "stmt d d'" and "payments_ok d"
  shows "payments_ok d'"
  using assms(1)
proof (cases rule: stmt.cases)
  case (insert_payment pa u)
  then consider "d' = d" | "(pa_provider pa, pa_ref pa) \<notin> set (map (\<lambda>r. (pa_provider r, pa_ref r)) (payments d))"
      "0 < pa_amount pa" "d' = d\<lparr>payments := payments d @ [pa]\<rparr>"
    by (fastforce simp: insert_payment_def positive_ok_def split: if_splits)
  then show ?thesis using assms(2) by cases (auto simp: payments_ok_def)
next
  case (insert_transfer tr u)
  then show ?thesis using assms(2) by (auto simp: insert_transfer_def payments_ok_def split: if_splits)
next
  case (insert_license li u)
  then show ?thesis using assms(2) by (auto simp: insert_license_def payments_ok_def split: if_splits)
next
  case (insert_chargeback cb u)
  then show ?thesis using assms(2) by (auto simp: insert_chargeback_def payments_ok_def split: if_splits)
qed (use assms(2) in \<open>auto simp: insert_order_def update_orders_def insert_item_def update_items_def update_transfers_def insert_refund_def
    update_refunds_def update_chargebacks_def payments_ok_def\<close>)

lemma change_transfer_ok: "transfer_ok t \<Longrightarrow> transfer_ok (change_transfer c t)"
  by (cases c) (simp_all add: transfer_ok_def)

lemma change_transfer_item: "tr_item (change_transfer c t) = tr_item t"
  by (cases c) simp_all

lemma lines_ok_update:
  assumes "lines_ok d" and "set (map it_id (items d)) \<subseteq> set (map it_id (items d'))"
    and "map tr_item (transfers d') = map tr_item (transfers d)" and "map li_item (licenses d') = map li_item (licenses d)"
    and "\<And>t. t \<in> set (transfers d') \<Longrightarrow> transfer_ok t"
  shows "lines_ok d'"
proof -
  have "set (map tr_item (transfers d')) \<union> set (map li_item (licenses d')) \<subseteq> set (map it_id (items d'))"
    unfolding assms(3,4) using assms(1,2) unfolding lines_ok_def by blast
  moreover have "distinct (map tr_item (transfers d'))" "distinct (map li_item (licenses d'))"
    unfolding assms(3,4) using assms(1) by (simp_all add: lines_ok_def)
  ultimately show ?thesis using assms(5) unfolding lines_ok_def by blast
qed

lemma stmt_lines_ok:
  assumes "stmt d d'" and "items_ok d" and l: "lines_ok d"
  shows "lines_ok d'"
proof -
  have t: "transfer_ok t" if "t \<in> set (transfers d)" for t using l that by (simp add: lines_ok_def)
  have i: "set (map it_id (items d)) \<subseteq> set (map it_id (items d'))" using stmt_items_ok [OF assms(1,2)] by blast
  note same = lines_ok_update [OF l i]
  show ?thesis
    using assms(1)
  proof (cases rule: stmt.cases)
    case (insert_transfer tr u)
    then consider "d' = d" | "tr_item tr \<notin> set (map tr_item (transfers d))" "tr_item tr \<in> set (map it_id (items d))"
        "transfer_ok tr" "d' = d\<lparr>transfers := transfers d @ [tr]\<rparr>"
      by (auto simp: insert_transfer_def positive_ok_def amount_ok_def transfer_ok_def split: if_splits)
    then show ?thesis using l by cases (auto simp: lines_ok_def)
  next
    case (insert_license li u)
    then consider "d' = d" | "li_item li \<notin> set (map li_item (licenses d))" "li_item li \<in> set (map it_id (items d))"
        "d' = d\<lparr>licenses := licenses d @ [li]\<rparr>"
      by (auto simp: insert_license_def split: if_splits)
    then show ?thesis using l by cases (auto simp: lines_ok_def)
  next
    case (update_transfers p c n)
    then have "d' = d\<lparr>transfers := map (\<lambda>r. if p r then change_transfer c r else r) (transfers d)\<rparr>"
      by (simp add: update_transfers_def)
    then show ?thesis by (intro same) (auto simp: change_transfer_item t change_transfer_ok)
  next
    case (insert_payment pa u)
    then show ?thesis by (intro same t) (auto simp: insert_payment_def split: if_splits)
  next
    case (insert_chargeback cb u)
    then show ?thesis by (intro same t) (auto simp: insert_chargeback_def split: if_splits)
  next
    case rest
    have "map li_item (licenses d') = map (fst \<circ> snd \<circ> snd) (map (\<lambda>r. (li_id r, li_public r, li_item r, li_user r)) (licenses d'))"
      by (simp add: comp_def)
    also have "\<dots> = map li_item (licenses d)" using rest by (simp add: comp_def)
    finally show ?thesis using rest by (intro same t) auto
  qed (rule same; auto simp: insert_order_def update_orders_def insert_item_def update_items_def insert_refund_def
      update_refunds_def update_chargebacks_def t)+
qed

lemma stmt_tables_ok: "stmt d d' \<Longrightarrow> tables_ok d \<Longrightarrow> tables_ok d'"
  unfolding tables_ok_def using stmt_orders_ok stmt_items_ok stmt_payments_ok stmt_lines_ok by blast

lemma stmts_tables_ok: "stmts d d' \<Longrightarrow> tables_ok d \<Longrightarrow> tables_ok d'"
  by (induction rule: rtranclp_induct) (auto intro: stmt_tables_ok)

lemma elsewhere_tables_ok:
  assumes "elsewhere d d'" and "tables_ok d"
  shows "tables_ok d'"
proof -
  have "map li_item (licenses d') = map (fst \<circ> snd \<circ> snd) (map license_core (licenses d'))"
    by (simp add: comp_def license_core_def)
  also have "\<dots> = map li_item (licenses d)"
    using assms(1) by (simp add: elsewhere_def comp_def license_core_def)
  finally have "map li_item (licenses d') = map li_item (licenses d)" .
  then have "lines_ok d'" using assms lines_ok_update [of d d'] by (auto simp: elsewhere_def tables_ok_def lines_ok_def)
  then show ?thesis using assms by (simp add: elsewhere_def tables_ok_def orders_ok_def items_ok_def payments_ok_def)
qed

lemma reached_tables: "reached w \<Longrightarrow> tables_ok (w_db w)"
proof (induction rule: reached.induct)
  case (start w)
  then show ?case by (simp add: first_day_def tables_ok_def orders_ok_def items_ok_def payments_ok_def lines_ok_def)
next
  case (serve w en q r w')
  then show ?case using stmts_tables_ok history_stmts history.keeps_after [OF keeps_serve] by blast
next
  case (others w d')
  then show ?case using elsewhere_tables_ok by simp
qed

lemma terminal_moves:
  assumes "(a, b) \<in> moves\<^sup>*" and "a \<in> {StatusCancelled, StatusExpired, StatusRefunded, StatusChargebackLost}"
  shows "b = a"
  using assms(1)
proof (cases rule: converse_rtranclE)
  case (step c)
  then show ?thesis using assms(2) by (auto simp: order_transitions_allowed_def)
qed simp


subsection \<open>The package's promises\<close>

lemma serve_ledger:
  assumes "reached w" and "serve en q w = (r, w')"
  shows "ledger_ok (journal (w_db w')) \<and> ledger_ext (journal (w_db w)) (journal (w_db w'))"
proof -
  have "ledger_wf (journal (w_db w))" using reached_ledger [OF assms(1)] by (simp add: ledger_ok_def)
  then show ?thesis
    using reached_ledger [OF reached.serve [OF assms]] stmts_ledger [OF history_stmts [OF history.keeps_after [OF keeps_serve assms(2)]]]
    by (simp add: ledger_rel_def)
qed

text \<open>C2: whatever the orders package is asked to do, by buyers, by staff, by the worker or by
  the provider's webhooks, whatever the provider answers and wherever it fails, the journal only
  grows: entries and lines that were there stay, every entry has at least two lines and equal debits
  and credits, and the trial balance holds or is too large for the column it is read into.\<close>

theorem books_balance:
  assumes "reached w" and "serve en q w = (r, w')"
  shows "ledger_ext (journal (w_db w)) (journal (w_db w'))
    \<and> (\<forall>e \<in> set (entries (journal (w_db w'))). 2 \<le> length (entry_lines (journal (w_db w')) (e_id e))
        \<and> dir_sum Debit (entry_lines (journal (w_db w')) (e_id e)) = dir_sum Credit (entry_lines (journal (w_db w')) (e_id e)))
    \<and> (AssertBalanced (journal (w_db w')) = Inr () \<or> AssertBalanced (journal (w_db w')) = Inl (SqlError ''bigint out of range''))"
  using serve_ledger [OF assms] trial_balance_holds by (auto simp: ledger_ok_def entry_balanced_def)

text \<open>A world that has one entry in its journal, posted by another module.\<close>

definition demo_opened :: world where
  "demo_opened = demo_start\<lparr>w_db := (w_db demo_start)\<lparr>journal := demo_chart\<rparr>\<rparr>"

definition demo_running :: world where
  "demo_running = demo_opened\<lparr>w_db := (w_db demo_opened)\<lparr>journal := demo_posted\<rparr>\<rparr>"

lemma demo_running_reached: "reached demo_running"
proof -
  have "reached demo_opened"
    by (rule reached.start) (simp add: first_day_def demo_opened_def demo_start_def demo_database_def demo_chart_ok)
  moreover have "foldE run_op [PostOp 7 demo_entry] demo_chart = Inr demo_posted" "commit_check demo_chart demo_posted = Inr ()"
    using Post_commits [OF demo_ok(1) demo_post] by (simp_all add: demo_post) (simp add: demo_entry_def)
  then have "ledger_step demo_chart demo_posted" unfolding ledger_step_def by blast
  then have "elsewhere (w_db demo_opened) ((w_db demo_opened)\<lparr>journal := demo_posted\<rparr>)"
    by (simp add: elsewhere_def demo_opened_def)
  ultimately show ?thesis unfolding demo_running_def by (rule reached.others)
qed

lemma books_balance_witness:
  "dir_sum Debit (entry_lines (journal (w_db (snd (serve (demo_env 0) (CheckoutRequest (demo_request 21)) demo_running)))) 3)
    = dir_sum Credit (entry_lines (journal (w_db (snd (serve (demo_env 0) (CheckoutRequest (demo_request 21)) demo_running)))) 3)"
proof -
  let ?w = "snd (serve (demo_env 0) (CheckoutRequest (demo_request 21)) demo_running)"
  note b = books_balance [OF demo_running_reached prod.collapse [symmetric], of "demo_env 0" "CheckoutRequest (demo_request 21)"]
  have "3 \<in> e_id ` set (entries (journal (w_db demo_running)))" by (simp add: demo_running_def demo_posted_def)
  then have "3 \<in> e_id ` set (entries (journal (w_db ?w)))" using b by (auto simp: ledger_ext_def)
  then show ?thesis using b by auto
qed

lemma settled_moves:
  assumes "(a, b) \<in> moves\<^sup>*" and "a \<notin> {StatusDraft, StatusAwaitingPayment, StatusPaymentFailed}"
  shows "b \<notin> {StatusDraft, StatusAwaitingPayment, StatusPaymentFailed}"
  using assms by (induction rule: rtrancl_induct) (auto simp: order_transitions_allowed_def)

text \<open>C3: serving a request keeps every order at its place, with the id, public id, number,
  buyer, currency and creation time it was given; its status moves along the allowed transitions
  only, an order that has left the unpaid statuses never returns to them, and a cancelled,
  expired, fully refunded or charged-back order is final.\<close>

theorem order_lifecycle:
  assumes "serve en q w = (r, w')" and "i < length (orders (w_db w))"
  defines "a \<equiv> orders (w_db w) ! i" and "b \<equiv> orders (w_db w') ! i"
  shows "length (orders (w_db w)) \<le> length (orders (w_db w')) \<and> order_core b = order_core a
    \<and> (or_status a, or_status b) \<in> moves\<^sup>*
    \<and> (or_status a \<in> {StatusCancelled, StatusExpired, StatusRefunded, StatusChargebackLost} \<longrightarrow> or_status b = or_status a)
    \<and> (or_status a \<notin> {StatusDraft, StatusAwaitingPayment, StatusPaymentFailed} \<longrightarrow>
        or_status b \<notin> {StatusDraft, StatusAwaitingPayment, StatusPaymentFailed})"
proof -
  obtain rs new where s: "orders (w_db w') = rs @ new" "list_all2 order_evolves (orders (w_db w)) rs"
    using serve_orders [OF assms(1)] by (auto simp: order_rel_def)
  then have "order_evolves a b" "length (orders (w_db w)) \<le> length (orders (w_db w'))"
    using assms(2) list_all2_lengthD [OF s(2)] by (auto simp: a_def b_def nth_append list_all2_conv_all_nth)
  then show ?thesis using terminal_moves [of "or_status a" "or_status b"] settled_moves [of "or_status a" "or_status b"]
    by (auto simp: order_evolves_def)
qed

lemma order_lifecycle_witness:
  "order_core (orders (w_db (snd (serve (demo_env 1000000) (ConfirmRequest (demo_confirm 31 21 ''pay_A'')) demo_spent))) ! 0)
      = order_core (demo_order 31 21 StatusAwaitingPayment)
    \<and> (StatusAwaitingPayment, StatusFulfilled) \<in> moves\<^sup>*"
proof -
  let ?q = "ConfirmRequest (demo_confirm 31 21 ''pay_A'')" let ?s = "serve (demo_env 1000000) ?q demo_spent"
  have o: "orders (w_db demo_spent) ! 0 = demo_order 31 21 StatusAwaitingPayment" "0 < length (orders (w_db demo_spent))"
    by (simp_all add: demo_spent_def)
  obtain c w where "ConfirmPayment (demo_env 1000000) (demo_confirm 31 21 ''pay_A'') demo_spent = (Inr c, w)"
    "map or_status (orders (w_db w)) = [StatusFulfilled, StatusFulfilled]"
    using payment_spent_twice by (auto split: prod.splits sum.splits)
  then have "or_status (orders (w_db (snd ?s)) ! 0) = StatusFulfilled" by (auto simp: bnd_def)
  then show ?thesis
    using order_lifecycle [OF prod.collapse [symmetric], of 0 demo_spent "demo_env 1000000" ?q] o by (simp add: demo_order_def)
qed

text \<open>C4: in every world the package reaches, the rows are well formed: order numbers
  and public ids are unique, an order's total is its items plus tax and bounds what was refunded, a
  paid order has its payment time, a line's total is its price plus its taxes with either CGST and
  SGST or IGST, payments are unique per provider reference and positive, and each line has at most
  one transfer, within its amount, and at most one licence.\<close>

theorem tables_well_formed:
  assumes "reached w"
  shows "orders_ok (w_db w) \<and> items_ok (w_db w) \<and> payments_ok (w_db w) \<and> lines_ok (w_db w)"
  using reached_tables [OF assms] by (simp add: tables_ok_def)

lemma tables_well_formed_witness:
  "orders_ok (w_db (snd (serve (demo_env 1000000) (CheckoutRequest (demo_request 21)) demo_running)))"
  using tables_well_formed [OF reached.serve [OF demo_running_reached prod.collapse [symmetric]]] by blast

end
