(* ===== verification/CaptureProofs.thy ===== *)
theory CaptureProofs
  imports Marketplace
begin

text \<open>
  What confirming a payment guarantees (\<open>confirm.go\<close>): a capture is booked only if the order's total
  is exactly what its lines distribute to the seller, the platform and the authorities, and once an
  order is confirmed no later callback for it changes anything.
\<close>

subsection \<open>A loaded order\<close>

lemma find_map_eq: "(\<And>x. p (g x) = p x) \<Longrightarrow> find p (map g xs) = map_option g (find p xs)"
  by (induction xs) simp_all

lemma find_mem: "find p xs = Some x \<Longrightarrow> x \<in> set xs \<and> p x"
  by (induction xs) (auto split: if_splits)

definition distributed :: "breakdown \<Rightarrow> int" where
  "distributed b = max 0 (minor (SellerNet b)) + minor (Commission b) + minor (CommissionGST b) + minor (TCS b) + minor (TDS b)"

definition stored_line :: "line_breakdown \<Rightarrow> item_row \<Rightarrow> bool" where
  "stored_line l r \<longleftrightarrow> lb_ItemID l = it_id r \<and> lb_ItemPublicID l = it_public r \<and> (let b = lb_Breakdown l in
     BuyerTotal b = \<lparr>minor = it_buyer_total r, cur = it_currency r\<rparr> \<and> SellerNet b = \<lparr>minor = it_net r, cur = it_currency r\<rparr>
     \<and> Commission b = \<lparr>minor = it_commission r, cur = it_currency r\<rparr> \<and> CommissionGST b = \<lparr>minor = it_commission_gst r, cur = it_currency r\<rparr>
     \<and> TCS b = \<lparr>minor = it_tcs r, cur = it_currency r\<rparr> \<and> TDS b = \<lparr>minor = it_tds r, cur = it_currency r\<rparr>)"

lemma LoadOrder_order:
  assumes "LoadOrder en d pid = Inr o'"
  shows "\<exists>r. find (\<lambda>r. or_public r = pid) (orders d) = Some r \<and> od_ID o' = or_id r \<and> od_Status o' = or_status r
    \<and> od_PublicID o' = pid \<and> od_BuyerID o' = or_buyer r \<and> od_Currency o' = or_currency r
    \<and> od_GrandTotal o' = \<lparr>minor = or_grand r, cur = or_currency r\<rparr>"
  using assms by (auto simp: LoadOrder_def Let_def New_def find_Some_iff split: option.splits if_splits)

lemma LoadOrder_lines:
  assumes "LoadOrder en d pid = Inr o'"
  shows "\<forall>l \<in> set (od_Lines o'). \<exists>r \<in> set (items d). stored_line l r \<and> it_order r = od_ID o'"
proof -
  obtain r where f: "find (\<lambda>r. or_public r = pid) (orders d) = Some r" using assms by (auto simp: LoadOrder_def split: option.splits)
  have m: "mapE (\<lambda>(s, i). load_line en (or_created r) s i) (order_items d (or_id r)) = Inr (od_Lines o')" "od_ID o' = or_id r"
    using assms by (auto simp: LoadOrder_def Let_def f)
  have "\<exists>i \<in> set (items d). stored_line l i \<and> it_order i = or_id r" if l: "l \<in> set (od_Lines o')" for l
  proof -
    obtain si where si: "si \<in> set (order_items d (or_id r))" "(\<lambda>(s, i). load_line en (or_created r) s i) si = Inr l"
      using list_all2_set2 [OF mapE_list_all2 [OF m(1)] l] by blast
    then obtain s i where "si = (s, i)" "i \<in> set (items d)" "it_order i = or_id r"
      by (auto simp: order_items_def set_stable_sort)
    then show ?thesis using si(2)
      by (auto simp: load_line_def Let_def stored_line_def split: if_splits)
  qed
  then show ?thesis using m(2) by simp
qed

subsection \<open>The capture entry\<close>

definition side :: "direction \<Rightarrow> ledger_line list \<Rightarrow> int" where
  "side dr ls = sum_list (map (\<lambda>ln. minor (Amount ln)) (filter (\<lambda>ln. Direction ln = dr) ls))"

lemma side_simps [simp]:
  "side dr [] = 0" "side dr (l # ls) = (if Direction l = dr then minor (Amount l) else 0) + side dr ls"
  "side dr (xs @ ys) = side dr xs + side dr ys"
  by (simp_all add: side_def)

text \<open>The lines' amounts are within what the tables allow, and an order has at most fifty lines.\<close>

definition bounded_line :: "line_breakdown \<Rightarrow> bool" where
  "bounded_line l \<longleftrightarrow> (let b = lb_Breakdown l in money_minor (minor (SellerNet b)) \<and> amount_ok (minor (Commission b))
     \<and> amount_ok (minor (CommissionGST b)) \<and> amount_ok (minor (TCS b)) \<and> amount_ok (minor (TDS b)))"

lemma amount_money_ok: "amount_ok (minor m) \<Longrightarrow> money_ok m"
  by (simp add: amount_ok_def money_minor_def money_ok_def in_i64_def)

lemma Add_minor: "Add m n = Inr k \<Longrightarrow> money_ok m \<Longrightarrow> amount_ok (minor n) \<Longrightarrow> minor k = minor m + minor n \<and> money_ok k"
  using Add_Inr_iff [OF _ amount_money_ok, of m n k] by (auto simp: money_ok_def)

lemma capture_line_Inr:
  assumes "capture_line cu l (acc, c, g, t, s) w = (Inr (acc1, c1, g1, t1, s1), w1)"
  shows "Add c (Commission (lb_Breakdown l)) = Inr c1 \<and> Add g (CommissionGST (lb_Breakdown l)) = Inr g1
    \<and> Add t (TCS (lb_Breakdown l)) = Inr t1 \<and> Add s (TDS (lb_Breakdown l)) = Inr s1
    \<and> (\<exists>a memo. acc1 = (if IsPositive (SellerNet (lb_Breakdown l)) then acc @ [jline a Credit (SellerNet (lb_Breakdown l)) memo] else acc))"
  using assms by (auto simp: capture_line_def Let_def)

lemma capture_loop:
  assumes "loopE (capture_line cu) ls (acc, c, g, t, s) w = (Inr (acc', c', g', t', s'), w')"
    and "\<forall>l \<in> set ls. bounded_line l" and "money_ok c" "money_ok g" "money_ok t" "money_ok s"
  shows "side Debit acc' = side Debit acc
    \<and> side Credit acc' = side Credit acc + (\<Sum>l\<leftarrow>ls. max 0 (minor (SellerNet (lb_Breakdown l))))
    \<and> minor c' = minor c + (\<Sum>l\<leftarrow>ls. minor (Commission (lb_Breakdown l)))
    \<and> minor g' = minor g + (\<Sum>l\<leftarrow>ls. minor (CommissionGST (lb_Breakdown l)))
    \<and> minor t' = minor t + (\<Sum>l\<leftarrow>ls. minor (TCS (lb_Breakdown l)))
    \<and> minor s' = minor s + (\<Sum>l\<leftarrow>ls. minor (TDS (lb_Breakdown l)))"
  using assms
proof (induction ls arbitrary: acc c g t s w)
  case (Cons l ls)
  let ?b = "lb_Breakdown l"
  from Cons.prems obtain acc1 c1 g1 t1 s1 w1 where
    1: "capture_line cu l (acc, c, g, t, s) w = (Inr (acc1, c1, g1, t1, s1), w1)"
    and 2: "loopE (capture_line cu) ls (acc1, c1, g1, t1, s1) w1 = (Inr (acc', c', g', t', s'), w')"
    by auto
  have b: "amount_ok (minor (Commission ?b))" "amount_ok (minor (CommissionGST ?b))" "amount_ok (minor (TCS ?b))" "amount_ok (minor (TDS ?b))"
    using Cons.prems(2) by (simp_all add: bounded_line_def Let_def)
  note I = capture_line_Inr [OF 1]
  have "side Debit acc1 = side Debit acc \<and> side Credit acc1 = side Credit acc + max 0 (minor (SellerNet ?b))"
    using I by (auto simp: IsPositive_def)
  moreover have "(minor c1 = minor c + minor (Commission ?b) \<and> money_ok c1) \<and> (minor g1 = minor g + minor (CommissionGST ?b) \<and> money_ok g1)
    \<and> (minor t1 = minor t + minor (TCS ?b) \<and> money_ok t1) \<and> (minor s1 = minor s + minor (TDS ?b) \<and> money_ok s1)"
    using I Add_minor [OF _ Cons.prems(3) b(1)] Add_minor [OF _ Cons.prems(4) b(2)] Add_minor [OF _ Cons.prems(5) b(3)] Add_minor [OF _ Cons.prems(6) b(4)]
    by blast
  ultimately show ?case using Cons.IH [OF 2] Cons.prems(2) by simp
qed simp

lemma positive_side:
  assumes "\<forall>(a, m, memo) \<in> set es. 0 \<le> minor m"
  shows "side Debit (positive_lines es) = 0 \<and> side Credit (positive_lines es) = (\<Sum>(a, m, memo)\<leftarrow>es. minor m)"
  using assms by (induction es) (auto simp: positive_lines_def IsPositive_def)

lemma post_entry_balanced:
  assumes "post_entry en e w = (Inr p, w')"
  shows "wrap64 (side Debit (Lines e)) = wrap64 (side Credit (Lines e))"
proof -
  have "Validate e = Inr ()" using assms by (auto simp: post_entry_def Post_def)
  then show ?thesis using Validate_Inr(3) by (simp add: side_def)
qed

lemma sum_list_bounds:
  "(\<And>x. x \<in> set xs \<Longrightarrow> 0 \<le> f x \<and> f x \<le> (B::int)) \<Longrightarrow> 0 \<le> (\<Sum>x\<leftarrow>xs. f x) \<and> (\<Sum>x\<leftarrow>xs. f x) \<le> B * int (length xs)"
proof (induction xs)
  case (Cons x xs)
  then have "0 \<le> f x \<and> f x \<le> B" "0 \<le> (\<Sum>x\<leftarrow>xs. f x) \<and> (\<Sum>x\<leftarrow>xs. f x) \<le> B * int (length xs)" by simp_all
  then show ?case by (simp add: distrib_left) 
qed simp

lemma sum_list_distributed:
  "(\<Sum>l\<leftarrow>ls. distributed (lb_Breakdown l)) = (\<Sum>l\<leftarrow>ls. max 0 (minor (SellerNet (lb_Breakdown l)))) + (\<Sum>l\<leftarrow>ls. minor (Commission (lb_Breakdown l)))
    + (\<Sum>l\<leftarrow>ls. minor (CommissionGST (lb_Breakdown l))) + (\<Sum>l\<leftarrow>ls. minor (TCS (lb_Breakdown l))) + (\<Sum>l\<leftarrow>ls. minor (TDS (lb_Breakdown l)))"
  by (induction ls) (simp_all add: distributed_def)

lemma capture_conserves:
  assumes "postCaptureLedger en o' record pid w = (Inr u, w')" and "\<forall>l \<in> set (od_Lines o'). bounded_line l"
    and "amount_ok (minor (od_GrandTotal o'))" and "length (od_Lines o') \<le> 50"
  shows "minor (od_GrandTotal o') = (\<Sum>l\<leftarrow>od_Lines o'. distributed (lb_Breakdown l))"
proof -
  let ?ls = "od_Lines o'" and ?d = "jline"
  let ?S = "\<lambda>f. \<Sum>l\<leftarrow>?ls. f (lb_Breakdown l)"
  have pos: "0 \<le> ?S (\<lambda>b. minor (Commission b))" "0 \<le> ?S (\<lambda>b. minor (CommissionGST b))" "0 \<le> ?S (\<lambda>b. minor (TCS b))" "0 \<le> ?S (\<lambda>b. minor (TDS b))"
    using assms(2) by (auto intro!: sum_list_nonneg simp: bounded_line_def amount_ok_def Let_def)
  let ?z = "Zero (od_Currency o')"
  obtain clearing ca ga ta sa acc c g t s w1 w2 w3 p desc key meta memo m1 m2 m3 m4 where
    loop: "loopE (capture_line (od_Currency o')) ?ls ([jline clearing Debit (od_GrandTotal o') memo], ?z, ?z, ?z, ?z) w1
        = (Inr (acc, c, g, t, s), w2)"
    and post: "post_entry en (ledger_entry ''order_capture'' (od_Currency o') (clock en) desc ''order'' (od_PublicID o') key meta
        (acc @ positive_lines [(ca, c, m1), (ga, g, m2), (ta, t, m3), (sa, s, m4)])) w2 = (Inr p, w3)"
    using assms(1) unfolding postCaptureLedger_def Let_def
    by (simp only: bnd_eq_Inr prod.case split_paired_Ex) (elim exE conjE, erule that, assumption)
  have "money_ok ?z" by (simp add: Zero_def money_ok_def in_i64_def)
  note L = capture_loop [OF loop assms(2) this this this this]
  have "wrap64 (side Debit (acc @ positive_lines [(ca, c, m1), (ga, g, m2), (ta, t, m3), (sa, s, m4)]))
      = wrap64 (side Credit (acc @ positive_lines [(ca, c, m1), (ga, g, m2), (ta, t, m3), (sa, s, m4)]))"
    using post post_entry_balanced by fastforce
  then have "wrap64 (minor (od_GrandTotal o')) = wrap64 (\<Sum>l\<leftarrow>?ls. distributed (lb_Breakdown l))"
    using L pos positive_side [of "[(ca, c, m1), (ga, g, m2), (ta, t, m3), (sa, s, m4)]"]
    by (simp add: sum_list_distributed Zero_def add.assoc)
  moreover have "0 \<le> (\<Sum>l\<leftarrow>?ls. distributed (lb_Breakdown l)) \<and> (\<Sum>l\<leftarrow>?ls. distributed (lb_Breakdown l)) \<le> 45000000000000000 * int (length ?ls)"
    using assms(2) by (intro sum_list_bounds) (auto simp: bounded_line_def distributed_def amount_ok_def money_minor_def Let_def)
  ultimately show ?thesis using assms(3,4) by (simp add: wrap64_id in_i64_def amount_ok_def money_minor_def)
qed


subsection \<open>Steps that leave a table alone\<close>

definition same :: "(database \<Rightarrow> 'a) \<Rightarrow> database \<Rightarrow> database \<Rightarrow> bool" where
  "same f d d' \<longleftrightarrow> f d' = f d"

interpretation same: step_relation "same f" for f
  by unfold_locales (simp_all add: same_def)

named_theorems same_intros \<open>steps that leave a table alone\<close>

lemmas same_shape [same_intros] = same.keeps_ret same.keeps_fail same.keeps_lift same.keeps_query same.keeps_fresh same.keeps_call
  same.keeps_bnd same.keeps_new_public same.keeps_attempt same.keeps_forE same.keeps_loopE same.keeps_mapM
  keeps_if keeps_option keeps_sum keeps_prod keeps_list keeps_Let

lemma keeps_same: "(\<And>d x d'. s d = Inr (x, d') \<Longrightarrow> f d' = f d) \<Longrightarrow> keeps (same f) (exec s)"
  by (rule same.keeps_exec) (simp add: same_def)

lemma same_after: "keeps (same f) m \<Longrightarrow> m w = (r, w') \<Longrightarrow> f (w_db w') = f (w_db w)"
  using same.keeps_after unfolding same_def by blast

text \<open>Statements on other tables leave \<open>orders\<close> alone.\<close>

lemma same_orders_tables [same_intros]:
  "keeps (same orders) (exec (insert_item i))"
  "keeps (same orders) (exec (update_items pi si ri fi))"
  "keeps (same orders) (exec (update_transfers pt ct))"
  "keeps (same orders) (exec (insert_refund rf))"
  "keeps (same orders) (exec (insert_event ev))"
  "keeps (same orders) (exec (update_intents pin sin))"
  "keeps (same orders) (exec (insert_delta de))"
  "keeps (same orders) (exec (next_invoice_number knd fy prefix))"
  "keeps (same orders) (exec (insert_invoice iv))"
  "keeps (same orders) (exec (variant_sold vi))"
  "keeps (same orders) (exec (product_sold pi2))"
  by (rule keeps_same; auto simp: insert_item_def update_items_def update_transfers_def insert_refund_def insert_event_def update_intents_def
      insert_delta_def next_invoice_number_def insert_invoice_def variant_sold_def product_sold_def Let_def split: prod.splits option.splits)+

lemma same_orders_conflict [same_intros]:
  "keeps (same orders) (exec (insert_payment pa))"
  "keeps (same orders) (exec (insert_transfer tr))"
  "keeps (same orders) (exec (insert_license li))"
  by (rule keeps_same; auto simp: insert_payment_def insert_transfer_def insert_license_def split: if_splits)+

lemma same_orders_modules [same_intros]:
  "keeps (same orders) (post_entry en e)"
  "keeps (same orders) (seller_account i purpose cu)"
  "keeps (same orders) (account_by_code code)"
  "keeps (same orders) (publish en topic agg agg_id payload key)"
  "keeps (same orders) (record_audit en ae)"
  unfolding post_entry_def seller_account_def account_by_code_def publish_def record_audit_def
  by (intro same_intros keeps_same; auto)+

text \<open>The parts of a capture between its two transitions.\<close>

lemma same_orders_capture [same_intros]:
  "keeps (same orders) (insert_capture en o' record)"
  "keeps (same orders) (postCaptureLedger en o' record pid)"
  "keeps (same orders) (issueLicenses en o')"
  "keeps (same orders) (recordTransfers en o' pid)"
  "keeps (same orders) (updateTurnover en o')"
  "keeps (same orders) (issueInvoices en o')"
  "keeps (same orders) (mark_sold o')"
  "keeps (same orders) (announce_paid en o' record ip n)"
  unfolding insert_capture_def postCaptureLedger_def capture_line_def post_fee_def issueLicenses_def issue_license_def recordTransfers_def
    record_transfer_def updateTurnover_def issueInvoices_def supply_invoice_def commission_invoice_def mark_sold_def announce_paid_def
  by (intro same_intros)+

lemma transitionStamped_orders:
  assumes "transitionStamped en i a b k ai rs st w = (Inr u, w')"
  shows "orders (w_db w') = map (\<lambda>r. if or_id r = i \<and> or_status r = a then stamp_row st (r\<lparr>or_status := b\<rparr>) else r) (orders (w_db w))"
proof -
  let ?p = "\<lambda>r. or_id r = i \<and> or_status r = a" and ?f = "\<lambda>r. stamp_row st (r\<lparr>or_status := b\<rparr>)"
  from assms obtain w1 res where 1: "attempt (exec (update_orders en ?p ?f)) w = (Inr res, w1)"
    and 2: "(case res of Inl (RaisedE msg) \<Rightarrow> fail (ProblemE (Conflict TypeStateTransition msg)) | Inl e \<Rightarrow> fail e
      | Inr n \<Rightarrow> if n = 0 then fail errConcurrentTransition
          else exec (insert_event \<lparr>ev_order = i, ev_from = Some a, ev_to = b, ev_actor_kind = k, ev_actor = ai, ev_reason = rs\<rparr>)) w1
      = (Inr u, w')"
    by (auto simp: transitionStamped_def)
  then obtain n where res: "res = Inr n" by (cases res) (auto split: order_error.splits)
  have e: "exec (update_orders en ?p ?f) w = (Inr n, w1)" using 1 res by (auto simp: attempt_def split: prod.splits)
  then obtain rs where m: "mapE (\<lambda>r. if ?p r then bindE (order_update_ok en r (?f r)) (\<lambda>_. Inr (?f r)) else Inr r) (orders (w_db w)) = Inr rs"
    and w1: "orders (w_db w1) = rs" by (auto simp: update_orders_def)
  have "rs = map (\<lambda>r. if ?p r then ?f r else r) (orders (w_db w))"
    using mapE_list_all2 [OF m] by (auto simp: list_all2_conv_all_nth intro!: nth_equalityI split: if_splits)
  moreover have "orders (w_db w') = orders (w_db w1)"
    using 2 by (auto simp: res insert_event_def split: if_splits)
  ultimately show ?thesis using w1 by simp
qed

definition confirmed :: "status \<Rightarrow> bool" where
  "confirmed s \<longleftrightarrow> s \<in> {StatusPaid, StatusFulfilled, StatusCompleted}"

lemma recordCapture_orders:
  assumes "recordCapture en o' record ip actor w = (Inr res, w')"
  shows "\<exists>g. orders (w_db w') = map g (orders (w_db w)) \<and> (\<forall>r. or_public (g r) = or_public r)
    \<and> (\<forall>r. or_id r = od_ID o' \<and> or_status r = od_Status o' \<longrightarrow> or_status (g r) = StatusFulfilled)"
proof -
  let ?t = "\<lambda>a b st r. if or_id r = od_ID o' \<and> or_status r = a then stamp_row st (r\<lparr>or_status := b\<rparr>) else r"
  from assms obtain pid u1 u2 u3 u4 u5 u6 u7 u8 u9 u10 u11 w1 w2 w3 w4 w5 w6 w7 w8 w9 w10 w11 w12 lic where
    s1: "insert_capture en o' record w = (Inr pid, w1)"
    "exec (update_intents (\<lambda>r. in_order r = od_ID o' \<and> in_ref r = pm_ProviderIntentID record) ''succeeded'') w1 = (Inr u1, w2)"
    "postCaptureLedger en o' record pid w2 = (Inr u2, w3)"
    and t1: "transitionStamped en (od_ID o') (od_Status o') StatusPaid ''provider'' actor ''payment captured'' (PaidAt (clock en)) w3 = (Inr u3, w4)"
    and s2: "exec (update_items (\<lambda>r. it_order r = od_ID o') (\<lambda>r. ''paid'') it_refunded it_fulfilled) w4 = (Inr u4, w5)"
    "issueLicenses en o' w5 = (Inr lic, w6)" "recordTransfers en o' pid w6 = (Inr u5, w7)" "updateTurnover en o' w7 = (Inr u6, w8)"
    "issueInvoices en o' w8 = (Inr u7, w9)"
    and t2: "transitionStamped en (od_ID o') StatusPaid StatusFulfilled ''system'' None ''entitlements issued'' (FulfilledAt (clock en)) w9 = (Inr u8, w10)"
    and s3: "exec (update_items (\<lambda>r. it_order r = od_ID o') (\<lambda>r. ''fulfilled'') it_refunded (\<lambda>r. Some (clock en))) w10 = (Inr u9, w11)"
    "mark_sold o' w11 = (Inr u10, w12)" "announce_paid en o' record ip (length lic) w12 = (Inr u11, w')"
    unfolding recordCapture_def Let_def by (simp only: bnd_eq_Inr) auto
  have "orders (w_db w3) = orders (w_db w)"
    using s1(1) [THEN same_after [OF same_orders_capture(1)]] s1(2) [THEN same_after [OF same_orders_tables(6)]] s1(3) [THEN same_after [OF same_orders_capture(2)]]
    by simp
  moreover have "orders (w_db w9) = orders (w_db w4)"
    using s2(1) [THEN same_after [OF same_orders_tables(2)]] s2(2) [THEN same_after [OF same_orders_capture(3)]] s2(3) [THEN same_after [OF same_orders_capture(4)]]
      s2(4) [THEN same_after [OF same_orders_capture(5)]] s2(5) [THEN same_after [OF same_orders_capture(6)]]
    by simp
  moreover have "orders (w_db w') = orders (w_db w10)"
    using s3(1) [THEN same_after [OF same_orders_tables(2)]] s3(2) [THEN same_after [OF same_orders_capture(7)]] s3(3) [THEN same_after [OF same_orders_capture(8)]]
    by simp
  ultimately have "orders (w_db w') = map (?t StatusPaid StatusFulfilled (FulfilledAt (clock en))) (map (?t (od_Status o') StatusPaid (PaidAt (clock en))) (orders (w_db w)))"
    using transitionStamped_orders [OF t1] transitionStamped_orders [OF t2] by simp
  then show ?thesis
    by (intro exI [of _ "?t StatusPaid StatusFulfilled (FulfilledAt (clock en)) \<circ> ?t (od_Status o') StatusPaid (PaidAt (clock en))"]) auto
qed


subsection \<open>\<open>ConfirmPayment\<close>\<close>

lemma call_eq_Inr [simp]: "call answer c w = (Inr y, w') \<longleftrightarrow> y = answer (c # w_calls w) \<and> w' = w\<lparr>w_calls := c # w_calls w\<rparr>"
  by (auto simp: call_def Let_def)

lemma confirm_tx_fresh:
  assumes "confirm_tx en req record w = (Inr res, w')" and "\<not> co_AlreadyConfirmed res"
  shows "\<exists>o' rec w1. LoadOrder en (w_db w) (cf_OrderPublicID req) = Inr o' \<and> od_Status o' = StatusAwaitingPayment
    \<and> (cf_BuyerID req \<noteq> 0 \<longrightarrow> od_BuyerID o' = cf_BuyerID req) \<and> Equal (pm_Amount record) (od_GrandTotal o')
    \<and> recordCapture en o' rec (cf_IP req) (Some (cf_BuyerID req)) w1 = (Inr res, w') \<and> w_db w1 = w_db w"
proof -
  obtain o' where o: "LoadOrder en (w_db w) (cf_OrderPublicID req) = Inr o'"
    using assms(1) by (auto simp: confirm_tx_def load_order_def)
  show ?thesis
    using assms o by (fastforce simp: confirm_tx_def load_order_def split: if_splits sum.splits)
qed

lemma recordCapture_posts:
  assumes "recordCapture en o' record ip actor w = (Inr res, w')"
  shows "od_Lines (co_Order res) = od_Lines o' \<and> \<not> co_AlreadyConfirmed res \<and> (\<exists>pid w1 w2. postCaptureLedger en o' record pid w1 = (Inr (), w2))"
  using assms unfolding recordCapture_def Let_def by (simp only: bnd_eq_Inr) auto

lemma stored_bounded: "stored_line l r \<Longrightarrow> item_ok r \<Longrightarrow> bounded_line l"
  by (auto simp: stored_line_def item_ok_def bounded_line_def Let_def)

lemma ConfirmPayment_tx:
  assumes "ConfirmPayment en req w = (Inr res, w')"
  shows "\<exists>record w1. confirm_tx en req record w1 = (Inr res, w') \<and> w_db w1 = w_db w
    \<and> (\<exists>cs. reconcile_payment en (ReconcilePayment (cf_ProviderPaymentID req) # cs) = Inr record)
    \<and> commit_check (journal (w_db w)) (journal (w_db w')) = Inr ()"
  using assms by (fastforce simp: ConfirmPayment_def in_tx_eq_Inr split: sum.splits prod.splits if_splits)


lemma demo_spent_ok: "tables_ok (w_db demo_spent)"
  by (simp add: tables_ok_def orders_ok_def items_ok_def payments_ok_def lines_ok_def order_ok_def item_ok_def amount_ok_def money_minor_def
      demo_spent_def demo_database_def demo_order_def demo_item_def pub_id_def dec_nat.simps demo_digits)


text \<open>The order the world has after a confirmation.\<close>

lemma ConfirmPayment_confirmed:
  assumes "ConfirmPayment en req w = (Inr res, w')"
  shows "\<exists>r. find (\<lambda>r. or_public r = cf_OrderPublicID req) (orders (w_db w')) = Some r \<and> confirmed (or_status r)"
proof -
  obtain pm w1 where 1: "confirm_tx en req pm w1 = (Inr res, w')" "w_db w1 = w_db w"
    using ConfirmPayment_tx [OF assms] by blast
  show ?thesis
  proof (cases "co_AlreadyConfirmed res")
    case True
    obtain o' where o: "LoadOrder en (w_db w1) (cf_OrderPublicID req) = Inr o'"
      using 1(1) by (auto simp: confirm_tx_def load_order_def)
    have "confirmed (od_Status o') \<and> w' = w1"
      using 1(1) True o recordCapture_posts
      by (auto simp: confirm_tx_def load_order_def confirmed_def split: if_splits sum.splits)
    then show ?thesis using LoadOrder_order [OF o] by auto
  next
    case False
    obtain o' pm' w2 where 2: "LoadOrder en (w_db w1) (cf_OrderPublicID req) = Inr o'" "w_db w2 = w_db w1"
      "recordCapture en o' pm' (cf_IP req) (Some (cf_BuyerID req)) w2 = (Inr res, w')"
      using confirm_tx_fresh [OF 1(1) False] by blast
    obtain r where r: "find (\<lambda>r. or_public r = cf_OrderPublicID req) (orders (w_db w1)) = Some r" "or_id r = od_ID o'" "or_status r = od_Status o'"
      using LoadOrder_order [OF 2(1)] by auto
    obtain g where g: "orders (w_db w') = map g (orders (w_db w1))" "\<forall>r. or_public (g r) = or_public r" "or_status (g r) = StatusFulfilled"
      using recordCapture_orders [OF 2(3)] 2(2) r by auto
    have "find (\<lambda>r. or_public r = cf_OrderPublicID req) (map g (orders (w_db w1))) = Some (g r)"
      using r(1) g(2) by (simp add: find_map_eq)
    then show ?thesis using g by (auto simp: confirmed_def)
  qed
qed

text \<open>What a callback for a confirmed order does.\<close>

lemma confirm_tx_confirmed:
  assumes "find (\<lambda>r. or_public r = cf_OrderPublicID req) (orders (w_db w)) = Some r" and "confirmed (or_status r)"
  shows "\<exists>x. confirm_tx en req record w = (x, w) \<and> (\<forall>res. x = Inr res \<longrightarrow> co_AlreadyConfirmed res)"
proof (cases "LoadOrder en (w_db w) (cf_OrderPublicID req)")
  case (Inl e)
  then show ?thesis by (simp add: confirm_tx_def load_order_def bnd_def query_def)
next
  case (Inr o')
  then have "confirmed (od_Status o')" using LoadOrder_order [OF Inr] assms by auto
  then show ?thesis using Inr by (auto simp: confirm_tx_def load_order_def bnd_def query_def confirmed_def)
qed


lemma attempt_record_audit:
  "w_db (snd (attempt (in_tx (record_audit en e)) w)) = (w_db w)\<lparr>auditlog := auditlog (w_db (snd (attempt (in_tx (record_audit en e)) w)))\<rparr>
    \<and> w_calls (snd (attempt (in_tx (record_audit en e)) w)) = w_calls w"
  by (auto simp: attempt_def in_tx_def record_audit_def exec_def wrapE_def bindE_def split: prod.splits sum.splits)

lemma in_tx_unchanged: "m w = (x, w) \<Longrightarrow> \<exists>y. in_tx m w = (y, w) \<and> (\<forall>r. y = Inr r \<longrightarrow> x = Inr r)"
  by (auto simp: in_tx_def split: sum.splits)

definition captures :: "provider_call list \<Rightarrow> bool" where
  "captures cs \<longleftrightarrow> (\<exists>ref amount key. CapturePayment ref amount key \<in> set cs)"




end
