(* ===== verification/RefundProofs.thy ===== *)
theory RefundProofs
  imports CaptureProofs
begin

text \<open>
  What a refund guarantees (\<open>refund.go\<close>): the ledger entry of any refund balances, the platform
  absorbs at most two minor units of rounding, a full refund gives every component back as it was
  charged, and the provider is asked at most once, for no more than the line has left.
\<close>

subsection \<open>Shares\<close>

definition refundable_line :: "line_breakdown \<Rightarrow> money \<Rightarrow> bool" where
  "refundable_line l amount \<longleftrightarrow> bounded_line l \<and> 0 \<le> minor (SellerNet (lb_Breakdown l)) \<and> amount_ok (minor (BuyerTotal (lb_Breakdown l)))
     \<and> 0 < minor amount \<and> minor amount \<le> minor (BuyerTotal (lb_Breakdown l))
     \<and> distributed (lb_Breakdown l) = minor (BuyerTotal (lb_Breakdown l))"

lemma scale_share:
  assumes "scaleToRefund c amount T = Inr p" and "amount_ok (minor c)" and "0 < minor amount" "minor amount \<le> minor T" "amount_ok (minor T)"
  shows "amount_ok (minor p) \<and> 2 * \<bar>minor p * minor T - minor c * minor amount\<bar> \<le> minor T \<and> (Equal amount T \<longrightarrow> p = c)"
proof (cases "Equal amount T")
  case True
  then show ?thesis using assms by (auto simp: scaleToRefund_def Equal_def)
next
  case False
  have T: "0 < minor T" "minor T \<le> 4611686018427387904" using assms(3-5) by (simp_all add: amount_ok_def money_minor_def)
  have "MulRatio c (minor amount) (minor T) HalfUp = Inr p" using assms(1) False T by (simp add: scaleToRefund_def)
  then have p: "minor p = round_ref HalfUp (minor c * minor amount) (minor T)"
    using MulRatio_share [OF amount_money_ok [OF assms(2)], of "minor amount" "minor T" HalfUp] T assms(3,4) by auto
  have "0 \<le> minor p" using p T assms(2,3) round_ref_nonneg by (simp add: amount_ok_def)
  moreover have n: "2 * \<bar>minor p * minor T - minor c * minor amount\<bar> \<le> minor T" using p round_half_up_nearest [OF T(1)] by simp
  moreover have "minor p \<le> minor c"
  proof (rule ccontr)
    assume "\<not> minor p \<le> minor c"
    then have "(minor c + 1) * minor T \<le> minor p * minor T" using T(1) by (intro mult_right_mono) simp_all
    moreover have "minor c * minor amount \<le> minor c * minor T" using assms(2,4) by (intro mult_left_mono) (simp_all add: amount_ok_def)
    ultimately show False using n T(1) by (simp add: distrib_right)
  qed
  ultimately show ?thesis using False assms(2) by (simp add: amount_ok_def money_minor_def)
qed

text \<open>The shares taken so far: a debit line for each that is not zero, and their sum.\<close>

definition holds :: "money list \<Rightarrow> shares \<Rightarrow> bool" where
  "holds ps acc \<longleftrightarrow> (\<forall>n \<in> set (fst acc). Direction n = Debit) \<and> map Amount (fst acc) = filter IsPositive ps
     \<and> minor (snd acc) = (\<Sum>p\<leftarrow>ps. minor p) \<and> money_ok (snd acc)"

lemma holds_start: "holds [] ([], Zero cu)"
  by (simp add: holds_def Zero_def money_ok_def in_i64_def)

lemma holds_zero: "holds ps acc \<Longrightarrow> amount_ok (minor p) \<Longrightarrow> \<not> IsPositive p \<Longrightarrow> holds (ps @ [p]) acc"
  by (auto simp: holds_def IsPositive_def amount_ok_def)

lemma holds_add:
  assumes "holds ps acc" and "add_share a p memo acc = Inr acc'" and "amount_ok (minor p)" and "IsPositive p"
  shows "holds (ps @ [p]) acc'"
proof -
  obtain ls al where acc: "acc = (ls, al)" by (cases acc)
  then obtain al' where al: "Add al p = Inr al'" "acc' = (ls @ [jline a Debit p memo], al')"
    using assms(2) by (auto simp: add_share_def)
  have "minor al' = minor al + minor p \<and> money_ok al'"
    using Add_minor [OF al(1) _ assms(3)] assms(1) acc by (simp add: holds_def)
  then show ?thesis using assms(1,4) acc al(2) by (auto simp: holds_def)
qed

lemma holds_component:
  assumes "holds ps acc" and "refund_component amount T (code, m, memo) acc w = (Inr acc', w')" and "amount_ok (minor m)"
    and "0 < minor amount" "minor amount \<le> minor T" "amount_ok (minor T)"
  shows "\<exists>p. scaleToRefund m amount T = Inr p \<and> holds (ps @ [p]) acc'"
proof -
  obtain p where p: "scaleToRefund m amount T = Inr p"
    and r: "(if \<not> IsPositive p then ret acc else bnd (account_by_code code) (\<lambda>a. lift (add_share a p memo acc))) w = (Inr acc', w')"
    using assms(2) by (auto simp: refund_component_def)
  note s = scale_share [OF p assms(3-6), THEN conjunct1]
  have "holds (ps @ [p]) acc'"
  proof (cases "IsPositive p")
    case True
    then obtain a where "add_share a p memo acc = Inr acc'" using r by auto
    then show ?thesis by (rule holds_add [OF assms(1) _ s True])
  qed (use r holds_zero [OF assms(1) s] in simp)
  then show ?thesis using p by blast
qed

lemma holds_seller:
  assumes "seller_share o' line amount sa w = (Inr acc, w')" and "refundable_line line amount" and "b = lb_Breakdown line"
  shows "\<exists>p. scaleToRefund (SellerNet b) amount (BuyerTotal b) = Inr p \<and> holds [p] acc"
proof -
  obtain p where p: "scaleToRefund (SellerNet b) amount (BuyerTotal b) = Inr p"
    and r: "acc = ([], Zero (od_Currency o')) \<and> \<not> IsPositive p
      \<or> (\<exists>a memo. IsPositive p \<and> add_share a p memo ([], Zero (od_Currency o')) = Inr acc)"
    using assms(1) by (auto simp: seller_share_def Let_def assms(3) split: if_splits)
  have "amount_ok (minor (SellerNet b))" using assms(2) by (auto simp: refundable_line_def bounded_line_def amount_ok_def assms(3) Let_def)
  then have s: "amount_ok (minor p)" using scale_share [OF p] assms(2) by (simp add: refundable_line_def assms(3))
  have "holds ([] @ [p]) acc" using r holds_zero [OF holds_start s] holds_add [OF holds_start _ s] by blast
  then show ?thesis using p by simp
qed

text \<open>All five shares of a line.\<close>

definition components :: "breakdown \<Rightarrow> money list" where
  "components b = [SellerNet b, Commission b, CommissionGST b, TCS b, TDS b]"

lemma refund_shares:
  assumes "seller_share o' line amount sa w = (Inr acc, w1)"
    and "loopE (refund_component amount (BuyerTotal b)) (refund_components b) acc w1 = (Inr fin, w2)"
    and "refundable_line line amount" and "b = lb_Breakdown line"
  shows "\<exists>ps. list_all2 (\<lambda>c p. scaleToRefund c amount (BuyerTotal b) = Inr p) (components b) ps \<and> holds ps fin"
proof -
  have a: "amount_ok (minor (Commission b))" "amount_ok (minor (CommissionGST b))" "amount_ok (minor (TCS b))" "amount_ok (minor (TDS b))"
    and t: "0 < minor amount" "minor amount \<le> minor (BuyerTotal b)" "amount_ok (minor (BuyerTotal b))"
    using assms(3) by (simp_all add: refundable_line_def bounded_line_def Let_def assms(4))
  obtain a1 a2 a3 u1 u2 u3 where
    1: "refund_component amount (BuyerTotal b) (''platform.income.commission'', Commission b, ''commission reversed'') acc w1 = (Inr a1, u1)"
    and 2: "refund_component amount (BuyerTotal b) (''platform.payable.gst_output'', CommissionGST b, ''GST on commission reversed'') a1 u1 = (Inr a2, u2)"
    and 3: "refund_component amount (BuyerTotal b) (''platform.payable.tcs'', TCS b, ''TCS reversed'') a2 u2 = (Inr a3, u3)"
    and 4: "refund_component amount (BuyerTotal b) (''platform.payable.tds_194o'', TDS b, ''TDS reversed'') a3 u3 = (Inr fin, w2)"
    using assms(2) by (auto simp: refund_components_def simp del: split_paired_Ex)
  obtain p0 where p0: "scaleToRefund (SellerNet b) amount (BuyerTotal b) = Inr p0" "holds [p0] acc"
    using holds_seller [OF assms(1,3,4)] by blast
  obtain p1 where p1: "scaleToRefund (Commission b) amount (BuyerTotal b) = Inr p1" "holds [p0, p1] a1"
    using holds_component [OF p0(2) 1 a(1) t] by auto
  obtain p2 where p2: "scaleToRefund (CommissionGST b) amount (BuyerTotal b) = Inr p2" "holds [p0, p1, p2] a2"
    using holds_component [OF p1(2) 2 a(2) t] by auto
  obtain p3 where p3: "scaleToRefund (TCS b) amount (BuyerTotal b) = Inr p3" "holds [p0, p1, p2, p3] a3"
    using holds_component [OF p2(2) 3 a(3) t] by auto
  obtain p4 where p4: "scaleToRefund (TDS b) amount (BuyerTotal b) = Inr p4" "holds [p0, p1, p2, p3, p4] fin"
    using holds_component [OF p3(2) 4 a(4) t] by auto
  show ?thesis using p0 p1 p2 p3 p4 by (intro exI [of _ "[p0, p1, p2, p3, p4]"]) (simp add: components_def)
qed

text \<open>The rounding errors of five shares of a whole.\<close>

lemma share_error:
  fixes T a :: int
  assumes "list_all2 (\<lambda>c p. 2 * \<bar>p * T - c * a\<bar> \<le> T) cs ps"
  shows "2 * \<bar>sum_list ps * T - sum_list cs * a\<bar> \<le> T * int (length cs)"
  using assms
proof (induction rule: list_all2_induct)
  case (Cons c cs p ps)
  have add: "2 * \<bar>x\<bar> \<le> n" if "2 * \<bar>u\<bar> \<le> k" "2 * \<bar>v\<bar> \<le> m" "x = u + v" "n = k + m" for x u v k m n :: int
    using that by linarith
  show ?case by (rule add [OF Cons(1) Cons(3)]) (simp_all add: algebra_simps)
qed simp

lemma refund_residue:
  assumes "list_all2 (\<lambda>c p. scaleToRefund c amount (BuyerTotal b) = Inr p) (components b) ps"
    and "refundable_line line amount" and "b = lb_Breakdown line"
  shows "\<bar>minor amount - (\<Sum>p\<leftarrow>ps. minor p)\<bar> \<le> 2 \<and> (Equal amount (BuyerTotal b) \<longrightarrow> ps = components b \<and> minor amount = (\<Sum>p\<leftarrow>ps. minor p))"
proof -
  let ?T = "minor (BuyerTotal b)" and ?cs = "map minor (components b)" and ?ps = "map minor ps"
  have t: "0 < minor amount" "minor amount \<le> ?T" "amount_ok ?T" using assms(2) by (simp_all add: refundable_line_def assms(3))
  have c: "\<forall>c \<in> set (components b). amount_ok (minor c)" using assms(2)
    by (auto simp: components_def refundable_line_def bounded_line_def amount_ok_def Let_def assms(3))
  have sum: "sum_list ?cs = ?T" using assms(2)
    by (auto simp: components_def refundable_line_def distributed_def assms(3) max_def)
  have s: "list_all2 (\<lambda>c p. 2 * \<bar>minor p * ?T - minor c * minor amount\<bar> \<le> ?T \<and> (Equal amount (BuyerTotal b) \<longrightarrow> p = c)) (components b) ps"
    using assms(1) c scale_share t by (auto simp: list_all2_conv_all_nth)
  then have "2 * \<bar>sum_list ?ps * ?T - sum_list ?cs * minor amount\<bar> \<le> ?T * int (length ?cs)"
    by (intro share_error) (auto simp: list_all2_conv_all_nth)
  then have "2 * \<bar>(sum_list ?ps - minor amount) * ?T\<bar> \<le> ?T * 5"
    unfolding sum by (simp add: components_def left_diff_distrib mult.commute [of "minor amount"])
  then have "(2 * \<bar>sum_list ?ps - minor amount\<bar>) * ?T \<le> 5 * ?T" using t by (simp add: abs_mult mult.commute mult.left_commute)
  then have "2 * \<bar>sum_list ?ps - minor amount\<bar> \<le> 5" using t by simp
  moreover have "2 * y \<le> 5 \<Longrightarrow> y \<le> 2" for y :: int by arith
  ultimately have "\<bar>minor amount - sum_list ?ps\<bar> \<le> 2" by (metis abs_minus_commute)
  moreover have "ps = components b" if "Equal amount (BuyerTotal b)"
    using s that by (auto simp: list_all2_conv_all_nth intro!: nth_equalityI)
  ultimately show ?thesis using sum by (auto simp: Equal_def)
qed

lemma residue_line_sides:
  assumes "residue_line r w = (Inr rl, w')" and "money_ok r"
  shows "side Debit rl - side Credit rl = minor r \<and> length rl \<le> 1 \<and> (\<forall>n \<in> set rl. minor (Amount n) = \<bar>minor r\<bar>) \<and> (minor r = 0 \<longrightarrow> rl = [])"
proof -
  have "Abs r = Inr a \<Longrightarrow> minor a = \<bar>minor r\<bar>" for a using Abs_exact [OF assms(2)] by (auto split: if_splits)
  then show ?thesis using assms(1) by (auto simp: residue_line_def IsZero_def IsNegative_def Let_def split: if_splits)
qed

lemma debit_side: "\<forall>n \<in> set ls. Direction n = Debit \<Longrightarrow> side Debit ls = (\<Sum>m\<leftarrow>map Amount ls. minor m) \<and> side Credit ls = 0"
  by (induction ls) auto

lemma sum_positive: "\<forall>p \<in> set ps. 0 \<le> minor p \<Longrightarrow> (\<Sum>p\<leftarrow>filter IsPositive ps. minor p) = (\<Sum>p\<leftarrow>ps. minor p)"
  by (induction ps) (auto simp: IsPositive_def)

text \<open>C7: for a line that distributes what its buyer paid, the entry of a refund of any part of it
  balances: debits of the seller's share and of the four components, one line for the rounding
  residue, and the credit of the amount to the buyer. The residue the platform absorbs or keeps is at
  most two minor units, and a refund of the whole line has none and gives each component back as it
  was charged.\<close>

theorem refund_entry:
  assumes "refund_lines en o' line amount settledAway w = (Inr ls, w')" and "refundable_line line amount"
  defines "b \<equiv> lb_Breakdown line"
  shows "side Debit ls = side Credit ls \<and> (\<exists>parts residue clearing memo.
      ls = parts @ residue @ [jline clearing Credit amount memo] \<and> (\<forall>n \<in> set parts. Direction n = Debit)
      \<and> length residue \<le> 1 \<and> (\<forall>n \<in> set residue. minor (Amount n) \<le> 2)
      \<and> (Equal amount (BuyerTotal b) \<longrightarrow> residue = [] \<and> map Amount parts = filter IsPositive (components b)))"
proof -
  obtain clearing acc w0 w1 parts allocated w2 r rl w3 memo where
    1: "seller_share o' line amount settledAway w0 = (Inr acc, w1)"
    and 2: "loopE (refund_component amount (BuyerTotal b)) (refund_components b) acc w1 = (Inr (parts, allocated), w2)"
    and 3: "Sub amount allocated = Inr r" and 4: "residue_line r w2 = (Inr rl, w3)"
    and ls: "ls = parts @ rl @ [jline clearing Credit amount memo]"
    using assms(1) by (auto simp: refund_lines_def Let_def b_def)
  obtain ps where ps: "list_all2 (\<lambda>c p. scaleToRefund c amount (BuyerTotal b) = Inr p) (components b) ps" and h: "holds ps (parts, allocated)"
    using refund_shares [OF 1 2 assms(2)] b_def by blast
  have t: "0 < minor amount" "minor amount \<le> minor (BuyerTotal b)" "amount_ok (minor (BuyerTotal b))" using assms(2) by (simp_all add: refundable_line_def b_def)
  have c: "\<forall>c \<in> set (components b). amount_ok (minor c)" using assms(2)
    by (auto simp: components_def refundable_line_def bounded_line_def amount_ok_def Let_def b_def)
  have "\<forall>p \<in> set ps. 0 \<le> minor p"
    using ps c scale_share t by (fastforce simp: list_all2_conv_all_nth in_set_conv_nth amount_ok_def)
  then have al: "side Debit parts = minor allocated" "side Credit parts = 0" "map Amount parts = filter IsPositive ps"
    "minor allocated = (\<Sum>p\<leftarrow>ps. minor p)" "\<forall>n \<in> set parts. Direction n = Debit" "money_ok allocated"
    using h debit_side [of parts] sum_positive [of ps] by (simp_all add: holds_def)
  have "money_ok amount" using t by (auto simp: money_ok_def in_i64_def amount_ok_def money_minor_def)
  then have r: "minor r = minor amount - minor allocated" "money_ok r"
    using 3 Sub_Inr_iff [OF _ al(6)] by (auto simp: money_ok_def)
  note rs = residue_line_sides [OF 4 r(2)] and rr = refund_residue [OF ps assms(2) b_def [THEN meta_eq_to_obj_eq]]
  have "side Debit ls = side Credit ls" using ls al rs r by simp
  moreover have "\<forall>n \<in> set rl. minor (Amount n) \<le> 2" using rs rr r al(4) by auto
  moreover have "Equal amount (BuyerTotal b) \<longrightarrow> rl = [] \<and> map Amount parts = filter IsPositive (components b)"
    using rs rr r al(3,4) by auto
  ultimately show ?thesis using ls rs al(5) by blast
qed


subsection \<open>The provider\<close>

text \<open>An operation that makes no call.\<close>

definition quiet :: "'a op \<Rightarrow> bool" where
  "quiet m \<longleftrightarrow> (\<forall>w. w_calls (snd (m w)) = w_calls w)"

named_theorems quiet_intros \<open>operations that make no call\<close>

lemma quiet_steps [quiet_intros]:
  "quiet (ret x)" "quiet (fail e)" "quiet (lift r)" "quiet (query q)" "quiet (exec s)" "quiet fresh"
  by (auto simp: quiet_def lift_def query_def exec_def fresh_def split: sum.splits)

lemma quiet_bnd [quiet_intros]: "quiet m \<Longrightarrow> (\<And>x. quiet (f x)) \<Longrightarrow> quiet (bnd m f)"
  by (auto simp: quiet_def bnd_def split: prod.splits sum.splits) (metis snd_conv)+

lemma quiet_attempt [quiet_intros]: "quiet m \<Longrightarrow> quiet (attempt m)"
  by (auto simp: quiet_def attempt_def split: prod.splits) (metis snd_conv)

lemma quiet_loopE [quiet_intros]: "(\<And>x s. quiet (f x s)) \<Longrightarrow> quiet (loopE f xs s)"
  by (induction xs arbitrary: s) (auto intro: quiet_intros)

lemma quiet_branches [quiet_intros]:
  "(b \<Longrightarrow> quiet m) \<Longrightarrow> (\<not> b \<Longrightarrow> quiet n) \<Longrightarrow> quiet (if b then m else n)"
  "(x = None \<Longrightarrow> quiet m) \<Longrightarrow> (\<And>y. x = Some y \<Longrightarrow> quiet (f y)) \<Longrightarrow> quiet (case x of None \<Rightarrow> m | Some y \<Rightarrow> f y)"
  "(\<And>a b. p = (a, b) \<Longrightarrow> quiet (g a b)) \<Longrightarrow> quiet (case p of (a, b) \<Rightarrow> g a b)"
  "(\<And>x. x = t \<Longrightarrow> quiet (h x)) \<Longrightarrow> quiet (let x = t in h x)"
  by (simp, cases x, simp_all, cases p, simp)

lemma quiet_modules [quiet_intros]:
  "quiet (new_public p)" "quiet (post_entry en e)" "quiet (seller_account i purpose cu)" "quiet (account_by_code code)"
  "quiet (publish en topic agg agg_id payload key)" "quiet (record_audit en ae)" "quiet (load_order en pid)"
  unfolding new_public_def post_entry_def seller_account_def account_by_code_def publish_def record_audit_def load_order_def
  by (intro quiet_intros)+

lemma quiet_transition [quiet_intros]: "quiet (transition en i a b k ai rs)"
proof -
  have "quiet (case res of Inl (RaisedE msg) \<Rightarrow> fail (ProblemE (Conflict TypeStateTransition msg)) | Inl e \<Rightarrow> fail e
      | Inr n \<Rightarrow> if n = 0 then fail errConcurrentTransition else exec (insert_event ev))" for res ev
    by (cases res) (auto intro: quiet_intros split: order_error.splits)
  then show ?thesis unfolding transition_def transitionStamped_def by (intro quiet_intros)
qed

lemma quiet_record_refund [quiet_intros]: "quiet (record_refund en req o' line amount al payment transfer prid)"
  unfolding record_refund_def postRefundLedger_def refund_lines_def seller_share_def refund_component_def residue_line_def recover_share_def
    applyRefundStatuses_def announce_refund_def
  by (intro quiet_intros)

lemma quiet_after: "quiet m \<Longrightarrow> m w = (r, w') \<Longrightarrow> w_calls w' = w_calls w"
  unfolding quiet_def by (metis snd_conv)

lemma in_tx_calls: "in_tx m w = (r, w') \<Longrightarrow> \<exists>r0 w0. m w = (r0, w0) \<and> w_calls w' = w_calls w0 \<and> (\<forall>x. r = Inr x \<longrightarrow> r0 = Inr x \<and> w' = w0)"
  by (cases "m w") (auto simp: in_tx_def split: sum.splits)

text \<open>Lines are in the currency of their order, as \<open>Checkout\<close> writes them.\<close>

definition one_currency :: "database \<Rightarrow> bool" where
  "one_currency d \<longleftrightarrow> (\<forall>i \<in> set (items d). \<forall>r \<in> set (orders d). it_order i = or_id r \<longrightarrow> it_currency i = or_currency r)"

text \<open>The call a refund makes, when it makes one.\<close>

definition within_line :: "database \<Rightarrow> provider_refund_request \<Rightarrow> bool" where
  "within_line d c \<longleftrightarrow> (\<exists>i \<in> set (items d). \<exists>p \<in> set (payments d). pa_order p = it_order i \<and> pr_ProviderPaymentID c = pa_ref p
     \<and> 0 \<le> minor (pr_Amount c) \<and> it_refunded i + minor (pr_Amount c) \<le> it_buyer_total i)"

lemma pickRefundLine_mem: "pickRefundLine o' i = Inr l \<Longrightarrow> l \<in> set (od_Lines o')"
  by (cases "od_Lines o'") (auto simp: pickRefundLine_def dest: find_mem split: if_splits option.splits)

lemma refund_amount_bounds:
  assumes "refund_amount o' line asked = Inr a" and "cur (BuyerTotal (lb_Breakdown line)) = od_Currency o'"
    and "0 \<le> minor (BuyerTotal (lb_Breakdown line))"
  shows "0 \<le> minor a \<and> minor a \<le> minor (BuyerTotal (lb_Breakdown line))"
  using assms by (auto simp: refund_amount_def IsPositive_def Cmp_def sameCurrency_def split: option.splits if_splits)


lemma bnd_query: "bnd (query q) f w = (case q (w_db w) of Inl e \<Rightarrow> (Inl e, w) | Inr x \<Rightarrow> f x w)"
  by (simp add: bnd_def query_def split: sum.splits)

lemma bnd_lift: "bnd (lift r) f w = (case r of Inl e \<Rightarrow> (Inl e, w) | Inr x \<Rightarrow> f x w)"
  by (simp add: bnd_def lift_def split: sum.splits)

lemma bnd_call: "bnd (call answer c) f w = f (answer (c # w_calls w)) (w\<lparr>w_calls := c # w_calls w\<rparr>)"
  by (simp add: bnd_def call_def Let_def)

lemma bnd_ret: "bnd (ret x) f w = f x w"
  by (simp add: bnd_def)

text \<open>Either the refund stops before the provider is asked, or it has passed every check.\<close>

lemma Refund_steps:
  assumes "Refund en req w = (r, w')"
  shows "(w' = w \<and> (\<exists>e. r = Inl e))
    \<or> (\<exists>o' line amount item payment transfer c. LoadOrder en (w_db w) (rr_OrderPublicID req) = Inr o' \<and> refundable (od_Status o')
        \<and> (rr_ActorIsStaff req \<or> od_BuyerID o' = rr_RequestedBy req \<and> checkRefundEligibility en line (w_db w) = Inr ())
        \<and> pickRefundLine o' (rr_ItemPublicID req) = Inr line \<and> refund_amount o' line (rr_Amount req) = Inr amount
        \<and> find (\<lambda>x. it_id x = lb_ItemID line) (items (w_db w)) = Some item
        \<and> \<not> wrap64 (it_refunded item + minor amount) > minor (BuyerTotal (lb_Breakdown line))
        \<and> captured_payment (od_ID o') (w_db w) = Inr payment \<and> pr_ProviderPaymentID c = pa_ref payment \<and> pr_Amount c = amount
        \<and> (\<exists>m. in_tx m w = (r, w') \<and> (\<forall>r0 w0. m w = (r0, w0) \<longrightarrow>
             (\<exists>e. r0 = Inl e \<and> w0 = w\<lparr>w_calls := RequestRefund c # w_calls w\<rparr>)
             \<or> (\<exists>prid. record_refund en req o' line amount (it_refunded item) payment transfer prid
                   (w\<lparr>w_calls := RequestRefund c # w_calls w\<rparr>) = (r0, w0)))))"
  (is "?early \<or> ?late")
proof (cases "LoadOrder en (w_db w) (rr_OrderPublicID req)")
  case (Inl e)
  then have ?early using assms by (auto simp: Refund_def in_tx_def load_order_def bnd_query)
  then show ?thesis ..
next
  case (Inr o')
  show ?thesis
  proof (cases "(rr_ActorIsStaff req \<or> od_BuyerID o' = rr_RequestedBy req) \<and> refundable (od_Status o')")
    case False
    then have ?early using assms Inr by (auto simp: Refund_def in_tx_def load_order_def bnd_query split: if_splits)
    then show ?thesis ..
  next
    case ok: True
    show ?thesis
    proof (cases "\<exists>line amount item payment. pickRefundLine o' (rr_ItemPublicID req) = Inr line
        \<and> (rr_ActorIsStaff req \<or> checkRefundEligibility en line (w_db w) = Inr ())
        \<and> refund_amount o' line (rr_Amount req) = Inr amount \<and> find (\<lambda>x. it_id x = lb_ItemID line) (items (w_db w)) = Some item
        \<and> \<not> wrap64 (it_refunded item + minor amount) > minor (BuyerTotal (lb_Breakdown line))
        \<and> captured_payment (od_ID o') (w_db w) = Inr payment")
      case False
      then have ?early using assms Inr ok
        by (auto simp: Refund_def in_tx_def load_order_def item_by_id_def bnd_query bnd_lift bnd_ret split: sum.splits option.splits if_splits)
      then show ?thesis ..
    next
      case True
      then obtain line amount item payment where c: "pickRefundLine o' (rr_ItemPublicID req) = Inr line"
        "rr_ActorIsStaff req \<or> checkRefundEligibility en line (w_db w) = Inr ()" "refund_amount o' line (rr_Amount req) = Inr amount"
        "find (\<lambda>x. it_id x = lb_ItemID line) (items (w_db w)) = Some item"
        "\<not> wrap64 (it_refunded item + minor amount) > minor (BuyerTotal (lb_Breakdown line))"
        "captured_payment (od_ID o') (w_db w) = Inr payment" by blast
      define transfer where "transfer = item_transfer (w_db w) (lb_ItemID line)"
      define rq where "rq = \<lparr>pr_ProviderPaymentID = pa_ref payment, pr_Amount = amount, pr_Reason = rr_Reason req,
        pr_ReverseSplits = (Equal amount (BuyerTotal (lb_Breakdown line)) \<and> \<not> (case transfer of Some t \<Rightarrow> tr_status t = ''processed'' | None \<Rightarrow> False)
          \<and> TransferReversal en),
        pr_IdempotencyKey = ''refund:'' @ lb_ItemPublicID line @ '':'' @ Decimal amount,
        pr_Notes = [(''order'', od_PublicID o'), (''item'', lb_ItemPublicID line)]\<rparr>"
      have "\<exists>m. in_tx m w = (r, w') \<and> (\<forall>r0 w0. m w = (r0, w0) \<longrightarrow>
             (\<exists>e. r0 = Inl e \<and> w0 = w\<lparr>w_calls := RequestRefund rq # w_calls w\<rparr>)
             \<or> (\<exists>prid. record_refund en req o' line amount (it_refunded item) payment transfer prid
                   (w\<lparr>w_calls := RequestRefund rq # w_calls w\<rparr>) = (r0, w0)))"
        by (rule exI, rule conjI, rule assms [unfolded Refund_def])
          (use ok c Inr in \<open>auto simp: load_order_def item_by_id_def bnd_query bnd_lift bnd_ret bnd_call Let_def transfer_def rq_def split: sum.splits\<close>)
      moreover have "pr_ProviderPaymentID rq = pa_ref payment" "pr_Amount rq = amount" by (simp_all add: rq_def)
      ultimately have ?late using ok c Inr by blast
      then show ?thesis ..
    qed
  qed
qed


subsection \<open>What a refund leaves on the line\<close>

lemma same_items_tables [same_intros]:
  "keeps (same items) (exec (update_orders en p f))"
  "keeps (same items) (exec (update_transfers pt ct))"
  "keeps (same items) (exec (insert_refund rf))"
  "keeps (same items) (exec (insert_event ev))"
  "keeps (same items) (exec (insert_offset orow))"
  "keeps (same items) (exec (refund_licenses item))"
  "keeps (same items) (exec (product_refunded pi3))"
  "keeps (same items) (exec (insert_delta de))"
  by (rule keeps_same; auto simp: update_orders_def update_transfers_def insert_refund_def insert_event_def insert_offset_def
      refund_licenses_def product_refunded_def insert_delta_def Let_def)+

lemma same_items_modules [same_intros]:
  "keeps (same items) (post_entry en e)"
  "keeps (same items) (seller_account i purpose cu)"
  "keeps (same items) (account_by_code code)"
  "keeps (same items) (publish en topic agg agg_id payload key)"
  "keeps (same items) (record_audit en ae)"
  "keeps (same items) (load_order en pid)"
  unfolding post_entry_def seller_account_def account_by_code_def publish_def record_audit_def load_order_def
  by (intro same_intros keeps_same; auto)+

lemma same_items_transition [same_intros]: "keeps (same items) (transition en i a b k ai rs)"
proof -
  have r: "keeps (same items) (case res of Inl (RaisedE msg) \<Rightarrow> fail (ProblemE (Conflict TypeStateTransition msg)) | Inl e \<Rightarrow> fail e
      | Inr n \<Rightarrow> if n = 0 then fail errConcurrentTransition else exec (insert_event ev))" for res ev
  proof (cases res)
    case (Inl e)
    then show ?thesis by (cases e) (simp_all add: same.keeps_fail)
  qed (simp add: same.keeps_fail same_items_tables)
  show ?thesis unfolding transition_def transitionStamped_def by (intro same_intros r)
qed

lemma same_items_refund [same_intros]:
  "keeps (same items) (postRefundLedger en o' line amount sa pub)"
  "keeps (same items) (recover_share en o' line amount transfer)"
  "keeps (same items) (announce_refund en req o' line amount recovery)"
  unfolding postRefundLedger_def refund_lines_def seller_share_def refund_component_def residue_line_def recover_share_def announce_refund_def
  by (intro same_intros)+

definition refunded_more :: "nat \<Rightarrow> int \<Rightarrow> item_row list \<Rightarrow> item_row list \<Rightarrow> bool" where
  "refunded_more i amt xs ys \<longleftrightarrow> map it_id ys = map it_id xs
     \<and> (\<forall>k < length xs. it_refunded (ys ! k) = (if it_id (xs ! k) = i then amt else it_refunded (xs ! k)))"

lemma update_items_more:
  assumes "exec (update_items (\<lambda>r. it_id r = i) s (\<lambda>r. amt) f) w = (Inr n, w')"
  shows "refunded_more i amt (items (w_db w)) (items (w_db w'))"
proof -
  obtain rs where m: "mapE (\<lambda>r. if it_id r = i then let r' = r\<lparr>it_status := s r, it_refunded := amt, it_fulfilled := f r\<rparr>
      in bindE (item_checks r') (\<lambda>_. Inr r') else Inr r) (items (w_db w)) = Inr rs" and w': "items (w_db w') = rs"
    using assms by (auto simp: update_items_def)
  have "it_id (rs ! k) = it_id (items (w_db w) ! k) \<and> it_refunded (rs ! k) = (if it_id (items (w_db w) ! k) = i then amt else it_refunded (items (w_db w) ! k))"
    if k: "k < length (items (w_db w))" for k
  proof (cases "it_id (items (w_db w) ! k) = i")
    case True
    then have "rs ! k = (items (w_db w) ! k)\<lparr>it_status := s (items (w_db w) ! k), it_refunded := amt, it_fulfilled := f (items (w_db w) ! k)\<rparr>"
      using mapE_nth [OF m k] by (auto simp: Let_def)
    then show ?thesis using True by simp
  qed (use mapE_nth [OF m k] in simp)
  then show ?thesis using mapE_length [OF m] w' by (auto simp: refunded_more_def intro!: nth_equalityI)
qed

lemma bnd_InrE: "bnd m f w = (Inr y, w'') \<Longrightarrow> (\<And>x w'. m w = (Inr x, w') \<Longrightarrow> f x w' = (Inr y, w'') \<Longrightarrow> P) \<Longrightarrow> P"
  by auto

text \<open>Skipping a step that leaves the table alone, at the front or at the back.\<close>

lemma same_front:
  "bnd m k v = (Inr y, v') \<Longrightarrow> keeps (same f) m \<Longrightarrow> (\<And>x v1. k x v1 = (Inr y, v') \<Longrightarrow> R (f (w_db v1))) \<Longrightarrow> R (f (w_db v))"
  by (erule bnd_InrE) (metis same_after)

lemma same_back:
  "bnd m (\<lambda>_. n) v = (Inr y, v') \<Longrightarrow> keeps (same f) n \<Longrightarrow> (\<And>x v1. m v = (Inr x, v1) \<Longrightarrow> R (f (w_db v1))) \<Longrightarrow> R (f (w_db v'))"
  by (erule bnd_InrE) (metis same_after)

lemma applyRefundStatuses_items:
  assumes "applyRefundStatuses en o' line amount already w = (Inr u, w')"
  shows "refunded_more (lb_ItemID line) (wrap64 (already + minor amount)) (items (w_db w)) (items (w_db w'))"
  by (rule same_back [where f = items, OF assms [unfolded applyRefundStatuses_def Let_def]]) (intro same_intros, rule update_items_more)

lemma record_refund_items:
  assumes "record_refund en req o' line amount already payment transfer prid w = (Inr out, w')"
  shows "refunded_more (lb_ItemID line) (wrap64 (already + minor amount)) (items (w_db w)) (items (w_db w'))"
proof -
  let ?R = "\<lambda>xs. refunded_more (lb_ItemID line) (wrap64 (already + minor amount)) xs (items (w_db w'))"
  note front = same_front [where f = items and R = ?R]
  show ?thesis
    by (insert assms [unfolded record_refund_def Let_def], (erule front, (intro same_intros; fail))+,
        erule same_back [where f = items], intro same_intros) (rule applyRefundStatuses_items)
qed




subsection \<open>Witnesses\<close>

text \<open>The paid order 31: one line of 1,180.00 rupees, of which a part is refunded.\<close>

definition demo_paid :: world where
  "demo_paid = \<lparr>w_db = (demo_database None)\<lparr>orders := [(demo_order 31 21 StatusFulfilled)\<lparr>or_paid := Some 999600, or_fulfilled := Some 999600\<rparr>],
       items := [(demo_item 41 31)\<lparr>it_status := ''fulfilled'', it_fulfilled := Some 999600\<rparr>],
       payments := [\<lparr>pa_id = 47, pa_order = 31, pa_provider = ''bridge'', pa_ref = ''pay_A'', pa_method = ''upi'', pa_network = None,
         pa_amount = 118000, pa_currency = ''INR'', pa_fee = Some 2360, pa_fee_tax = Some 425, pa_status = ''captured'',
         pa_captured = 999600, pa_raw = ''captured''\<rparr>]\<rparr>,
     w_fresh = 50, w_calls = [], w_order_seq = 3\<rparr>"

definition demo_view :: order_view where
  "demo_view = (case LoadOrder (demo_env 1000000) (w_db demo_paid) (pub_id ''ord'' 31) of Inr o' \<Rightarrow> o')"

definition demo_refund :: refund_request_in where
  "demo_refund = \<lparr>rr_OrderPublicID = pub_id ''ord'' 31, rr_ItemPublicID = '''', rr_Amount = Some \<lparr>minor = 50013, cur = ''INR''\<rparr>,
     rr_Reason = ''goodwill'', rr_RequestedBy = 21, rr_ActorIsStaff = False, rr_Note = ''''\<rparr>"

lemma demo_scale: "0 \<le> n \<Longrightarrow> n \<le> 9000000000000000 \<Longrightarrow> MulRatio \<lparr>minor = n, cur = c\<rparr> 50013 118000 HalfUp = Inr \<lparr>minor = (2 * (n * 50013) + 118000) div 236000, cur = c\<rparr>"
  using MulRatio_share [of "\<lparr>minor = n, cur = c\<rparr>" 50013 118000 HalfUp]
  by (auto simp: money_ok_def in_i64_def round_ref_def round_mag_def sgn_if)

lemma demo_line: "refundable_line (hd (od_Lines demo_view)) \<lparr>minor = 50013, cur = ''INR''\<rparr>"
  by (simp add: demo_view_def demo_paid_def refundable_line_def bounded_line_def distributed_def amount_ok_def money_minor_def demo_eval
      cong: bnd_weak bindE_weak)

lemma demo_lines: "\<exists>ls w. refund_lines (demo_env 1000000) demo_view (hd (od_Lines demo_view)) \<lparr>minor = 50013, cur = ''INR''\<rparr> False demo_paid = (Inr ls, w)
    \<and> map (\<lambda>n. (Direction n, minor (Amount n))) ls
       = [(Debit, 45046), (Debit, 3815), (Debit, 687), (Debit, 424), (Debit, 42), (Credit, 1), (Credit, 50013)]"
  by (simp add: demo_view_def demo_paid_def refund_lines_def refund_components_def seller_share_def scaleToRefund_def demo_scale
      refund_component_def add_share_def residue_line_def Abs_def demo_eval cong: bnd_weak bindE_weak)

lemma refund_entry_witness:
  "\<exists>ls w. refund_lines (demo_env 1000000) demo_view (hd (od_Lines demo_view)) \<lparr>minor = 50013, cur = ''INR''\<rparr> False demo_paid = (Inr ls, w)
    \<and> length ls = 7 \<and> side Debit ls = side Credit ls"
proof -
  obtain ls w where l: "refund_lines (demo_env 1000000) demo_view (hd (od_Lines demo_view)) \<lparr>minor = 50013, cur = ''INR''\<rparr> False demo_paid = (Inr ls, w)"
    and m: "map (\<lambda>n. (Direction n, minor (Amount n))) ls
       = [(Debit, 45046), (Debit, 3815), (Debit, 687), (Debit, 424), (Debit, 42), (Credit, 1), (Credit, 50013)]"
    using demo_lines by (elim exE conjE)
  have "length ls = 7" using arg_cong [OF m, of length] by simp
  then show ?thesis using l refund_entry [OF l demo_line] by blast
qed

lemma demo_paid_ok: "tables_ok (w_db demo_paid)" "one_currency (w_db demo_paid)"
  by (simp_all add: tables_ok_def orders_ok_def items_ok_def payments_ok_def lines_ok_def order_ok_def item_ok_def amount_ok_def money_minor_def
      one_currency_def demo_paid_def demo_database_def demo_order_def demo_item_def pub_id_def dec_nat.simps demo_digits)


end
