(* ===== verification/OrderProofs.thy ===== *)
theory OrderProofs
  imports RefundProofs
begin

text \<open>
  What repetition does to the orders package: a checkout key used again returns the order of its
  first use or is refused, a provider event delivered again changes nothing, and a settlement
  released once is not released again; and how a released settlement divides (\<open>checkout.go\<close>,
  \<open>webhook.go\<close>, \<open>settlement.go\<close>).
\<close>

lemma commit_check_same [simp]: "commit_check l l = Inr ()"
  by (simp add: commit_check_def)

lemma in_tx_keep: "m w = (x, w) \<Longrightarrow> in_tx m w = (x, w)"
  by (cases x) (auto simp: in_tx_def)

subsection \<open>The tables that remember requests\<close>

definition requests :: "database \<Rightarrow> idem_row list \<times> webhook_row list" where
  "requests d = (idem_keys d, webhooks d)"

lemma same_requests_tables [same_intros]:
  "keeps (same requests) (exec (insert_order en r))"
  "keeps (same requests) (exec (update_orders en p f))"
  "keeps (same requests) (exec (insert_item i))"
  "keeps (same requests) (exec (update_items pi si ri fi))"
  "keeps (same requests) (exec (update_transfers pt ct))"
  "keeps (same requests) (exec (insert_refund rf))"
  "keeps (same requests) (exec (update_refunds prf sr))"
  "keeps (same requests) (exec (insert_chargeback cb))"
  "keeps (same requests) (exec (update_chargebacks pc sc))"
  "keeps (same requests) (exec (insert_event ev))"
  "keeps (same requests) (exec (update_intents pin sin))"
  "keeps (same requests) (exec (insert_offset orow))"
  "keeps (same requests) (exec (insert_delta de))"
  "keeps (same requests) (exec (next_invoice_number knd fy prefix))"
  "keeps (same requests) (exec (insert_invoice iv))"
  "keeps (same requests) (exec (insert_run rn))"
  "keeps (same requests) (exec (insert_difference df))"
  "keeps (same requests) (exec (set_account_status account ast act))"
  "keeps (same requests) (exec (variant_sold vi))"
  "keeps (same requests) (exec (product_sold pi2))"
  by (rule keeps_same; auto simp: requests_def insert_order_def update_orders_def insert_item_def update_items_def update_transfers_def
      insert_refund_def update_refunds_def insert_chargeback_def update_chargebacks_def insert_event_def update_intents_def insert_offset_def
      insert_delta_def next_invoice_number_def insert_invoice_def insert_run_def insert_difference_def set_account_status_def
      variant_sold_def product_sold_def Let_def split: prod.splits option.splits if_splits)+

lemma same_requests_conflict [same_intros]:
  "keeps (same requests) (exec (insert_payment pa))"
  "keeps (same requests) (exec (insert_transfer tr))"
  "keeps (same requests) (exec (insert_license li))"
  by (rule keeps_same; auto simp: requests_def insert_payment_def insert_transfer_def insert_license_def split: if_splits)+

lemma same_requests_modules [same_intros]:
  "keeps (same requests) (post_entry en e)"
  "keeps (same requests) (seller_account i purpose cu)"
  "keeps (same requests) (account_by_code code)"
  "keeps (same requests) (publish en topic agg agg_id payload key)"
  "keeps (same requests) (record_audit en ae)"
  unfolding post_entry_def seller_account_def account_by_code_def publish_def record_audit_def
  by (intro same_intros keeps_same; auto simp: requests_def)+

lemma same_sequence [same_intros]: "keeps (same f) (next_order_number fy)"
  by (simp add: keeps_def next_order_number_def same_def)

lemma same_requests_transition [same_intros]:
  "keeps (same requests) (transitionStamped en i a b k ai rs st)"
  "keeps (same requests) (transition en i a b k ai rs)"
proof -
  have r: "keeps (same requests) (case res of Inl (RaisedE msg) \<Rightarrow> fail (ProblemE (Conflict TypeStateTransition msg)) | Inl e \<Rightarrow> fail e
      | Inr n \<Rightarrow> if n = 0 then fail errConcurrentTransition else exec (insert_event ev))" for res ev
  proof (cases res)
    case (Inl e)
    then show ?thesis by (cases e) (simp_all add: same.keeps_fail)
  qed (simp add: same.keeps_fail same_requests_tables)
  show 1: "keeps (same requests) (transitionStamped en i a b k ai rs st)" for st
    unfolding transitionStamped_def by (intro same_intros r)
  show "keeps (same requests) (transition en i a b k ai rs)" unfolding transition_def by (rule 1)
qed

lemma same_requests_parts [same_intros]:
  "keeps (same requests) (recordCapture en o' record ip actor)"
  "keeps (same requests) (load_order en pub)"
  "keeps (same requests) (checkout_line en buyer oid cu l acc)"
  unfolding recordCapture_def load_order_def checkout_line_def insert_capture_def postCaptureLedger_def capture_line_def post_fee_def
    issueLicenses_def issue_license_def recordTransfers_def record_transfer_def updateTurnover_def issueInvoices_def supply_invoice_def
    commission_invoice_def mark_sold_def announce_paid_def
  by (intro same_intros)+

subsection \<open>Checkout\<close>

definition completed_key :: "checkout_request \<Rightarrow> string \<Rightarrow> string \<Rightarrow> idem_row" where
  "completed_key req fp pub = \<lparr>ik_key = rq_IdempotencyKey req, ik_user = rq_BuyerID req, ik_fingerprint = fp,
     ik_status = ''completed'', ik_resource = pub\<rparr>"

lemma new_public_Inr: "new_public p w = (Inr x, w') \<Longrightarrow> x = pub_id p (w_fresh w) \<and> w_db w' = w_db w"
  by (auto simp: new_public_def fresh_def)

lemma pub_id_nonempty [simp]: "pub_id ''ord'' n \<noteq> ''''"
  by (simp add: pub_id_def)

lemma claim_key:
  assumes "claimIdempotency en req pub w = (Inr u, w')"
  shows "requests (w_db w') = (idem_keys (w_db w) @ [completed_key req (checkoutFingerprint en req) pub], webhooks (w_db w))"
  using assms by (auto simp: claimIdempotency_def insert_idem_def requests_def completed_key_def fresh_def)

lemma place_order_key:
  assumes "place_order en req country w = (Inr o', w')" and key: "rq_IdempotencyKey req \<noteq> ''''"
  shows "idem_keys (w_db w') = idem_keys (w_db w) @ [completed_key req (checkoutFingerprint en req) (od_PublicID o')] \<and> od_PublicID o' \<noteq> ''''"
proof (rule bnd_InrE [OF assms(1) [unfolded place_order_def nextOrderNumber_def Let_def]], goal_cases)
  case 1
  note a = 1
  show ?case
  proof (rule bnd_InrE [OF a(2)], goal_cases)
    case 1
    note b = 1
    show ?case
    proof (rule bnd_InrE [OF b(2)], goal_cases)
      case (1 pub w3)
      let ?R = "\<lambda>d0. requests (w_db w') = (fst d0 @ [completed_key req (checkoutFingerprint en req) pub], snd d0) \<and> od_PublicID o' = pub"
      have "?R (requests (w_db w3))"
        by (insert 1(2), (erule same_front [where f = requests and R = ?R], (intro same_intros; fail))+,
            simp only: split_paired_all prod.case, (erule same_front [where f = requests and R = ?R], (intro same_intros; fail))+)
          (auto simp: key requests_def dest!: claim_key)
      moreover have "pub \<noteq> ''''" "w_db w3 = w_db w"
        using 1(1) a(1) b(1) by (auto simp: new_public_def fresh_def)
      ultimately show ?case by (simp add: requests_def)
    qed
  qed
qed

definition key_holder :: "checkout_request \<Rightarrow> idem_row \<Rightarrow> bool" where
  "key_holder req k \<longleftrightarrow> ik_key k = rq_IdempotencyKey req \<and> ik_user k = rq_BuyerID req"

text \<open>The checks of a request that do not look at the database.\<close>

definition well_formed :: "checkout_request \<Rightarrow> bool" where
  "well_formed req \<longleftrightarrow> rq_Items req \<noteq> [] \<and> length (rq_Items req) \<le> 50 \<and> \<not> (rq_IsB2B req \<and> rq_BuyerGSTIN req = '''')
    \<and> (to_upper (trim_space (rq_BuyerCountry req)) \<notin> {'''', ''IN''} \<or> (1 \<le> rq_BuyerStateCode req \<and> rq_BuyerStateCode req \<le> 99))"

lemma Checkout_rejects: "\<not> well_formed req \<Longrightarrow> \<exists>e. Checkout en req w = (Inl e, w)"
  by (auto simp: Checkout_def well_formed_def Let_def)

lemma Checkout_runs: "well_formed req \<Longrightarrow> \<exists>country. Checkout en req w =
   in_tx (bnd (if rq_IdempotencyKey req \<noteq> '''' then query (replayCheckout en req) else ret None)
     (\<lambda>existing. case existing of Some o' \<Rightarrow> ret o' | None \<Rightarrow> place_order en req country)) w"
  by (auto simp: Checkout_def well_formed_def Let_def)

lemma find_append_None: "find P xs = None \<Longrightarrow> find P (xs @ ys) = find P ys"
  by (induction xs) (auto split: if_splits)

lemma Checkout_holds_key:
  assumes "Checkout en req w = (Inr o', w')" and key: "rq_IdempotencyKey req \<noteq> ''''"
  shows "find (key_holder req) (idem_keys (w_db w')) = Some (completed_key req (checkoutFingerprint en req) (od_PublicID o'))
    \<and> od_PublicID o' \<noteq> ''''"
proof -
  have wf: "well_formed req" using assms(1) Checkout_rejects [of req en w] by auto
  then obtain country where c: "Checkout en req w = in_tx (bnd (query (replayCheckout en req))
     (\<lambda>existing. case existing of Some o' \<Rightarrow> ret o' | None \<Rightarrow> place_order en req country)) w"
    using Checkout_runs [OF wf, of en w] key by auto
  have run: "bnd (query (replayCheckout en req))
     (\<lambda>existing. case existing of Some o' \<Rightarrow> ret o' | None \<Rightarrow> place_order en req country) w = (Inr o', w')"
    using assms(1) unfolding c in_tx_eq_Inr by (rule conjunct1)
  show ?thesis
  proof (cases "find (key_holder req) (idem_keys (w_db w))")
    case None
    then have "place_order en req country w = (Inr o', w')"
      using run by (simp add: replayCheckout_def key_holder_def [abs_def])
    from place_order_key [OF this key] show ?thesis
      using None by (simp add: find_append_None completed_key_def key_holder_def)
  next
    case (Some k)
    then obtain "w' = w" and k: "ik_fingerprint k = checkoutFingerprint en req" "ik_status k = ''completed''" "ik_resource k \<noteq> ''''"
      "LoadOrder en (w_db w) (ik_resource k) = Inr o'"
      using run by (auto simp: replayCheckout_def key_holder_def [abs_def] split: if_splits)
    moreover have "key_holder req k" using Some find_mem by fastforce
    moreover have "od_PublicID o' = ik_resource k" using LoadOrder_order [OF k(4)] by auto
    ultimately show ?thesis using Some by (cases k) (simp add: completed_key_def key_holder_def)
  qed
qed



subsection \<open>Provider events\<close>

lemma same_requests_after: "keeps (same requests) m \<Longrightarrow> m w = (Inr x, w') \<Longrightarrow> webhooks (w_db w') = webhooks (w_db w)"
  using same_after [of requests m w "Inr x" w'] by (simp add: requests_def)

lemma same_requests_handlers [same_intros]:
  "keeps (same requests) (capture_event_tx en record)"
  "keeps (same requests) (failed_event_tx en ev)"
  "keeps (same requests) (tolerant (transition en i a b k ai rs))"
  "keeps (same requests) (postChargebackLoss en i pub amount did)"
  "keeps (same requests) (chargeback_created en ev p r amount network respondBy)"
  unfolding capture_event_tx_def recordOrphanPayment_def recordAmountMismatch_def record_run_def failed_event_tx_def tolerant_def
    postChargebackLoss_def loss_line_def recover_item_def chargeback_created_def
  by (intro same_intros)+

lemma same_requests_apply: "keeps (same requests) (applyWebhook en ev)"
  unfolding applyWebhook_def onPaymentCaptured_def onPaymentFailed_def onRefundProcessed_def onTransferProcessed_def
    onTransferFailed_def onDispute_def dispute_event_tx_def set_chargeback_def onAccountStatus_def
  by (intro same_intros same.keeps_in_tx)

definition handled :: "env \<Rightarrow> webhook_event \<Rightarrow> string \<Rightarrow> webhook_row list \<Rightarrow> bool" where
  "handled en ev digest rs \<longleftrightarrow> (\<exists>x. find (\<lambda>r. wh_provider r = ProviderName en \<and> wh_event r = we_EventID ev) rs = Some x
     \<and> wh_digest x = digest \<and> wh_status x \<in> {''processed'', ''ignored''})"

definition duplicate :: "webhook_event \<Rightarrow> webhook_outcome" where
  "duplicate ev = \<lparr>wo_EventID = we_EventID ev, wo_Type = we_Type ev, wo_Processed = True, wo_Duplicate = True, wo_ReplayMismatch = False\<rparr>"

lemma handled_append: "handled en ev digest rs \<Longrightarrow> handled en ev digest (rs @ later)"
  unfolding handled_def using find_append_Some by fastforce

lemma claim_handled:
  assumes "handled en ev (sha256 en raw) (webhooks (w_db w))"
  shows "in_tx (claim_event en ev raw) w = (Inr (duplicate ev), w)"
  using assms by (intro in_tx_keep) (auto simp: handled_def claim_event_def find_event_def bnd_query bnd_ret duplicate_def Let_def)

lemma claim_cases:
  assumes "in_tx (claim_event en ev raw) w = (Inr out, w1)" and "\<not> wo_ReplayMismatch out"
  shows "if wo_Duplicate out then handled en ev (sha256 en raw) (webhooks (w_db w1))
    else \<exists>x. find (\<lambda>r. wh_provider r = ProviderName en \<and> wh_event r = we_EventID ev) (webhooks (w_db w1)) = Some x \<and> wh_digest x = sha256 en raw"
proof -
  have run: "claim_event en ev raw w = (Inr out, w1)" using assms(1) by (simp add: in_tx_eq_Inr)
  show ?thesis
  proof (cases "find_event en ev (w_db w)")
    case None
    then show ?thesis using run
      by (auto simp: claim_event_def Let_def find_event_def insert_webhook_def fresh_def find_append_None)
  next
    case (Some x)
    then show ?thesis using run assms(2)
      by (auto simp: claim_event_def Let_def find_event_def handled_def split: if_splits)
  qed
qed

lemma find_marked:
  "find p rs = Some x \<Longrightarrow> (\<And>r. p (g r) = p r) \<Longrightarrow> find p (map (\<lambda>r. if p r then g r else r) rs) = Some (g x)"
  by (induction rs) (auto split: if_splits)

lemma Handle_marks:
  assumes "HandleWebhook en header raw w = (Inr out, w1)" and "parse_webhook en header raw = Inr ev" and "\<not> wo_ReplayMismatch out"
  shows "handled en ev (sha256 en raw) (webhooks (w_db w1))"
proof -
  obtain out0 wa where a: "in_tx (claim_event en ev raw) w = (Inr out0, wa)"
    and b: "(if wo_Duplicate out0 then ret out0
       else bnd (attempt (applyWebhook en ev)) (\<lambda>applyErr.
         let (st, note) = (case applyErr of Inl e \<Rightarrow> (''failed'', error_text en e) | Inr u \<Rightarrow> (''processed'', '''')) in
         bnd (attempt (in_tx (exec (update_webhook (ProviderName en) (we_EventID ev) st (\<lambda>r. nullIfEmpty note))))) (\<lambda>_.
         case applyErr of Inl e \<Rightarrow> fail e | Inr u \<Rightarrow> ret (out0\<lparr>wo_Processed := True\<rparr>)))) wa = (Inr out, w1)"
    using assms(1,2) unfolding HandleWebhook_def by (simp only: sum.case bnd_eq_Inr) blast
  show ?thesis
  proof (cases "wo_Duplicate out0")
    case True
    then show ?thesis using a b claim_cases [OF a] assms(3) by simp
  next
    case False
    then obtain res wb where c: "attempt (applyWebhook en ev) wa = (Inr res, wb)"
      and d: "(let (st, note) = (case res of Inl e \<Rightarrow> (''failed'', error_text en e) | Inr u \<Rightarrow> (''processed'', '''')) in
         bnd (attempt (in_tx (exec (update_webhook (ProviderName en) (we_EventID ev) st (\<lambda>r. nullIfEmpty note))))) (\<lambda>_.
         case res of Inl e \<Rightarrow> fail e | Inr u \<Rightarrow> ret (out0\<lparr>wo_Processed := True\<rparr>))) wb = (Inr out, w1)"
      using b by auto
    have w: "webhooks (w_db wb) = webhooks (w_db wa)"
      using same_requests_after [OF same.keeps_attempt [OF same_requests_apply] c] by simp
    have "\<not> wo_ReplayMismatch out0" using d assms(3) by (auto simp: Let_def split: sum.splits prod.splits)
    then obtain x where x: "find (\<lambda>r. wh_provider r = ProviderName en \<and> wh_event r = we_EventID ev) (webhooks (w_db wb)) = Some x"
      "wh_digest x = sha256 en raw" using claim_cases [OF a] False w by auto
    obtain u where "res = Inr u" using d by (cases res) (auto simp: Let_def split: prod.splits)
    then obtain r where "attempt (in_tx (exec (update_webhook (ProviderName en) (we_EventID ev) ''processed'' (\<lambda>r. nullIfEmpty '''')))) wb = (Inr r, w1)"
      using d by auto
    then have "webhooks (w_db w1) = map (\<lambda>r. if wh_provider r = ProviderName en \<and> wh_event r = we_EventID ev
        then r\<lparr>wh_status := ''processed'', wh_attempts := wh_attempts r + 1, wh_error := nullIfEmpty ''''\<rparr> else r) (webhooks (w_db wb))"
      by (auto simp: attempt_def in_tx_def exec_def update_webhook_def Let_def)
    then show ?thesis using find_marked [OF x(1)] x(2) by (auto simp: handled_def)
  qed
qed



subsection \<open>Settlements\<close>

lemma amounts_add: "Add m n = Inr k \<Longrightarrow> money_ok m \<Longrightarrow> money_ok n \<Longrightarrow> minor k = minor m + minor n \<and> money_ok k \<and> cur k = cur m"
  using Add_Inr_iff [of m n k] by (auto simp: money_ok_def)

lemma amounts_sub: "Sub m n = Inr k \<Longrightarrow> money_ok m \<Longrightarrow> money_ok n \<Longrightarrow> minor k = minor m - minor n \<and> money_ok k \<and> cur k = cur m"
  using Sub_Inr_iff [of m n k] by (auto simp: money_ok_def)

text \<open>The offsets take what they take out of what remains, and no more.\<close>

lemma apply_offsets_within:
  assumes "apply_offsets en payable acct cu rs applied remaining w = (Inr x, w')"
    and "money_ok applied" "money_ok remaining" "0 \<le> minor remaining"
  shows "money_ok x \<and> minor applied \<le> minor x \<and> minor x \<le> minor applied + minor remaining"
  using assms
proof (induction rs arbitrary: applied remaining w)
  case (Cons r rs)
  define outstanding where "outstanding = wrap64 (of_amount r - of_applied r)"
  define taken where "taken = (if outstanding > minor remaining then minor remaining else outstanding)"
  note step = Cons.prems(1) [unfolded apply_offsets.simps Let_def, folded outstanding_def, folded taken_def]
  consider "outstanding \<le> 0" | "0 < outstanding" "taken \<le> 0" | "0 < outstanding" "0 < taken" by linarith
  then show ?case
  proof cases
    case 1
    then have "apply_offsets en payable acct cu rs applied remaining w = (Inr x, w')" using step by simp
    then show ?thesis by (rule Cons.IH) (use Cons.prems in simp_all)
  next
    case 2
    then have "x = applied" using step by simp
    then show ?thesis using Cons.prems(2,4) by simp
  next
    case 3
    then have "\<not> outstanding \<le> 0" "\<not> taken \<le> 0" by simp_all
    then obtain takeM applied' remaining' w1 where n: "New taken cu = Inr takeM" "Add applied takeM = Inr applied'" "Sub remaining takeM = Inr remaining'"
      and rec: "apply_offsets en payable acct cu rs applied' remaining' w1 = (Inr x, w')"
      using step by auto
    have t: "minor takeM = taken" "taken \<le> minor remaining" "money_ok takeM"
      using n(1) 3 Cons.prems(3) by (auto simp: New_def taken_def money_ok_def in_i64_def split: if_splits)
    have a: "minor applied' = minor applied + taken" "money_ok applied'" using amounts_add [OF n(2)] Cons.prems(2) t by simp_all
    have b: "minor remaining' = minor remaining - taken" "money_ok remaining'" using amounts_sub [OF n(3)] Cons.prems(3) t by simp_all
    from Cons.IH [OF rec a(2) b(2)] show ?thesis using a(1) b(1) t(2) 3(2) by simp
  qed
qed simp

lemma applyOffsets_within:
  assumes "applyOffsets en s available payable w = (Inr x, w')" and "money_ok available" "0 \<le> minor available"
  shows "money_ok x \<and> 0 \<le> minor x \<and> minor x \<le> minor available"
  using assms apply_offsets_within [where applied = "Zero (cur available)"]
  by (auto simp: applyOffsets_def Let_def Zero_def money_ok_def in_i64_def split: if_splits)

lemma hold_reserve_within:
  assumes "hold_reserve en c payable w = (Inr x, w')" and "money_ok (ca_amount c)" "0 \<le> minor (ca_amount c)" "ca_reserveBps c \<le> 10000"
  shows "money_ok x \<and> 0 \<le> minor x \<and> minor x \<le> minor (ca_amount c)"
proof -
  have "(if 0 < ca_reserveBps c then ApplyBasisPoints (ca_amount c) (ca_reserveBps c) Down else Inr (Zero (cur (ca_amount c)))) = Inr x"
    using assms(1) by (auto simp: hold_reserve_def Let_def split: if_splits)
  then show ?thesis
  proof (cases "0 < ca_reserveBps c")
    case True
    then have x: "minor x = round_ref Down (minor (ca_amount c) * ca_reserveBps c) 10000"
      using \<open>_ = Inr x\<close> ApplyBasisPoints_rate [OF assms(2), of "ca_reserveBps c" Down] assms(4) by auto
    have "0 \<le> minor x \<and> minor x \<le> minor (ca_amount c)"
      unfolding x using round_ref_between [where num = "ca_reserveBps c" and d = 10000 and x = "minor (ca_amount c)" and mode = Down] assms(3,4) True by simp
    then show ?thesis using assms(2) by (auto simp: money_ok_def in_i64_def)
  qed (use assms in \<open>auto simp: Zero_def money_ok_def in_i64_def\<close>)
qed

lemma same_transfers [same_intros]:
  "keeps (same transfers) (post_entry en e)"
  "keeps (same transfers) (seller_account i purpose cu)"
  "keeps (same transfers) (account_by_code code)"
  "keeps (same transfers) (publish en topic agg agg_id payload key)"
  "keeps (same transfers) (record_audit en ae)"
  "keeps (same transfers) (exec (update_offset oi applied ost))"
  unfolding post_entry_def seller_account_def account_by_code_def publish_def record_audit_def
  by (intro same_intros keeps_same; auto simp: update_offset_def Let_def split: if_splits)+

lemma same_transfers_offsets [same_intros]: "keeps (same transfers) (apply_offsets en payable acct cu rs applied remaining)"
  by (induction rs arbitrary: applied remaining) (auto simp: Let_def intro!: same_intros)

lemma same_transfers_release [same_intros]:
  "keeps (same transfers) (hold_reserve en c payable)"
  "keeps (same transfers) (release_at_provider en c)"
  "keeps (same transfers) (applyOffsets en s available payable)"
  "keeps (same transfers) (post_release en c payable net)"
  "keeps (same transfers) (announce_release en c reserve applied net)"
  unfolding hold_reserve_def release_at_provider_def applyOffsets_def post_release_def announce_release_def Let_def
  by (intro same_intros)+

lemma release_steps:
  assumes "releaseOne en c w = (Inr (Some (reserve, applied, net)), w')"
  shows "\<exists>payable n1 w1 w2 w3 w4 w5 w6 w7 k. hold_reserve en c payable w1 = (Inr reserve, w2) \<and> Sub (ca_amount c) reserve = Inr n1
    \<and> applyOffsets en (ca_sellerID c) n1 payable w3 = (Inr applied, w4) \<and> Sub n1 applied = Inr net
    \<and> exec (update_transfers (\<lambda>t. tr_id t = ca_transferID c) (Release (clock en))) w5 = (Inr k, w6)
    \<and> post_release en c payable net w6 = (Inr (), w7) \<and> announce_release en c reserve applied net w7 = (Inr (), w')
    \<and> transfer_status (ca_transferID c) (w_db w') = Inr ''processed''"
proof -
  have "release_tx en c w = (Inr (Some (reserve, applied, net)), w')"
    using assms by (simp add: releaseOne_def in_tx_eq_Inr)
  then obtain st w0 payable w1 w2 n1 w4 w5 k w6 w7 where "transfer_status (ca_transferID c) (w_db w) = Inr st" "w0 = w"
    "seller_account (ca_sellerID c) ''payable'' (cur (ca_amount c)) w0 = (Inr payable, w1)"
    "hold_reserve en c payable w1 = (Inr reserve, w2)" "Sub (ca_amount c) reserve = Inr n1"
    "applyOffsets en (ca_sellerID c) n1 payable w2 = (Inr applied, w4)" "Sub n1 applied = Inr net"
    "release_at_provider en c w4 = (Inr (), w5)"
    "exec (update_transfers (\<lambda>t. tr_id t = ca_transferID c) (Release (clock en))) w5 = (Inr k, w6)"
    "post_release en c payable net w6 = (Inr (), w7)" "announce_release en c reserve applied net w7 = (Inr (), w')"
    unfolding release_tx_def by (auto split: if_splits)
  note s = this
  have "transfers (w_db w5) = transfers (w_db w)"
    using s(2) same_after [OF same_transfers(2) s(3)] same_after [OF same_transfers_release(1) s(4)]
      same_after [OF same_transfers_release(3) s(6)] same_after [OF same_transfers_release(2) s(8)] by simp
  moreover have "transfers (w_db w') = transfers (w_db w6)"
    using same_after [OF same_transfers_release(4) s(10)] same_after [OF same_transfers_release(5) s(11)] by simp
  moreover have "transfers (w_db w6) = map (\<lambda>t. if tr_id t = ca_transferID c then change_transfer (Release (clock en)) t else t) (transfers (w_db w5))"
    using s(9) by (auto simp: update_transfers_def)
  moreover obtain t where "find (\<lambda>t. tr_id t = ca_transferID c) (transfers (w_db w)) = Some t"
    using s(1) by (auto simp: transfer_status_def split: option.splits)
  ultimately have "transfer_status (ca_transferID c) (w_db w') = Inr ''processed''"
    using find_marked [of "\<lambda>t. tr_id t = ca_transferID c" "transfers (w_db w)" t "change_transfer (Release (clock en))"]
    by (simp add: transfer_status_def)
  then show ?thesis using s by blast
qed



subsection \<open>Witnesses\<close>

definition demo_keyed :: world where
  "demo_keyed = \<lparr>w_db = (demo_database None)\<lparr>orders := [demo_order 31 21 StatusAwaitingPayment], items := [demo_item 41 31],
       idem_keys := [completed_key (demo_request 21) (checkoutFingerprint (demo_env 1000000) (demo_request 21)) (pub_id ''ord'' 31)]\<rparr>,
     w_fresh = 50, w_calls = [], w_order_seq = 3\<rparr>"

lemma demo_request_ok: "well_formed (demo_request 21)"
  by (simp add: well_formed_def demo_request_def)

lemma demo_keyed_order: "\<exists>o'. LoadOrder (demo_env t) (w_db demo_keyed) (pub_id ''ord'' 31) = Inr o'"
  by (simp add: demo_keyed_def demo_eval cong: bindE_weak)

lemma demo_checkout: "\<exists>o'. Checkout (demo_env 1000000) (demo_request 21) demo_keyed = (Inr o', demo_keyed) \<and> od_PublicID o' = pub_id ''ord'' 31"
proof -
  obtain o' where o: "LoadOrder (demo_env 1000000) (w_db demo_keyed) (pub_id ''ord'' 31) = Inr o'" using demo_keyed_order by blast
  have "replayCheckout (demo_env 1000000) (demo_request 21) (w_db demo_keyed) = Inr (Some o')"
    using o by (simp add: replayCheckout_def demo_keyed_def completed_key_def)
  moreover obtain country where "Checkout (demo_env 1000000) (demo_request 21) demo_keyed = in_tx (bnd (query (replayCheckout (demo_env 1000000) (demo_request 21)))
     (\<lambda>existing. case existing of Some o' \<Rightarrow> ret o' | None \<Rightarrow> place_order (demo_env 1000000) (demo_request 21) country)) demo_keyed"
    using Checkout_runs [OF demo_request_ok, of "demo_env 1000000" demo_keyed] by (auto simp: demo_request_def)
  ultimately show ?thesis using LoadOrder_order [OF o] by (auto simp: bnd_query intro!: in_tx_keep)
qed


definition demo_event :: webhook_event where
  "demo_event = \<lparr>we_EventID = ''evt_1'', we_Type = ''ping'', we_ProviderPaymentID = '''', we_ProviderIntentID = '''', we_ProviderTransferID = '''',
     we_ProviderRefundID = '''', we_ProviderDisputeID = '''', we_ProviderAccountID = '''', we_Amount = None, we_Status = '''', we_Dispute = None\<rparr>"

definition demo_hooks :: "int \<Rightarrow> env" where
  "demo_hooks now = (demo_env now)\<lparr>parse_webhook := \<lambda>h b. Inr demo_event\<rparr>"

lemma demo_hooks_eval [demo_eval]:
  "ProviderName (demo_hooks now) = ''bridge''" "parse_webhook (demo_hooks now) h b = Inr demo_event" "sha256 (demo_hooks now) x = replicate 32 (CHR ''h'')"
  by (simp_all add: demo_hooks_def demo_env_def)

lemma demo_handled: "\<exists>out w. HandleWebhook (demo_hooks 1000000) ''sig'' ''{}'' demo_start = (Inr out, w) \<and> \<not> wo_ReplayMismatch out \<and> w_calls w = []"
  by (simp add: HandleWebhook_def claim_event_def find_event_def insert_webhook_def update_webhook_def applyWebhook_def demo_event_def
      demo_start_def demo_eval commit_check_same cong: bnd_weak bindE_weak)


definition demo_settling :: world where
  "demo_settling = \<lparr>w_db = (demo_database None)\<lparr>orders := [(demo_order 31 21 StatusFulfilled)\<lparr>or_paid := Some 999600\<rparr>], items := [demo_item 41 31],
       transfers := [\<lparr>tr_id = 51, tr_payment = 47, tr_item = 41, tr_seller = 7, tr_provider = ''bridge'', tr_ref = None, tr_account = ''acc_7'',
         tr_amount = 106280, tr_currency = ''INR'', tr_status = ''on_hold'', tr_hold_until = 999700, tr_released = None, tr_reversed = 0,
         tr_failure = None\<rparr>]\<rparr>,
     w_fresh = 60, w_calls = [], w_order_seq = 3\<rparr>"

definition demo_candidate :: candidate where
  "demo_candidate = \<lparr>ca_transferID = 51, ca_providerRef = '''', ca_orderItemID = 41, ca_orderPublicID = pub_id ''ord'' 31,
     ca_orderStatus = StatusFulfilled, ca_sellerID = 7, ca_amount = \<lparr>minor = 106280, cur = ''INR''\<rparr>, ca_accountStatus = ''activated'',
     ca_kycStatus = ''verified'', ca_sellerStatus = ''active'', ca_reserveBps = 500, ca_disputes = 0\<rparr>"

lemma demo_reserve: "ApplyBasisPoints \<lparr>minor = 106280, cur = ''INR''\<rparr> 500 Down = Inr \<lparr>minor = 5314, cur = ''INR''\<rparr>"
  by (simp add: ApplyBasisPoints_rate money_ok_def in_i64_def round_ref_def round_mag_def)

lemma demo_release: "\<exists>w. releaseOne (demo_env 1000000) demo_candidate demo_settling
    = (Inr (Some (\<lparr>minor = 5314, cur = ''INR''\<rparr>, \<lparr>minor = 0, cur = ''INR''\<rparr>, \<lparr>minor = 100966, cur = ''INR''\<rparr>)), w)"
  by (simp add: releaseOne_def release_tx_def hold_reserve_def applyOffsets_def outstanding_offsets_def release_at_provider_def
      post_release_def announce_release_def transfer_status_def demo_reserve demo_settling_def demo_candidate_def demo_eval cong: bnd_weak bindE_weak)


end
