(* ===== verification/Cbor.thy ===== *)
theory Cbor
  imports GoStrings "HOL-Library.Word" "HOL-Library.While_Combinator" Complex_Main
begin

unbundle bit_operations_syntax

text \<open>
  \<open>internal/modules/provenance/cbor.go\<close>: the CBOR decoder that reads bytes out of uploaded files,
  its accessors, and the encoder of the structure a signature covers. Every slice expression of
  the source is the checked \<open>slice\<close>, whose failure is the runtime panic, and the one loop without an
  evident bound may diverge, so that the theorems can say what the source claims: no
  input panics or hangs the decoder, an item never claims more than the bytes it consumed, every
  item is self-delimiting, and what the encoder writes is read back.
\<close>

type_synonym bytes = "8 word list"

datatype cbor_error = Truncated | Nesting | Unsupported | Panicked | Diverged

subsection \<open>Slices and numbers\<close>

text \<open>\<open>b[i:j]\<close>; a Go slice may be extended up to its capacity, this model panics beyond its length.\<close>

definition slice :: "bytes \<Rightarrow> nat \<Rightarrow> nat \<Rightarrow> cbor_error + bytes" where
  "slice b i j = (if i \<le> j \<and> j \<le> length b then Inr (take (j - i) (drop i b)) else Inl Panicked)"

definition go_string :: "bytes \<Rightarrow> string" where
  "go_string b = map (\<lambda>w. char_of (unat w)) b"

definition go_bytes :: "string \<Rightarrow> bytes" where
  "go_bytes s = map (\<lambda>c. word_of_nat (of_char c)) s"

text \<open>\<open>binary.BigEndian\<close>: the value of a big-endian byte string, and the bytes of a value.\<close>

definition big_endian :: "bytes \<Rightarrow> nat" where
  "big_endian b = foldl (\<lambda>a w. 256 * a + unat w) 0 b"

fun put_big_endian :: "nat \<Rightarrow> nat \<Rightarrow> bytes" where
  "put_big_endian 0 v = []"
| "put_big_endian (Suc n) v = word_of_nat (v div 256 ^ n) # put_big_endian n v"

text \<open>
  A float is known by what \<open>==\<close> can tell of it: the two zeroes are equal and a NaN is equal to
  nothing. The bit patterns are IEEE 754 binary32 and binary64.
\<close>

datatype go_float = NaN | Infinite bool | Finite rat

definition ieee :: "nat \<Rightarrow> nat \<Rightarrow> nat \<Rightarrow> go_float" where
  "ieee ebits mbits w =
    (let sign = (if odd (w div 2 ^ (ebits + mbits)) then - 1 else 1);
         e = w div 2 ^ mbits mod 2 ^ ebits; m = w mod 2 ^ mbits; bias = 2 ^ (ebits - 1) - 1 in
     if e = 2 ^ ebits - 1 then (if m = 0 then Infinite (sign = (- 1 :: int)) else NaN)
     else Finite (of_int sign * of_nat (if e = 0 then m else 2 ^ mbits + m)
       * 2 ^ (if e = 0 then 1 else e) / 2 ^ (bias + mbits)))"

definition Float32frombits :: "32 word \<Rightarrow> go_float" where
  "Float32frombits w = ieee 8 23 (unat w)"

definition Float64frombits :: "64 word \<Rightarrow> go_float" where
  "Float64frombits w = ieee 11 52 (unat w)"

fun float_eq :: "go_float \<Rightarrow> go_float \<Rightarrow> bool" where
  "float_eq NaN _ = False"
| "float_eq x y = (x = y)"

subsection \<open>Items\<close>

text \<open>
  The tagged struct \<open>cborValue\<close>: a constructor per kind. The parallel slices \<open>mapKeys\<close> and \<open>mapVals\<close>
  are appended to together, so they are one list of pairs; its zero value is \<open>CborUint 0\<close>.
\<close>

datatype cbor_value =
    CborUint "64 word"
  | CborNegInt int
  | CborBytes bytes
  | CborText string
  | CborArray "cbor_value list"
  | CborMap "(cbor_value \<times> cbor_value) list"
  | CborTag "64 word" cbor_value
  | CborBool bool
  | CborNull
  | CborUndefined
  | CborFloat go_float

definition maxCBORNesting :: nat where "maxCBORNesting = 32"
definition maxCBORElements :: "64 word" where "maxCBORElements = 1048576"

subsection \<open>Decoding\<close>

definition decodeArgument :: "bytes \<Rightarrow> 8 word \<Rightarrow> cbor_error + 64 word \<times> nat" where
  "decodeArgument b minor =
    (let wide = (\<lambda>n. if length b < n then Inl Truncated
                 else bindE (slice b 1 n) (\<lambda>s. Inr (word_of_nat (big_endian s), n))) in
     if minor < 24 then Inr (ucast minor, 1)
     else if minor = 24 then wide 2
     else if minor = 25 then wide 3
     else if minor = 26 then wide 5
     else if minor = 27 then wide 9
     else Inl Unsupported)"

definition checkCount :: "64 word \<Rightarrow> nat \<Rightarrow> cbor_error + unit" where
  "checkCount count remaining =
    (if count > maxCBORElements then Inl Unsupported
     else if unat count > remaining then Inl Truncated else Inr ())"

text \<open>The normalising loop of a subnormal half: it would not end for a mantissa without bits.\<close>

definition normalise :: "32 word \<Rightarrow> 32 word \<Rightarrow> (32 word \<times> 32 word) option" where
  "normalise mant e = while_option (\<lambda>(mant, e). mant AND 0x400 = 0) (\<lambda>(mant, e). (push_bit 1 mant, e - 1)) (mant, e)"

definition halfToSingle :: "16 word \<Rightarrow> cbor_error + 32 word" where
  "halfToSingle h =
    (let sign = push_bit 16 (ucast (h AND 0x8000)) :: 32 word;
         e = drop_bit 10 h AND 0x1f; mant = ucast (h AND 0x03ff) :: 32 word in
     if e = 0 then
       (if mant = 0 then Inr sign
        else case normalise mant (127 - 15 + 1) of
            None \<Rightarrow> Inl Diverged
          | Some (m, x) \<Rightarrow> Inr (sign OR push_bit 23 x OR push_bit 13 (m AND 0x3ff)))
     else if e = 0x1f then Inr (sign OR 0x7f800000 OR push_bit 13 mant)
     else Inr (sign OR push_bit 23 (ucast e - 15 + 127) OR push_bit 13 mant))"

text \<open>The cases of the switch on the major type that do not recurse.\<close>

definition decode_string :: "8 word \<Rightarrow> 64 word \<Rightarrow> nat \<Rightarrow> bytes \<Rightarrow> cbor_error + cbor_value \<times> nat" where
  "decode_string major arg n rest =
    (if unat arg > length rest then Inl Truncated
     else bindE (slice rest 0 (unat arg)) (\<lambda>payload.
       Inr (if major = 2 then CborBytes payload else CborText (go_string payload), n + unat arg)))"

definition decode_simple :: "8 word \<Rightarrow> 64 word \<Rightarrow> nat \<Rightarrow> cbor_error + cbor_value \<times> nat" where
  "decode_simple minor arg n =
    (if minor = 20 then Inr (CborBool False, n)
     else if minor = 21 then Inr (CborBool True, n)
     else if minor = 22 then Inr (CborNull, n)
     else if minor = 23 then Inr (CborUndefined, n)
     else if minor = 25 then bindE (halfToSingle (ucast arg)) (\<lambda>w. Inr (CborFloat (Float32frombits w), n))
     else if minor = 26 then Inr (CborFloat (Float32frombits (ucast arg)), n)
     else if minor = 27 then Inr (CborFloat (Float64frombits arg), n)
     else Inl Unsupported)"

definition decode_neg :: "64 word \<Rightarrow> nat \<Rightarrow> cbor_error + cbor_value \<times> nat" where
  "decode_neg arg n = (if unat arg > 2 ^ 63 - 1 then Inl Unsupported else Inr (CborNegInt (- 1 - uint arg), n))"

text \<open>
  \<open>decodeCBORAt\<close> and the loops of its arrays and maps: \<open>decode_items b depth off k\<close> reads \<open>k\<close> more
  elements of \<open>b\<close> from \<open>off\<close> and returns them with the offset after the last.
\<close>

function decodeCBORAt :: "bytes \<Rightarrow> nat \<Rightarrow> cbor_error + cbor_value \<times> nat"
  and decode_items :: "bytes \<Rightarrow> nat \<Rightarrow> nat \<Rightarrow> nat \<Rightarrow> cbor_error + cbor_value list \<times> nat"
  and decode_pairs :: "bytes \<Rightarrow> nat \<Rightarrow> nat \<Rightarrow> nat \<Rightarrow> cbor_error + (cbor_value \<times> cbor_value) list \<times> nat" where
  "decodeCBORAt b depth =
    (if depth > maxCBORNesting then Inl Nesting
     else if b = [] then Inl Truncated
     else let major = drop_bit 5 (hd b); minor = hd b AND 0x1f in
     bindE (decodeArgument b minor) (\<lambda>(arg, n).
     bindE (slice b n (length b)) (\<lambda>rest.
     if major = 0 then Inr (CborUint arg, n)
     else if major = 1 then decode_neg arg n
     else if major = 2 \<or> major = 3 then decode_string major arg n rest
     else if major = 4 then
       bindE (checkCount arg (length rest)) (\<lambda>_.
       bindE (decode_items b depth n (unat arg)) (\<lambda>(items, off). Inr (CborArray items, off)))
     else if major = 5 then
       bindE (checkCount arg (length rest)) (\<lambda>_.
       bindE (decode_pairs b depth n (unat arg)) (\<lambda>(pairs, off). Inr (CborMap pairs, off)))
     else if major = 6 then
       bindE (decodeCBORAt rest (depth + 1)) (\<lambda>(inner, used). Inr (CborTag arg inner, n + used))
     else if major = 7 then decode_simple minor arg n
     else Inl Unsupported)))"
| "decode_items b depth off 0 = Inr ([], off)"
| "decode_items b depth off (Suc k) =
     bindE (slice b off (length b)) (\<lambda>s.
     bindE (decodeCBORAt s (depth + 1)) (\<lambda>(item, used).
     bindE (decode_items b depth (off + used) k) (\<lambda>(items, end). Inr (item # items, end))))"
| "decode_pairs b depth off 0 = Inr ([], off)"
| "decode_pairs b depth off (Suc k) =
     bindE (slice b off (length b)) (\<lambda>s.
     bindE (decodeCBORAt s (depth + 1)) (\<lambda>(key, used).
     bindE (slice b (off + used) (length b)) (\<lambda>s.
     bindE (decodeCBORAt s (depth + 1)) (\<lambda>(val, used').
     bindE (decode_pairs b depth (off + used + used') k) (\<lambda>(pairs, end). Inr ((key, val) # pairs, end))))))"
  by pat_completeness auto

text \<open>Nesting bounds the recursion, whatever the input says.\<close>

termination
  by (relation "measures [case_sum (\<lambda>(b, depth). 2 * (34 - depth))
      (case_sum (\<lambda>(b, depth, off, k). 2 * (34 - depth) - 1) (\<lambda>(b, depth, off, k). 2 * (34 - depth) - 1)),
      case_sum (\<lambda>_. 0) (case_sum (\<lambda>(b, depth, off, k). Suc k) (\<lambda>(b, depth, off, k). Suc k))]")
    (auto simp: maxCBORNesting_def)

declare decodeCBORAt.simps [simp del]

definition decodeCBOR :: "bytes \<Rightarrow> cbor_error + cbor_value \<times> nat" where
  "decodeCBOR b = decodeCBORAt b 0"

subsection \<open>Accessors\<close>

definition as_uint :: "int \<Rightarrow> 64 word" where "as_uint n = word_of_int n"

fun lookup :: "cbor_value \<Rightarrow> int \<Rightarrow> cbor_value option" where
  "lookup (CborMap ps) label =
    map_option snd (find (\<lambda>(k, v). case k of CborUint u \<Rightarrow> label \<ge> 0 \<and> u = as_uint label
                                       | CborNegInt n \<Rightarrow> n = label | _ \<Rightarrow> False) ps)"
| "lookup _ label = None"

fun lookupText :: "cbor_value \<Rightarrow> string \<Rightarrow> cbor_value option" where
  "lookupText (CborMap ps) key = map_option snd (find (\<lambda>(k, v). k = CborText key) ps)"
| "lookupText _ key = None"

fun asBytes :: "cbor_value \<Rightarrow> bytes option" where
  "asBytes (CborBytes b) = Some b"
| "asBytes _ = None"

fun asText :: "cbor_value \<Rightarrow> string option" where
  "asText (CborText s) = Some s"
| "asText _ = None"

fun asInt :: "cbor_value \<Rightarrow> int option" where
  "asInt (CborUint u) = (if unat u > 2 ^ 63 - 1 then None else Some (uint u))"
| "asInt (CborNegInt n) = Some n"
| "asInt _ = None"

fun untag :: "cbor_value \<Rightarrow> cbor_value" where
  "untag (CborTag t v) = untag v"
| "untag v = v"

subsection \<open>Encoding\<close>

definition encodeCBORHead :: "8 word \<Rightarrow> 64 word \<Rightarrow> bytes" where
  "encodeCBORHead major arg =
    (if arg < 24 then [push_bit 5 major OR ucast arg]
     else if unat arg \<le> 255 then (push_bit 5 major OR 24) # put_big_endian 1 (unat arg)
     else if unat arg \<le> 65535 then (push_bit 5 major OR 25) # put_big_endian 2 (unat arg)
     else if unat arg \<le> 4294967295 then (push_bit 5 major OR 26) # put_big_endian 4 (unat arg)
     else (push_bit 5 major OR 27) # put_big_endian 8 (unat arg))"

definition encodeCBORBytes :: "bytes \<Rightarrow> bytes" where
  "encodeCBORBytes b = encodeCBORHead 2 (word_of_nat (length b)) @ b"

definition encodeCBORText :: "string \<Rightarrow> bytes" where
  "encodeCBORText s = encodeCBORHead 3 (word_of_nat (length s)) @ go_bytes s"

definition encodeCBORArray :: "bytes list \<Rightarrow> bytes" where
  "encodeCBORArray items = foldl (@) (encodeCBORHead 4 (word_of_nat (length items))) items"


subsection \<open>What an input can cost\<close>

lemma slice_suffix [simp]: "n \<le> length b \<Longrightarrow> slice b n (length b) = Inr (drop n b)"
  by (simp add: slice_def)

lemma slice_payload [simp]: "n \<le> length b \<Longrightarrow> slice b 0 n = Inr (take n b)"
  by (simp add: slice_def)

lemma slice_eq_Inr: "slice b i j = Inr s \<longleftrightarrow> i \<le> j \<and> j \<le> length b \<and> s = take (j - i) (drop i b)"
  by (auto simp: slice_def)

lemma length_go_string [simp]: "length (go_string b) = length b"
  by (simp add: go_string_def)

lemma decodeArgument_shape:
  "decodeArgument b minor = Inl Truncated \<or> decodeArgument b minor = Inl Unsupported
   \<or> (\<exists>arg n. decodeArgument b minor = Inr (arg, n) \<and> 0 < n \<and> (b \<noteq> [] \<longrightarrow> n \<le> length b))"
  unfolding decodeArgument_def Let_def by (cases b) (auto simp: slice_def not_less Suc_le_eq)

lemma decodeArgument_Inr: "decodeArgument b minor = Inr (arg, n) \<Longrightarrow> b \<noteq> [] \<Longrightarrow> 0 < n \<and> n \<le> length b"
  using decodeArgument_shape [of b minor] by auto

text \<open>What an item occupies: one byte for each item in it, and its payload.\<close>

fun weight :: "cbor_value \<Rightarrow> nat" where
  "weight (CborBytes b) = 1 + length b"
| "weight (CborText s) = 1 + length s"
| "weight (CborArray vs) = 1 + sum_list (map weight vs)"
| "weight (CborMap ps) = 1 + sum_list (map (\<lambda>(k, v). weight k + weight v) ps)"
| "weight (CborTag t v) = 1 + weight v"
| "weight _ = 1"

fun height :: "cbor_value \<Rightarrow> nat" where
  "height (CborArray vs) = 1 + foldr max (map height vs) 0"
| "height (CborMap ps) = 1 + foldr max (map (\<lambda>(k, v). max (height k) (height v)) ps) 0"
| "height (CborTag t v) = 1 + height v"
| "height _ = 1"

lemma decode_simple_Inr:
  "decode_simple minor arg n = Inr (v, m) \<Longrightarrow> m = n \<and> weight v = 1 \<and> height v = 1"
  by (auto simp: decode_simple_def split: if_splits)

lemma decode_step:
  assumes "depth \<le> maxCBORNesting" and "b \<noteq> []" and "decodeArgument b (hd b AND 0x1f) = Inr (arg, n)"
  shows "decodeCBORAt b depth = (let major = drop_bit 5 (hd b) in
     if major = 0 then Inr (CborUint arg, n)
     else if major = 1 then decode_neg arg n
     else if major = 2 \<or> major = 3 then decode_string major arg n (drop n b)
     else if major = 4 then bindE (checkCount arg (length b - n)) (\<lambda>_.
       bindE (decode_items b depth n (unat arg)) (\<lambda>(items, off). Inr (CborArray items, off)))
     else if major = 5 then bindE (checkCount arg (length b - n)) (\<lambda>_.
       bindE (decode_pairs b depth n (unat arg)) (\<lambda>(pairs, off). Inr (CborMap pairs, off)))
     else if major = 6 then bindE (decodeCBORAt (drop n b) (depth + 1)) (\<lambda>(inner, used). Inr (CborTag arg inner, n + used))
     else if major = 7 then decode_simple (hd b AND 0x1f) arg n
     else Inl Unsupported)"
  using assms decodeArgument_Inr [OF assms(3,2)] by (simp add: decodeCBORAt.simps [of b] Let_def)

lemma decode_Inr:
  assumes "decodeCBORAt b depth = Inr r"
  obtains arg n where "depth \<le> maxCBORNesting" "b \<noteq> []" "decodeArgument b (hd b AND 0x1f) = Inr (arg, n)" "0 < n" "n \<le> length b"
proof -
  have d: "depth \<le> maxCBORNesting" "b \<noteq> []" using assms by (auto simp: decodeCBORAt.simps [of b] split: if_splits)
  then obtain arg n where "decodeArgument b (hd b AND 0x1f) = Inr (arg, n)"
    using assms by (auto simp: decodeCBORAt.simps [of b] Let_def)
  then show ?thesis using that d decodeArgument_Inr by blast
qed

lemma decode_cases:
  assumes "decodeCBORAt b depth = Inr (v, n)"
  obtains (leaf) arg where "decodeArgument b (hd b AND 0x1f) = Inr (arg, n)" "weight v = 1" "height v = 1"
    | (payload) arg m where "decodeArgument b (hd b AND 0x1f) = Inr (arg, m)" "weight v = 1 + unat arg" "height v = 1"
        "n = m + unat arg" "n \<le> length b"
    | (array) arg m vs where "decodeArgument b (hd b AND 0x1f) = Inr (arg, m)" "v = CborArray vs"
        "checkCount arg (length b - m) = Inr ()" "decode_items b depth m (unat arg) = Inr (vs, n)"
    | (map) arg m ps where "decodeArgument b (hd b AND 0x1f) = Inr (arg, m)" "v = CborMap ps"
        "checkCount arg (length b - m) = Inr ()" "decode_pairs b depth m (unat arg) = Inr (ps, n)"
    | (tag) arg m used inner where "decodeArgument b (hd b AND 0x1f) = Inr (arg, m)" "v = CborTag arg inner"
        "decodeCBORAt (drop m b) (depth + 1) = Inr (inner, used)" "n = m + used"
proof -
  from assms obtain arg m where d: "depth \<le> maxCBORNesting" "b \<noteq> []" and a: "decodeArgument b (hd b AND 0x1f) = Inr (arg, m)" "m \<le> length b"
    by (rule decode_Inr)
  define major where "major = drop_bit 5 (hd b)"
  note run = assms [unfolded decode_step [OF d a(1)] Let_def, folded major_def]
  consider "major = 0" | "major = 1" | "major = 2 \<or> major = 3" | "major = 4" | "major = 5" | "major = 6" | "major = 7"
    using run by (auto split: if_splits)
  then show ?thesis
  proof cases
    case 1 then show ?thesis using run a(1) by (intro leaf [of arg]) auto
  next
    case 2 then show ?thesis using run leaf a(1) by (auto simp: decode_neg_def split: if_splits)
  next
    case 3
    then have "decode_string major arg m (drop m b) = Inr (v, n)" using run by auto
    then show ?thesis using payload [OF a(1)] a(2) by (auto simp: decode_string_def split: if_splits)
  next
    case 4 then show ?thesis using run array [OF a(1)] by auto
  next
    case 5 then show ?thesis using run map [OF a(1)] by auto
  next
    case 6 then show ?thesis using run tag [OF a(1)] by auto
  next
    case 7 then show ?thesis using run leaf a(1) by (auto dest!: decode_simple_Inr)
  qed
qed

lemma depth_induct [case_names deep item]:
  assumes "\<And>b depth. maxCBORNesting < depth \<Longrightarrow> P b depth"
    and "\<And>b depth. depth \<le> maxCBORNesting \<Longrightarrow> (\<And>b. P b (depth + 1)) \<Longrightarrow> P b depth"
  shows "P b depth"
proof (induction "maxCBORNesting + 1 - depth" arbitrary: b depth)
  case 0
  then show ?case using assms(1) [of depth b] by simp
next
  case (Suc x)
  then have "x = maxCBORNesting + 1 - (depth + 1)" "depth \<le> maxCBORNesting" by simp_all
  then show ?case using Suc.hyps(1) assms(2) by blast
qed

lemma decode_deep: "maxCBORNesting < depth \<Longrightarrow> decodeCBORAt b depth = Inl Nesting"
  by (simp add: decodeCBORAt.simps [of b])

text \<open>The three bounds of an item, and of the elements read from an offset.\<close>

definition item_bounds :: "bytes \<Rightarrow> nat \<Rightarrow> bool" where
  "item_bounds b depth \<longleftrightarrow> (\<forall>v n. decodeCBORAt b depth = Inr (v, n) \<longrightarrow>
     0 < n \<and> n \<le> length b \<and> weight v \<le> n \<and> depth + height v \<le> maxCBORNesting + 1)"

lemma items_bounds:
  assumes "\<And>b. item_bounds b (depth + 1)" and "decode_items b depth off k = Inr (vs, e)" and "off \<le> length b" "depth \<le> maxCBORNesting"
  shows "length vs = k \<and> off + k \<le> e \<and> e \<le> length b \<and> sum_list (map weight vs) \<le> e - off
    \<and> depth + foldr max (map height vs) 0 \<le> maxCBORNesting"
  using assms(2-4)
proof (induction k arbitrary: off vs)
  case (Suc k)
  then obtain v used us where 1: "decodeCBORAt (drop off b) (depth + 1) = Inr (v, used)"
    and 2: "decode_items b depth (off + used) k = Inr (us, e)" and vs: "vs = v # us"
    by auto
  have v: "0 < used" "used \<le> length b - off" "weight v \<le> used" "depth + height v \<le> maxCBORNesting"
    using assms(1) [of "drop off b"] 1 by (auto simp: item_bounds_def)
  with Suc.IH [OF 2] Suc.prems have "length us = k \<and> off + used + k \<le> e \<and> e \<le> length b
      \<and> sum_list (map weight us) \<le> e - (off + used) \<and> depth + foldr max (map height us) 0 \<le> maxCBORNesting" by simp
  then show ?case using v vs by auto
qed auto

lemma pairs_bounds:
  assumes "\<And>b. item_bounds b (depth + 1)" and "decode_pairs b depth off k = Inr (ps, e)" and "off \<le> length b" "depth \<le> maxCBORNesting"
  shows "length ps = k \<and> off + k \<le> e \<and> e \<le> length b \<and> sum_list (map (\<lambda>(k, v). weight k + weight v) ps) \<le> e - off
    \<and> depth + foldr max (map (\<lambda>(k, v). max (height k) (height v)) ps) 0 \<le> maxCBORNesting"
  using assms(2-4)
proof (induction k arbitrary: off ps)
  case (Suc k)
  then obtain key val used used' qs where 1: "decodeCBORAt (drop off b) (depth + 1) = Inr (key, used)"
    and 2: "off + used \<le> length b" "decodeCBORAt (drop (off + used) b) (depth + 1) = Inr (val, used')"
    and 3: "decode_pairs b depth (off + used + used') k = Inr (qs, e)" and ps: "ps = (key, val) # qs"
    by (auto simp: slice_eq_Inr)
  have k: "0 < used" "used \<le> length b - off" "weight key \<le> used" "depth + height key \<le> maxCBORNesting"
    using assms(1) [of "drop off b"] 1 by (auto simp: item_bounds_def)
  have v: "0 < used'" "used' \<le> length b - (off + used)" "weight val \<le> used'" "depth + height val \<le> maxCBORNesting"
    using assms(1) [of "drop (off + used) b"] 2 by (auto simp: item_bounds_def)
  from Suc.IH [OF 3] v(2) 2(1) Suc.prems(3) have "length qs = k \<and> off + used + used' + k \<le> e \<and> e \<le> length b
      \<and> sum_list (map (\<lambda>(k, v). weight k + weight v) qs) \<le> e - (off + used + used')
      \<and> depth + foldr max (map (\<lambda>(k, v). max (height k) (height v)) qs) 0 \<le> maxCBORNesting" by simp
  then show ?case using k v ps by auto
qed auto

lemma decode_bounds: "item_bounds b depth"
proof (induction b depth rule: depth_induct)
  case (deep b depth)
  then show ?case by (simp add: item_bounds_def decode_deep)
next
  case (item b depth)
  have "0 < n \<and> n \<le> length b \<and> weight v \<le> n \<and> depth + height v \<le> maxCBORNesting + 1" if r: "decodeCBORAt b depth = Inr (v, n)" for v n
  proof -
    have b: "b \<noteq> []" using r by (rule decode_Inr)
    from r show ?thesis
  proof (cases rule: decode_cases)
    case (leaf arg)
    then show ?thesis using decodeArgument_Inr [OF leaf(1) b] item(1) by auto
  next
    case (payload arg m)
    then show ?thesis using decodeArgument_Inr [OF payload(1) b] item(1) payload by auto
  next
    case (array arg m vs)
    then have m: "0 < m" "m \<le> length b" using decodeArgument_Inr b by blast+
    from items_bounds [OF item(2) array(4) m(2) item(1)] show ?thesis using array(2) m by auto
  next
    case (map arg m ps)
    then have m: "0 < m" "m \<le> length b" using decodeArgument_Inr b by blast+
    from pairs_bounds [OF item(2) map(4) m(2) item(1)] show ?thesis using map(2) m by auto
  next
    case (tag arg m used inner)
    then have m: "0 < m" "m \<le> length b" using decodeArgument_Inr b by blast+
    then show ?thesis using tag item(2) [of "drop m b"] by (auto simp: item_bounds_def)
  qed
  qed
  then show ?case by (simp add: item_bounds_def)
qed

text \<open>C12: whatever a file claims, an item occupies at least one byte and no more than are there,
  the decoded value is no larger than the bytes it came from (one for each item in it, and its
  strings), and it is nested at most 33 deep.\<close>

theorem cbor_bounds:
  assumes "decodeCBOR b = Inr (v, n)"
  shows "0 < n \<and> n \<le> length b \<and> weight v \<le> n \<and> height v \<le> 33"
  using decode_bounds [of b 0] assms by (auto simp: item_bounds_def decodeCBOR_def maxCBORNesting_def)


subsection \<open>No input panics or hangs\<close>

text \<open>The loop ends: a mantissa of ten bits that is not zero reaches the eleventh in at most ten turns.\<close>

lemma bit10_clear:
  fixes m :: "32 word"
  assumes "unat m < 2048" shows "m AND 0x400 = 0 \<longleftrightarrow> unat m < 1024"
proof -
  have "(0x400 :: 32 word) = 2 ^ 10" by simp
  then have "m AND 0x400 = 0 \<longleftrightarrow> \<not> bit m 10" by (simp only: and_exp_eq_0_iff_not_bit)
  also have "\<dots> \<longleftrightarrow> \<not> bit (unat m) 10" by (simp add: bit_unsigned_iff)
  also have "\<dots> \<longleftrightarrow> even (unat m div 1024)" by (simp add: bit_iff_odd)
  also have "\<dots> \<longleftrightarrow> unat m < 1024"
  proof
    assume e: "even (unat m div 1024)"
    have "unat m div 1024 < 2" using assms by (simp add: less_mult_imp_div_less)
    then have "unat m div 1024 = 0" using e by (cases "unat m div 1024") auto
    then show "unat m < 1024" by (simp add: div_eq_0_iff)
  qed simp
  finally show ?thesis .
qed

lemma unat_double: "unat m < 1024 \<Longrightarrow> unat (push_bit 1 m) = 2 * unat m" for m :: "32 word"
  by (simp add: push_bit_eq_mult unat_word_ariths)

lemma normalise_returns:
  assumes "mant \<noteq> 0" and "unat mant < 1024"
  shows "\<exists>r. normalise mant e = Some r"
  unfolding normalise_def
proof (rule measure_while_option_Some [where P = "\<lambda>(m, e). 0 < unat m \<and> unat m < 2048" and f = "\<lambda>(m, e). 2048 - unat m"])
  show "case (mant, e) of (m, e) \<Rightarrow> 0 < unat m \<and> unat m < 2048" using assms by (simp add: unat_gt_0)
next
  fix s :: "32 word \<times> 32 word"
  assume p: "case s of (m, e) \<Rightarrow> 0 < unat m \<and> unat m < 2048" and b: "case s of (m, e) \<Rightarrow> m AND 0x400 = 0"
  obtain m e where s: "s = (m, e)" by (cases s)
  have m: "unat m < 1024" "0 < unat m" using p b bit10_clear [of m] by (simp_all add: s)
  then show "(case case s of (m, e) \<Rightarrow> (push_bit 1 m, e - 1) of (m, e) \<Rightarrow> 0 < unat m \<and> unat m < 2048)
      \<and> (case case s of (m, e) \<Rightarrow> (push_bit 1 m, e - 1) of (m, e) \<Rightarrow> 2048 - unat m) < (case s of (m, e) \<Rightarrow> 2048 - unat m)"
    using unat_double [OF m(1)] by (simp add: s)
qed

lemma half_mantissa: "unat (ucast (h AND 0x03ff) :: 32 word) < 1024" for h :: "16 word"
proof -
  have "h AND 0x03ff = take_bit 10 h" by (simp add: take_bit_eq_mask mask_eq_exp_minus_1)
  then have "unat (h AND 0x03ff) = take_bit 10 (unat h)" by (simp add: unsigned_take_bit_eq)
  then have "unat (h AND 0x03ff) < 1024" using take_bit_nat_less_exp [of 10 "unat h"] by simp
  then show ?thesis by (simp add: unsigned_ucast_eq take_bit_nat_eq_self)
qed

lemma halfToSingle_returns: "\<exists>w. halfToSingle h = Inr w"
proof (cases "(ucast (h AND 0x03ff) :: 32 word) = 0")
  case True
  then show ?thesis unfolding halfToSingle_def Let_def by (simp only: if_True split: if_split) blast
next
  case False
  obtain m x where "normalise (ucast (h AND 0x03ff)) (127 - 15 + 1) = Some (m, x)"
    using normalise_returns [OF False half_mantissa] by force
  then show ?thesis unfolding halfToSingle_def Let_def by (simp only: False if_False option.case prod.case split: if_split) blast
qed

definition benign :: "cbor_error + 'a \<Rightarrow> bool" where
  "benign r \<longleftrightarrow> r \<noteq> Inl Panicked \<and> r \<noteq> Inl Diverged"

lemma benign_simps [simp]: "benign (Inr x)" "benign (Inl Truncated)" "benign (Inl Unsupported)" "benign (Inl Nesting)"
  by (simp_all add: benign_def)

lemma benign_bindE: "benign m \<Longrightarrow> (\<And>x. m = Inr x \<Longrightarrow> benign (f x)) \<Longrightarrow> benign (bindE m f)"
  by (cases m) (auto simp: benign_def)

lemma benign_leaves:
  "benign (decode_neg arg n)" "benign (decode_string major arg n rest)" "benign (checkCount arg k)"
  by (simp_all add: decode_neg_def decode_string_def checkCount_def not_less)

lemma benign_simple: "benign (decode_simple minor arg n)"
proof -
  obtain w where "halfToSingle (ucast arg) = Inr w" using halfToSingle_returns by blast
  then show ?thesis by (simp add: decode_simple_def)
qed

lemma benign_items:
  assumes "\<And>b. benign (decodeCBORAt b (depth + 1))" and "off \<le> length b"
  shows "benign (decode_items b depth off k)"
  using assms(2)
proof (induction k arbitrary: off)
  case (Suc k)
  have "benign (decode_items b depth (off + used) k)" if "decodeCBORAt (drop off b) (depth + 1) = Inr (v, used)" for v used
    using decode_bounds [of "drop off b" "depth + 1"] that Suc by (intro Suc.IH) (auto simp: item_bounds_def)
  then show ?case using assms(1) [of "drop off b"] Suc.prems by (auto intro!: benign_bindE)
qed simp

lemma benign_pairs:
  assumes "\<And>b. benign (decodeCBORAt b (depth + 1))" and "off \<le> length b"
  shows "benign (decode_pairs b depth off k)"
  using assms(2)
proof (induction k arbitrary: off)
  case (Suc k)
  have B: "used \<le> length b - o'" if "decodeCBORAt (drop o' b) (depth + 1) = Inr (v, used)" for v used o'
    using decode_bounds [of "drop o' b" "depth + 1"] that by (auto simp: item_bounds_def)
  have "benign (decodeCBORAt s (depth + 1))" for s by (rule assms(1))
  moreover have "slice b (off + used) (length b) = Inr (drop (off + used) b)" if "decodeCBORAt (drop off b) (depth + 1) = Inr (key, used)" for key used
    using B [OF that] Suc.prems by simp
  moreover have "benign (decode_pairs b depth (off + used + used') k)" if "decodeCBORAt (drop off b) (depth + 1) = Inr (key, used)"
      "decodeCBORAt (drop (off + used) b) (depth + 1) = Inr (val, used')" for key used val used'
    using B [OF that(1)] B [OF that(2)] Suc.prems by (intro Suc.IH) simp
  ultimately show ?case using Suc.prems by (auto intro!: benign_bindE)
qed simp

lemma benign_decode: "benign (decodeCBORAt b depth)"
proof (induction b depth rule: depth_induct)
  case (deep b depth)
  then show ?case by (simp add: decode_deep)
next
  case (item b depth)
  show ?case
  proof (cases "b = []")
    case True
    then show ?thesis using item(1) by (simp add: decodeCBORAt.simps)
  next
    case False
    consider e where "decodeArgument b (hd b AND 0x1f) = Inl e" "benign (Inl e :: cbor_error + unit)"
      | arg n where "decodeArgument b (hd b AND 0x1f) = Inr (arg, n)" "n \<le> length b"
      using decodeArgument_shape [of b "hd b AND 0x1f"] False by force
    then show ?thesis
    proof cases
      case (1 e)
      then show ?thesis using False item(1) by (simp add: decodeCBORAt.simps [of b] Let_def benign_def)
    next
      case (2 arg n)
      then show ?thesis using item benign_items [OF item(2) 2(2)] benign_pairs [OF item(2) 2(2)]
        by (simp add: decode_step [OF item(1) False 2(1)] Let_def benign_leaves benign_simple benign_bindE split_beta)
    qed
  qed
qed

text \<open>C13: whatever bytes an uploaded file holds, the decoder returns: it never slices out of range,
  its one open-ended loop ends, and the answer is an item or one of its three errors.\<close>

theorem cbor_total: "(\<exists>v n. decodeCBOR b = Inr (v, n)) \<or> decodeCBOR b \<in> {Inl Truncated, Inl Nesting, Inl Unsupported}"
proof (cases "decodeCBOR b")
  case (Inl e)
  then show ?thesis using benign_decode [of b 0] by (cases e) (simp_all add: decodeCBOR_def benign_def)
qed auto


subsection \<open>Items are self-delimiting\<close>

definition agree :: "nat \<Rightarrow> bytes \<Rightarrow> bytes \<Rightarrow> bool" where
  "agree n b c \<longleftrightarrow> n \<le> length b \<and> n \<le> length c \<and> take n b = take n c"

lemma agree_mono: "agree n b c \<Longrightarrow> m \<le> n \<Longrightarrow> agree m b c"
  unfolding agree_def by (metis le_trans min.absorb1 take_take)

lemma agree_drop: "agree n b c \<Longrightarrow> m \<le> n \<Longrightarrow> agree (n - m) (drop m b) (drop m c)"
  by (auto simp: agree_def take_drop [symmetric] drop_take [symmetric])

lemma agree_hd: "agree n b c \<Longrightarrow> 0 < n \<Longrightarrow> hd c = hd b \<and> c \<noteq> [] \<and> b \<noteq> []"
  by (cases b; cases c; cases n) (auto simp: agree_def)

lemma agree_slice: "agree n b c \<Longrightarrow> slice b 1 n = Inr s \<Longrightarrow> slice c 1 n = Inr s"
  by (auto simp: agree_def slice_def split: if_splits) (metis drop_take One_nat_def)

lemma decodeArgument_agree:
  assumes "decodeArgument b minor = Inr (arg, m)" and "agree m b c"
  shows "decodeArgument c minor = Inr (arg, m)"
  using assms agree_slice [OF assms(2)] unfolding decodeArgument_def Let_def
  by (auto simp: agree_def split: if_splits)

lemma decodeArgument_short:
  assumes "decodeArgument b minor = Inr (arg, m)" and "0 < k" "k < m"
  shows "decodeArgument (take k b) minor = Inl Truncated"
  using assms unfolding decodeArgument_def Let_def by (auto split: if_splits)

lemma checkCount_less: "checkCount arg k = Inr () \<Longrightarrow> unat arg \<le> j \<Longrightarrow> checkCount arg j = Inr ()"
  by (auto simp: checkCount_def split: if_splits)

lemma checkCount_short: "checkCount arg k = Inr () \<Longrightarrow> checkCount arg j = Inr () \<or> checkCount arg j = Inl Truncated"
  by (auto simp: checkCount_def split: if_splits)

definition local_at :: "nat \<Rightarrow> bool" where
  "local_at depth \<longleftrightarrow> (\<forall>b c v n. decodeCBORAt b depth = Inr (v, n) \<longrightarrow> agree n b c \<longrightarrow> decodeCBORAt c depth = Inr (v, n))"

lemma local_atD: "local_at depth \<Longrightarrow> decodeCBORAt b depth = Inr (v, n) \<Longrightarrow> agree n b c \<Longrightarrow> decodeCBORAt c depth = Inr (v, n)"
  unfolding local_at_def by blast

lemma items_agree:
  assumes "local_at (depth + 1)" and "decode_items b depth off k = Inr (vs, e)" and "off \<le> length b" "depth \<le> maxCBORNesting" and "agree e b c"
  shows "decode_items c depth off k = Inr (vs, e)"
  using assms(2,3)
proof (induction k arbitrary: off vs)
  case (Suc k)
  then obtain v used us where 1: "decodeCBORAt (drop off b) (depth + 1) = Inr (v, used)"
    and 2: "decode_items b depth (off + used) k = Inr (us, e)" and vs: "vs = v # us"
    by auto
  have u: "off + used \<le> length b" using decode_bounds [of "drop off b" "depth + 1"] 1 Suc.prems(2) by (auto simp: item_bounds_def)
  have e: "off + used \<le> e" using items_bounds [OF decode_bounds 2 u assms(4)] by simp
  have "agree used (drop off b) (drop off c)" using agree_mono [OF agree_drop [OF assms(5), of off]] e by simp
  then have "decodeCBORAt (drop off c) (depth + 1) = Inr (v, used)" by (rule local_atD [OF assms(1) 1])
  moreover have "off \<le> length c" using assms(5) e by (simp add: agree_def)
  ultimately show ?case using Suc.IH [OF 2 u] vs by simp
qed simp

lemma pairs_agree:
  assumes "local_at (depth + 1)" and "decode_pairs b depth off k = Inr (ps, e)" and "off \<le> length b" "depth \<le> maxCBORNesting" and "agree e b c"
  shows "decode_pairs c depth off k = Inr (ps, e)"
  using assms(2,3)
proof (induction k arbitrary: off ps)
  case (Suc k)
  then obtain key val used used' qs where 1: "decodeCBORAt (drop off b) (depth + 1) = Inr (key, used)"
    and 2: "off + used \<le> length b" "decodeCBORAt (drop (off + used) b) (depth + 1) = Inr (val, used')"
    and 3: "decode_pairs b depth (off + used + used') k = Inr (qs, e)" and ps: "ps = (key, val) # qs"
    by (auto simp: slice_eq_Inr)
  have u: "off + used + used' \<le> length b" using decode_bounds [of "drop (off + used) b" "depth + 1"] 2 by (auto simp: item_bounds_def)
  have e: "off + used + used' \<le> e" using pairs_bounds [OF decode_bounds 3 u assms(4)] by simp
  have "agree used (drop off b) (drop off c)" using agree_mono [OF agree_drop [OF assms(5), of off]] e by simp
  then have "decodeCBORAt (drop off c) (depth + 1) = Inr (key, used)" by (rule local_atD [OF assms(1) 1])
  moreover have "agree used' (drop (off + used) b) (drop (off + used) c)" using agree_mono [OF agree_drop [OF assms(5), of "off + used"]] e by simp
  then have "decodeCBORAt (drop (off + used) c) (depth + 1) = Inr (val, used')" by (rule local_atD [OF assms(1) 2(2)])
  moreover have "off + used + used' \<le> length c" using assms(5) e by (simp add: agree_def)
  ultimately show ?case using Suc.IH [OF 3 u] ps by simp
qed simp

lemma major_cases:
  assumes "decodeCBORAt b depth = Inr (v, n)" and "decodeArgument b (hd b AND 0x1f) = Inr (arg, m)"
  obtains (uint) "drop_bit 5 (hd b) = 0" "v = CborUint arg" "n = m"
    | (neg) "drop_bit 5 (hd b) = 1" "decode_neg arg m = Inr (v, n)" "n = m"
    | (str) major where "drop_bit 5 (hd b) = major" "major = 2 \<or> major = 3" "decode_string major arg m (drop m b) = Inr (v, n)"
    | (array) vs where "drop_bit 5 (hd b) = 4" "checkCount arg (length b - m) = Inr ()" "decode_items b depth m (unat arg) = Inr (vs, n)" "v = CborArray vs"
    | (map) ps where "drop_bit 5 (hd b) = 5" "checkCount arg (length b - m) = Inr ()" "decode_pairs b depth m (unat arg) = Inr (ps, n)" "v = CborMap ps"
    | (tag) inner used where "drop_bit 5 (hd b) = 6" "decodeCBORAt (drop m b) (depth + 1) = Inr (inner, used)" "v = CborTag arg inner" "n = m + used"
    | (simple) "drop_bit 5 (hd b) = 7" "decode_simple (hd b AND 0x1f) arg m = Inr (v, n)" "n = m"
proof -
  from assms(1) have d: "depth \<le> maxCBORNesting" "b \<noteq> []" by (auto elim: decode_Inr)
  define major where "major = drop_bit 5 (hd b)"
  note run = assms(1) [unfolded decode_step [OF d assms(2)] Let_def, folded major_def]
  consider "major = 0" | "major = 1" | "major = 2 \<or> major = 3" | "major = 4" | "major = 5" | "major = 6" | "major = 7"
    using run by (auto split: if_splits)
  then show ?thesis
  proof cases
    case 1 then show ?thesis using run uint by (simp add: major_def)
  next
    case 2 then show ?thesis using run neg by (auto simp: major_def decode_neg_def split: if_splits)
  next
    case 3
    then have "decode_string major arg m (drop m b) = Inr (v, n)" using run by auto
    then show ?thesis using str [OF major_def [symmetric] 3] by blast
  next
    case 4 then show ?thesis using run array by (auto simp: major_def)
  next
    case 5 then show ?thesis using run map by (auto simp: major_def)
  next
    case 6 then show ?thesis using run tag by (auto simp: major_def)
  next
    case 7
    then have r: "decode_simple (hd b AND 0x1f) arg m = Inr (v, n)" using run by simp
    show ?thesis using simple [OF _ r] decode_simple_Inr [OF r] 7 by (simp add: major_def)
  qed
qed

lemma decode_local: "local_at depth"
proof -
  have "\<forall>c v n. decodeCBORAt b depth = Inr (v, n) \<longrightarrow> agree n b c \<longrightarrow> decodeCBORAt c depth = Inr (v, n)" for b depth
  proof (induction b depth rule: depth_induct)
    case (deep b depth)
    then show ?case by (simp add: decode_deep)
  next
    case (item b depth)
    have L: "local_at (depth + 1)" unfolding local_at_def using item(2) by blast
    show ?case
    proof (intro allI impI)
      fix c v n
      assume r: "decodeCBORAt b depth = Inr (v, n)" and g: "agree n b c"
      obtain arg m where a: "decodeArgument b (hd b AND 0x1f) = Inr (arg, m)" "0 < m" "m \<le> length b" using r by (rule decode_Inr)
      have mn: "m \<le> n"
        using r a(1)
      proof (cases rule: major_cases)
        case (array vs) then show ?thesis using items_bounds [OF decode_bounds array(3) a(3) item(1)] by simp
      next
        case (map ps) then show ?thesis using pairs_bounds [OF decode_bounds map(3) a(3) item(1)] by simp
      qed (auto simp: decode_string_def split: if_splits)
      have c: "hd c = hd b" "c \<noteq> []" using agree_hd [OF agree_mono [OF g mn] a(2)] by simp_all
      have ac: "decodeArgument c (hd c AND 0x1f) = Inr (arg, m)" using decodeArgument_agree [OF a(1) agree_mono [OF g mn]] c by simp
      have g': "agree (n - m) (drop m b) (drop m c)" using agree_drop [OF g mn] .
      have nc: "n \<le> length c" using g by (simp add: agree_def)
      note step = decode_step [OF item(1) c(2) ac, unfolded c(1) Let_def]
      from r a(1) show "decodeCBORAt c depth = Inr (v, n)"
      proof (cases rule: major_cases)
        case uint then show ?thesis by (simp add: step)
      next
        case neg then show ?thesis by (simp add: step)
      next
        case (str major)
        then have "decode_string major arg m (drop m c) = Inr (v, n)"
          using g' nc by (auto simp: decode_string_def agree_def split: if_splits)
        then show ?thesis using str by (auto simp: step)
      next
        case (array vs)
        have "unat arg \<le> length c - m" using items_bounds [OF decode_bounds array(3) a(3) item(1)] nc by (elim conjE) linarith
        then show ?thesis using array checkCount_less [OF array(2)] items_agree [OF L array(3) a(3) item(1) g] by (simp add: step)
      next
        case (map ps)
        have "unat arg \<le> length c - m" using pairs_bounds [OF decode_bounds map(3) a(3) item(1)] nc by (elim conjE) linarith
        then show ?thesis using map checkCount_less [OF map(2)] pairs_agree [OF L map(3) a(3) item(1) g] by (simp add: step)
      next
        case (tag inner used)
        then have "decodeCBORAt (drop m c) (depth + 1) = Inr (inner, used)" using local_atD [OF L tag(2)] g' by simp
        then show ?thesis using tag by (simp add: step)
      next
        case simple then show ?thesis by (simp add: step)
      qed
    qed
  qed
  then show ?thesis unfolding local_at_def by blast
qed

definition cut_at :: "nat \<Rightarrow> bool" where
  "cut_at depth \<longleftrightarrow> (\<forall>b v n k. decodeCBORAt b depth = Inr (v, n) \<longrightarrow> k < n \<longrightarrow> decodeCBORAt (take k b) depth = Inl Truncated)"

lemma cut_atD: "cut_at depth \<Longrightarrow> decodeCBORAt b depth = Inr (v, n) \<Longrightarrow> k < n \<Longrightarrow> decodeCBORAt (take k b) depth = Inl Truncated"
  unfolding cut_at_def by blast

lemma cut_element:
  assumes "cut_at depth" and "decodeCBORAt (drop off b) depth = Inr (v, used)" and "off \<le> j"
  shows "decodeCBORAt (drop off (take j b)) depth = (if j < off + used then Inl Truncated else Inr (v, used))"
proof (cases "j < off + used")
  case True
  then show ?thesis using cut_atD [OF assms(1,2), of "j - off"] assms(3) by (simp add: drop_take)
next
  case False
  have "agree used (drop off b) (drop off (take j b))"
    using decode_bounds [of "drop off b" depth] assms(2,3) False by (auto simp: item_bounds_def agree_def drop_take)
  then show ?thesis using local_atD [OF decode_local assms(2)] False by simp
qed

lemma items_cut:
  assumes "cut_at (depth + 1)" and "decode_items b depth off k = Inr (vs, e)" and "off \<le> length b" "depth \<le> maxCBORNesting"
    and "off \<le> j" "j < e"
  shows "decode_items (take j b) depth off k = Inl Truncated"
  using assms(2,3,5)
proof (induction k arbitrary: off vs)
  case (Suc k)
  then obtain v used us where 1: "decodeCBORAt (drop off b) (depth + 1) = Inr (v, used)"
    and 2: "decode_items b depth (off + used) k = Inr (us, e)" and vs: "vs = v # us"
    by auto
  have u: "off + used \<le> length b" using decode_bounds [of "drop off b" "depth + 1"] 1 Suc.prems(2) by (auto simp: item_bounds_def)
  have "e \<le> length b" using items_bounds [OF decode_bounds 2 u assms(4)] by simp
  then have "off \<le> length (take j b)" using Suc.prems(3) assms(6) by simp
  then have s: "slice (take j b) off (length (take j b)) = Inr (drop off (take j b))" by (rule slice_suffix)
  show ?case
    unfolding decode_items.simps s cut_element [OF assms(1) 1 Suc.prems(3)] bindE_simps
    using Suc.IH [OF 2 u] by (auto simp del: bindE_eq_Inr)
qed (use assms in simp)

lemma pairs_cut:
  assumes "cut_at (depth + 1)" and "decode_pairs b depth off k = Inr (ps, e)" and "off \<le> length b" "depth \<le> maxCBORNesting"
    and "off \<le> j" "j < e"
  shows "decode_pairs (take j b) depth off k = Inl Truncated"
  using assms(2,3,5)
proof (induction k arbitrary: off ps)
  case (Suc k)
  then obtain key val used used' qs where 1: "decodeCBORAt (drop off b) (depth + 1) = Inr (key, used)"
    and 2: "off + used \<le> length b" "decodeCBORAt (drop (off + used) b) (depth + 1) = Inr (val, used')"
    and 3: "decode_pairs b depth (off + used + used') k = Inr (qs, e)" and ps: "ps = (key, val) # qs"
    by (auto simp: slice_eq_Inr)
  have u: "off + used + used' \<le> length b" using decode_bounds [of "drop (off + used) b" "depth + 1"] 2 by (auto simp: item_bounds_def)
  have "e \<le> length b" using pairs_bounds [OF decode_bounds 3 u assms(4)] by simp
  then have j: "j \<le> length b" "off \<le> length (take j b)" using Suc.prems(3) assms(6) by simp_all
  have s: "slice (take j b) o' (length (take j b)) = Inr (drop o' (take j b))" if "o' \<le> j" for o'
    using j(1) that by (intro slice_suffix) simp
  show ?case
  proof (cases "j < off + used")
    case True
    then show ?thesis
      unfolding decode_pairs.simps s [OF Suc.prems(3)] cut_element [OF assms(1) 1 Suc.prems(3)] bindE_simps by simp
  next
    case False
    then have o: "off + used \<le> j" by simp
    have f: "decodeCBORAt (drop off (take j b)) (depth + 1) = Inr (key, used)"
      using cut_element [OF assms(1) 1 Suc.prems(3)] False by simp
    show ?thesis
      unfolding decode_pairs.simps s [OF Suc.prems(3)] f bindE_simps prod.case s [OF o] cut_element [OF assms(1) 2(2) o]
      using Suc.IH [OF 3 u] by (auto simp del: bindE_eq_Inr)
  qed
qed (use assms in simp)

lemma decode_cut: "cut_at depth"
proof -
  have "\<forall>v n k. decodeCBORAt b depth = Inr (v, n) \<longrightarrow> k < n \<longrightarrow> decodeCBORAt (take k b) depth = Inl Truncated" for b depth
  proof (induction b depth rule: depth_induct)
    case (deep b depth)
    then show ?case by (simp add: decode_deep)
  next
    case (item b depth)
    have C: "cut_at (depth + 1)" unfolding cut_at_def using item(2) by blast
    show ?case
    proof (intro allI impI)
      fix v n k
      assume r: "decodeCBORAt b depth = Inr (v, n)" and k: "k < n"
      obtain arg m where b: "b \<noteq> []" and a: "decodeArgument b (hd b AND 0x1f) = Inr (arg, m)" "0 < m" "m \<le> length b" using r by (rule decode_Inr)
      show "decodeCBORAt (take k b) depth = Inl Truncated"
      proof (cases "k < m")
        case True
        show ?thesis
        proof (cases "k = 0")
          case True
          then show ?thesis using item(1) by (simp add: decodeCBORAt.simps)
        next
          case False
          then have "take k b \<noteq> []" "hd (take k b) = hd b" using b by simp_all
          then show ?thesis using item(1) decodeArgument_short [OF a(1) _ True] False
            by (simp add: decodeCBORAt.simps [of "take k b"] Let_def)
        qed
      next
        case False
        have c: "take k b \<noteq> []" "hd (take k b) = hd b" using b False a(2) by simp_all
        have "agree m b (take k b)" using False a(3) by (simp add: agree_def)
        then have ac: "decodeArgument (take k b) (hd (take k b) AND 0x1f) = Inr (arg, m)" using decodeArgument_agree [OF a(1)] c(2) by simp
        have n: "n \<le> length b" using decode_bounds [of b depth] r by (auto simp: item_bounds_def)
        have l: "length (take k b) = k" "m \<le> k" using k n False by simp_all
        note step = decode_step [OF item(1) c(1) ac, unfolded c(2) Let_def l(1)]
        from r a(1) show ?thesis
        proof (cases rule: major_cases)
          case (str major)
          then show ?thesis using k l by (auto simp: step decode_string_def split: if_splits)
        next
          case (array vs)
          show ?thesis using array(1) checkCount_short [OF array(2), of "k - m"] items_cut [OF C array(3) a(3) item(1) l(2) k]
            by (auto simp: step)
        next
          case (map ps)
          show ?thesis using map(1) checkCount_short [OF map(2), of "k - m"] pairs_cut [OF C map(3) a(3) item(1) l(2) k]
            by (auto simp: step)
        next
          case (tag inner used)
          have "decodeCBORAt (drop m (take k b)) (depth + 1) = Inl Truncated"
            using cut_element [OF C tag(2) l(2)] k tag(4) by simp
          then show ?thesis using tag(1) by (simp add: step)
        qed (use k l in simp_all)
      qed
    qed
  qed
  then show ?thesis unfolding cut_at_def by blast
qed

text \<open>C14: an item ends where it says it ends: what follows it does not change how it is read,
  and an item that has been cut short anywhere is reported as truncated.\<close>

theorem cbor_delimited:
  assumes "decodeCBOR b = Inr (v, n)"
  shows "decodeCBOR (take n b @ rest) = Inr (v, n) \<and> (\<forall>k < n. decodeCBOR (take k b) = Inl Truncated)"
proof (intro conjI allI impI)
  have n: "n \<le> length b" using decode_bounds [of b 0] assms by (auto simp: item_bounds_def decodeCBOR_def)
  show "decodeCBOR (take n b @ rest) = Inr (v, n)"
    using local_atD [OF decode_local assms [unfolded decodeCBOR_def]] n by (simp add: decodeCBOR_def agree_def)
next
  fix k assume "k < n"
  then show "decodeCBOR (take k b) = Inl Truncated"
    using cut_atD [OF decode_cut assms [unfolded decodeCBOR_def]] by (simp add: decodeCBOR_def)
qed


subsection \<open>What the encoder writes is read back\<close>

lemma take_bit_small: "unat x < 2 ^ k \<Longrightarrow> take_bit k x = x" for x :: "'a::len word"
  by (rule word_unat_eq_iff [THEN iffD2]) (simp add: unsigned_take_bit_eq take_bit_nat_eq_self)

lemma small_bits: "unat x < 2 ^ k \<Longrightarrow> bit x n \<Longrightarrow> n < k" for x :: "'a::len word"
  using take_bit_small [of x k] by (metis bit_take_bit_iff)

lemma low_bits: "(push_bit 5 major OR x) AND 0x1f = x" if "x < 32" for major x :: "8 word"
proof -
  have "unat x < 2 ^ 5" using that by (simp add: word_less_nat_alt)
  then have "take_bit 5 (push_bit 5 major OR x) = x"
    by (simp add: take_bit_push_bit take_bit_small)
  then show ?thesis by (simp add: take_bit_eq_mask mask_eq_exp_minus_1)
qed

lemma high_bits: "drop_bit 5 (push_bit 5 major OR x) = major" if "x < 32" "major < 8" for major x :: "8 word"
proof (rule bit_eqI)
  fix n
  have "unat x < 2 ^ 5" "unat major < 2 ^ 3" using that by (simp_all add: word_less_nat_alt)
  then show "bit (drop_bit 5 (push_bit 5 major OR x)) n = bit major n"
    using small_bits [of x 5 "5 + n"] small_bits [of major 3 n] by (auto simp: bit_drop_bit_eq bit_or_iff bit_push_bit_iff)
qed

lemma high_bits_0: "major < 8 \<Longrightarrow> drop_bit 5 (push_bit 5 major) = major" for major :: "8 word"
  using high_bits [of 0 major] by simp

lemma big_endian_Cons: "big_endian (w # b) = unat w * 256 ^ length b + big_endian b"
proof -
  have "foldl (\<lambda>a w. 256 * a + unat w) a b = a * 256 ^ length b + foldl (\<lambda>a w. 256 * a + unat w) 0 b" for a
  proof (induction b arbitrary: a)
    case (Cons x b)
    show ?case using Cons [of "256 * a + unat x"] Cons [of "unat x"] by (simp add: algebra_simps)
  qed simp
  from this [of "unat w"] show ?thesis by (simp add: big_endian_def)
qed

lemma put_length [simp]: "length (put_big_endian n v) = n"
  by (induction n) auto

lemma big_endian_put: "big_endian (put_big_endian n v) = v mod 256 ^ n"
proof (induction n)
  case (Suc n)
  have "v mod 256 ^ Suc n = (v div 256 ^ n mod 256) * 256 ^ n + v mod 256 ^ n"
    using mod_mult2_eq [of v "256 ^ n" 256] by (simp add: mult.commute)
  then show ?case using Suc by (simp add: big_endian_Cons unsigned_of_nat take_bit_eq_mod)
qed (simp add: big_endian_def)

lemma decodeArgument_head:
  fixes arg :: "64 word"
  assumes "major < 8"
  defines "h \<equiv> encodeCBORHead major arg"
  shows "decodeArgument (h @ rest) (hd (h @ rest) AND 0x1f) = Inr (arg, length h) \<and> drop_bit 5 (hd (h @ rest)) = major \<and> h \<noteq> []"
proof -
  have B: "unat arg < 18446744073709551616" using unsigned_less [of arg] by simp
  consider "arg < 24" | "\<not> arg < 24" "unat arg \<le> 255" | "\<not> arg < 24" "255 < unat arg" "unat arg \<le> 65535"
    | "\<not> arg < 24" "65535 < unat arg" "unat arg \<le> 4294967295" | "\<not> arg < 24" "4294967295 < unat arg" by linarith
  then show ?thesis
  proof cases
    case 1
    have a: "unat arg < 24" using 1 by (simp add: word_less_nat_alt)
    then have u: "unat (ucast arg :: 8 word) = unat arg" by (simp add: unsigned_ucast_eq take_bit_nat_eq_self)
    then have l: "(ucast arg :: 8 word) < 24" using a by (simp add: word_less_nat_alt)
    then have l': "(ucast arg :: 8 word) < 32" by (simp add: word_less_nat_alt)
    have "unat (ucast (ucast arg :: 8 word) :: 64 word) = unat arg" using u a by (simp add: unsigned_ucast_eq unsigned_take_bit_eq take_bit_nat_eq_self)
    then have "ucast (ucast arg :: 8 word) = arg" by (simp add: word_unat_eq_iff)
    then show ?thesis using 1 l low_bits [OF l'] high_bits [OF l' assms(1)]
      by (simp add: h_def encodeCBORHead_def decodeArgument_def)
  next
    case 2
    have "big_endian [word_of_nat (unat arg)] = unat arg" using big_endian_put [of 1 "unat arg"] 2 by simp
    then show ?thesis using assms(1) 2
      by (simp add: h_def encodeCBORHead_def decodeArgument_def low_bits high_bits_0 slice_def)
  next
    case 3
    then show ?thesis using assms(1)
      by (simp add: h_def encodeCBORHead_def decodeArgument_def low_bits high_bits_0 slice_def big_endian_put)
  next
    case 4
    then show ?thesis using assms(1)
      by (simp add: h_def encodeCBORHead_def decodeArgument_def low_bits high_bits_0 slice_def big_endian_put)
  next
    case 5
    then show ?thesis using assms(1) B
      by (simp add: h_def encodeCBORHead_def decodeArgument_def low_bits high_bits_0 slice_def big_endian_put)
  qed
qed

text \<open>What is written stands for a value, at a depth, whatever follows it.\<close>

definition encodes :: "nat \<Rightarrow> bytes \<Rightarrow> cbor_value \<Rightarrow> bool" where
  "encodes depth bs v \<longleftrightarrow> (\<forall>rest. decodeCBORAt (bs @ rest) depth = Inr (v, length bs))"

lemma encodes_step:
  assumes "depth \<le> maxCBORNesting" and "major < 8"
  shows "decodeCBORAt (encodeCBORHead major arg @ body) depth = (let n = length (encodeCBORHead major arg); b = encodeCBORHead major arg @ body in
     if major = 0 then Inr (CborUint arg, n)
     else if major = 1 then decode_neg arg n
     else if major = 2 \<or> major = 3 then decode_string major arg n body
     else if major = 4 then bindE (checkCount arg (length body)) (\<lambda>_.
       bindE (decode_items b depth n (unat arg)) (\<lambda>(items, off). Inr (CborArray items, off)))
     else if major = 5 then bindE (checkCount arg (length body)) (\<lambda>_.
       bindE (decode_pairs b depth n (unat arg)) (\<lambda>(pairs, off). Inr (CborMap pairs, off)))
     else if major = 6 then bindE (decodeCBORAt body (depth + 1)) (\<lambda>(inner, used). Inr (CborTag arg inner, n + used))
     else decodeCBORAt b depth)"
proof -
  have h: "decodeArgument (encodeCBORHead major arg @ body) (hd (encodeCBORHead major arg @ body) AND 0x1f) = Inr (arg, length (encodeCBORHead major arg))"
    "drop_bit 5 (hd (encodeCBORHead major arg @ body)) = major" "encodeCBORHead major arg @ body \<noteq> []"
    using decodeArgument_head [OF assms(2), of arg body] by auto
  show ?thesis by (simp add: decode_step [OF assms(1) h(3,1)] h(2) Let_def)
qed

lemma unat_length: "length b < 18446744073709551616 \<Longrightarrow> unat (word_of_nat (length b) :: 64 word) = length b"
  by (simp add: unsigned_of_nat take_bit_nat_eq_self)

lemma go_string_bytes [simp]: "go_string (go_bytes s) = s"
proof (induction s)
  case (Cons c s)
  have "of_char c < (256 :: nat)" by (metis of_char_mod_256 mod_less_divisor zero_less_numeral)
  then show ?case using Cons by (simp add: go_string_def go_bytes_def unsigned_of_nat take_bit_nat_eq_self)
qed (simp add: go_string_def go_bytes_def)

lemma length_go_bytes [simp]: "length (go_bytes s) = length s"
  by (simp add: go_bytes_def)

lemma encodes_bytes: "depth \<le> maxCBORNesting \<Longrightarrow> length b < 18446744073709551616 \<Longrightarrow> encodes depth (encodeCBORBytes b) (CborBytes b)"
  by (simp add: encodes_def encodeCBORBytes_def encodes_step Let_def decode_string_def unat_length)

lemma encodes_text: "depth \<le> maxCBORNesting \<Longrightarrow> length s < 18446744073709551616 \<Longrightarrow> encodes depth (encodeCBORText s) (CborText s)"
  using unat_length [of s] by (simp add: encodes_def encodeCBORText_def encodes_step Let_def decode_string_def)

lemma foldl_append: "foldl (@) a xs = a @ concat xs"
  by (induction xs arbitrary: a) auto

lemma encodes_length: "encodes depth bs v \<Longrightarrow> 0 < length bs"
  using decode_bounds [of "bs @ []" depth] by (auto simp: encodes_def item_bounds_def)

lemma decode_items_encoded:
  assumes "list_all2 (encodes (depth + 1)) bss vs"
  shows "decode_items (pre @ concat bss @ rest) depth (length pre) (length bss) = Inr (vs, length pre + length (concat bss))"
  using assms
proof (induction bss vs arbitrary: pre rule: list_all2_induct)
  case (Cons bs bss v vs)
  have 1: "decodeCBORAt (bs @ concat bss @ rest) (depth + 1) = Inr (v, length bs)" using Cons(1) by (simp add: encodes_def)
  have s: "slice (pre @ bs @ concat bss @ rest) (length pre) (length (pre @ bs @ concat bss @ rest)) = Inr (bs @ concat bss @ rest)"
    using slice_suffix [of "length pre" "pre @ bs @ concat bss @ rest"] by simp
  show ?case
    unfolding length_Cons decode_items.simps concat.simps append_assoc s bindE_simps 1 prod.case
    using Cons.IH [of "pre @ bs"] by (simp only: append_assoc length_append bindE_simps prod.case add.assoc)
qed simp

lemma encodes_array:
  assumes "depth \<le> maxCBORNesting" and "list_all2 (encodes (depth + 1)) bss vs" and "length bss \<le> 1048576"
  shows "encodes depth (encodeCBORArray bss) (CborArray vs)"
  unfolding encodes_def
proof
  fix rest
  let ?h = "encodeCBORHead 4 (word_of_nat (length bss))"
  have u: "unat (word_of_nat (length bss) :: 64 word) = length bss" using assms(3) by (intro unat_length) simp
  have "length bss \<le> length (concat bss)"
    using assms(2)
  proof (induction bss vs rule: list_all2_induct)
    case (Cons bs bss v vs)
    have "0 < length bs" by (rule encodes_length [OF Cons(1)])
    then show ?case using Cons.IH unfolding length_Cons concat.simps length_append by linarith
  qed simp
  then have "checkCount (word_of_nat (length bss)) (length (concat bss @ rest)) = Inr ()"
    using u assms(3) by (simp add: checkCount_def maxCBORElements_def word_less_nat_alt)
  then show "decodeCBORAt (encodeCBORArray bss @ rest) depth = Inr (CborArray vs, length (encodeCBORArray bss))"
    using decode_items_encoded [OF assms(2), of ?h rest] u assms(1)
    by (simp add: encodeCBORArray_def foldl_append encodes_step Let_def)
qed


lemma cbor_bounds_witness:
  "\<exists>v. decodeCBOR [0x82, 0x01, 0x61, 0x41, 0xff] = Inr (v, 4) \<and> weight v \<le> 4 \<and> height v \<le> 33"
proof -
  have "decodeCBOR [0x82, 0x01, 0x61, 0x41, 0xff] = Inr (CborArray [CborUint 1, CborText ''A''], 4)" by code_simp
  from cbor_bounds [OF this] this show ?thesis by blast
qed

lemma cbor_delimited_witness:
  "decodeCBOR [0x82, 0x01, 0x61, 0x41, 0x00] = Inr (CborArray [CborUint 1, CborText ''A''], 4) \<and> decodeCBOR [0x82, 0x01, 0x61] = Inl Truncated"
proof -
  have "decodeCBOR [0x82, 0x01, 0x61, 0x41, 0xff] = Inr (CborArray [CborUint 1, CborText ''A''], 4)" by code_simp
  note d = cbor_delimited [OF this, of "[0x00]"]
  show ?thesis using conjunct1 [OF d] conjunct2 [OF d, THEN spec, of 3] by simp
qed


end
