(* ===== verification/C2pa.thy ===== *)
theory C2pa
  imports Cbor
begin

text \<open>
  \<open>internal/modules/provenance/c2pa.go\<close>: the Content Credentials reader, from the container formats
  (JPEG, PNG, ISO media) through the JUMBF boxes to the COSE signature and the hard binding. Every
  index and slice is checked as in \<open>Cbor\<close>. X.509 parsing, the hash functions and the signature
  primitives of Go's \<open>crypto\<close> are parameters. The theorems say what a valid binding means, which
  bytes a signature covers, and which input makes the reader panic.
\<close>

subsection \<open>What was found\<close>

text \<open>The text of each note, by its meaning; \<open>err.Error()\<close> is the error itself.\<close>

datatype cose_error =
    DecodingMessage cbor_error | NotSign1 | FieldsNotBytes | DecodingProtected cbor_error | NoAlgorithm | AlgorithmNotInteger
  | NoChain | ParsingCertificate string | NoPayload | KeyNotEcdsa | KeyNotRsaPss | KeyNotRsa | KeyNotEd25519
  | UnsupportedAlgorithm int | NotEcdsaEncoding

datatype strict_error = NotDecoded cbor_error | TrailingData nat

datatype c2pa_note =
    NotParsed strict_error | NoSignature | NotVerified cose_error | Altered | ClaimNotParsed strict_error | ClaimDiffers
  | NoAssertions | OtherAsset | NotTied

record c2pa_result =
  Present :: bool
  Intact :: bool
  BindingValid :: bool
  Issuer :: string
  Generator :: string
  SignatureAlg :: string
  Notes :: "c2pa_note list"

definition no_result :: c2pa_result where
  "no_result = \<lparr>Present = False, Intact = False, BindingValid = False, Issuer = '''', Generator = '''', SignatureAlg = '''', Notes = []\<rparr>"

definition noted :: "c2pa_note \<Rightarrow> c2pa_result \<Rightarrow> c2pa_result" where
  "noted n res = res\<lparr>Notes := Notes res @ [n]\<rparr>"

subsection \<open>Certificates and signatures\<close>

datatype public_key = EcdsaKey bytes | RsaKey bytes | Ed25519Key bytes | OtherKey

record certificate =
  PublicKey :: public_key
  CommonName :: string
  Organization :: "string list"
  SubjectString :: string

datatype digest_name = SHA256 | SHA384 | SHA512

text \<open>The standard library: \<open>x509.ParseCertificate\<close>, the digests, and the verification functions.\<close>

record crypto =
  ParseCertificate :: "bytes \<Rightarrow> string + certificate"
  Digest :: "digest_name \<Rightarrow> bytes \<Rightarrow> bytes"
  EcdsaVerify :: "bytes \<Rightarrow> bytes \<Rightarrow> int \<Rightarrow> int \<Rightarrow> bool"
  UnmarshalRS :: "bytes \<Rightarrow> (int \<times> int) option"
  VerifyPSS :: "bytes \<Rightarrow> digest_name \<Rightarrow> bytes \<Rightarrow> bytes \<Rightarrow> bool"
  VerifyPKCS1v15 :: "bytes \<Rightarrow> digest_name \<Rightarrow> bytes \<Rightarrow> bytes \<Rightarrow> bool"
  Ed25519Verify :: "bytes \<Rightarrow> bytes \<Rightarrow> bytes \<Rightarrow> bool"

definition ecdsaDigest :: "crypto \<Rightarrow> int \<Rightarrow> bytes \<Rightarrow> bytes \<times> nat" where
  "ecdsaDigest cr algID b =
    (if algID = - 35 then (Digest cr SHA384 b, 48)
     else if algID = - 36 then (Digest cr SHA512 b, 66)
     else (Digest cr SHA256 b, 32))"

definition hashFor :: "crypto \<Rightarrow> int \<Rightarrow> bytes \<Rightarrow> digest_name \<times> bytes" where
  "hashFor cr algID b =
    (if algID = - 38 \<or> algID = - 258 then (SHA384, Digest cr SHA384 b)
     else if algID = - 39 \<or> algID = - 259 then (SHA512, Digest cr SHA512 b)
     else (SHA256, Digest cr SHA256 b))"

definition coseAlgName :: "int \<Rightarrow> string" where
  "coseAlgName i =
    (if i = - 7 then ''ES256'' else if i = - 8 then ''EdDSA'' else if i = - 35 then ''ES384'' else if i = - 36 then ''ES512''
     else if i = - 37 then ''PS256'' else if i = - 38 then ''PS384'' else if i = - 39 then ''PS512'' else if i = - 257 then ''RS256''
     else ''COSE alg '' @ dec_int i)"

definition certificateSubject :: "certificate \<Rightarrow> string" where
  "certificateSubject c =
    (if CommonName c \<noteq> '''' then
       (case Organization c of [] \<Rightarrow> CommonName c | x # _ \<Rightarrow> CommonName c @ '' ('' @ x @ '')'')
     else (case Organization c of [] \<Rightarrow> SubjectString c | x # _ \<Rightarrow> x))"

definition verifyECDSAASN1 :: "crypto \<Rightarrow> bytes \<Rightarrow> bytes \<Rightarrow> bytes \<Rightarrow> cose_error + bool" where
  "verifyECDSAASN1 cr key digest signature = (case UnmarshalRS cr signature of
     None \<Rightarrow> Inl NotEcdsaEncoding | Some (r, s) \<Rightarrow> Inr (EcdsaVerify cr key digest r s))"

definition verifySignature :: "crypto \<Rightarrow> certificate \<Rightarrow> int \<Rightarrow> bytes \<Rightarrow> bytes \<Rightarrow> cose_error + bool" where
  "verifySignature cr cert algID msg signature =
    (if algID \<in> {- 7, - 35, - 36} then
       (case PublicKey cert of
          EcdsaKey key \<Rightarrow> let (digest, size) = ecdsaDigest cr algID msg in
            if length signature \<noteq> 2 * size then verifyECDSAASN1 cr key digest signature
            else Inr (EcdsaVerify cr key digest (int (big_endian (take size signature))) (int (big_endian (drop size signature))))
        | _ \<Rightarrow> Inl KeyNotEcdsa)
     else if algID \<in> {- 37, - 38, - 39} then
       (case PublicKey cert of
          RsaKey key \<Rightarrow> let (h, digest) = hashFor cr algID msg in Inr (VerifyPSS cr key h digest signature)
        | _ \<Rightarrow> Inl KeyNotRsaPss)
     else if algID \<in> {- 257, - 258, - 259} then
       (case PublicKey cert of
          RsaKey key \<Rightarrow> let (h, digest) = hashFor cr algID msg in Inr (VerifyPKCS1v15 cr key h digest signature)
        | _ \<Rightarrow> Inl KeyNotRsa)
     else if algID = - 8 then
       (case PublicKey cert of Ed25519Key key \<Rightarrow> Inr (Ed25519Verify cr key msg signature) | _ \<Rightarrow> Inl KeyNotEd25519)
     else Inl (UnsupportedAlgorithm algID))"

subsection \<open>COSE\<close>

definition coseHeaderAlg :: int where "coseHeaderAlg = 1"
definition coseHeaderX5Chain :: int where "coseHeaderX5Chain = 33"

text \<open>The certificates of one set of headers, as \<open>findX5Chain\<close> reads it; the next set is tried if there are none.\<close>

definition chain_of :: "cbor_value \<Rightarrow> bytes list" where
  "chain_of hdrs = (case lookup hdrs coseHeaderX5Chain of
     None \<Rightarrow> []
   | Some v \<Rightarrow> (case v of CborBytes der \<Rightarrow> [der] | CborArray items \<Rightarrow> List.map_filter asBytes items | _ \<Rightarrow> []))"

definition findX5Chain :: "cbor_value \<Rightarrow> cbor_value \<Rightarrow> bytes list" where
  "findX5Chain protected unprotected =
    (if chain_of protected \<noteq> [] then chain_of protected else chain_of unprotected)"

definition sig_structure :: "bytes \<Rightarrow> bytes \<Rightarrow> bytes" where
  "sig_structure protected payload = encodeCBORArray
     [encodeCBORText ''Signature1'', encodeCBORBytes protected, encodeCBORBytes [], encodeCBORBytes payload]"

text \<open>The five results of \<open>verifyCOSESign1\<close>: verified, payload, issuer, algorithm, error.\<close>

type_synonym cose_outcome = "bool \<times> bytes \<times> string \<times> string \<times> cose_error option"

definition check_signature :: "crypto \<Rightarrow> bytes \<Rightarrow> cbor_value \<Rightarrow> cbor_value \<Rightarrow> cbor_value \<Rightarrow> bytes \<Rightarrow> cose_outcome" where
  "check_signature cr protectedBytes protected unprotected payloadItem signature =
    (case lookup protected coseHeaderAlg of
       None \<Rightarrow> (False, [], '''', '''', Some NoAlgorithm)
     | Some algValue \<Rightarrow> (case asInt algValue of
         None \<Rightarrow> (False, [], '''', '''', Some AlgorithmNotInteger)
       | Some algID \<Rightarrow> let alg = coseAlgName algID in
         (case findX5Chain protected unprotected of
            [] \<Rightarrow> (False, [], '''', alg, Some NoChain)
          | der # _ \<Rightarrow> (case ParseCertificate cr der of
              Inl e \<Rightarrow> (False, [], '''', alg, Some (ParsingCertificate e))
            | Inr cert \<Rightarrow> let issuer = certificateSubject cert in
              (case asBytes payloadItem of
                 None \<Rightarrow> (False, [], issuer, alg, Some NoPayload)
               | Some payload \<Rightarrow>
                 if payload = [] then (False, [], issuer, alg, Some NoPayload)
                 else (case verifySignature cr cert algID (sig_structure protectedBytes payload) signature of
                     Inl e \<Rightarrow> (False, payload, issuer, alg, Some e)
                   | Inr verified \<Rightarrow> (verified, payload, issuer, alg, None)))))))"

definition cose_message :: "cbor_value \<Rightarrow> cbor_error + cbor_value" where
  "cose_message v = (case asBytes v of None \<Rightarrow> Inr v | Some raw \<Rightarrow> bindE (decodeCBOR raw) (\<lambda>(item, _). Inr item))"

text \<open>The decoder neither panics nor hangs (\<open>Cbor.cbor_total\<close>), so its errors are those the code wraps.\<close>

definition verifyCOSESign1 :: "crypto \<Rightarrow> cbor_value \<Rightarrow> cose_outcome" where
  "verifyCOSESign1 cr v = (case cose_message v of
     Inl e \<Rightarrow> (False, [], '''', '''', Some (DecodingMessage e))
   | Inr item \<Rightarrow> (case untag item of
       CborArray [p, u, payloadItem, s] \<Rightarrow>
         (case (asBytes p, asBytes s) of
            (Some protectedBytes, Some signature) \<Rightarrow>
              (case (if protectedBytes = [] then Inr (CborUint 0) else bindE (decodeCBOR protectedBytes) (\<lambda>(h, _). Inr h)) of
                 Inl e \<Rightarrow> (False, [], '''', '''', Some (DecodingProtected e))
               | Inr protected \<Rightarrow> check_signature cr protectedBytes protected u payloadItem signature)
          | _ \<Rightarrow> (False, [], '''', '''', Some FieldsNotBytes))
     | _ \<Rightarrow> (False, [], '''', '''', Some NotSign1)))"

subsection \<open>Claims\<close>

text \<open>\<open>sameClaim\<close>, with the loops of its map and array cases; \<open>full\<close> is the map that text keys are looked up in.\<close>

function sameClaim :: "cbor_value \<Rightarrow> cbor_value \<Rightarrow> bool"
  and same_pairs :: "(cbor_value \<times> cbor_value) list \<Rightarrow> (cbor_value \<times> cbor_value) list \<Rightarrow> cbor_value \<Rightarrow> bool"
  and same_items :: "cbor_value list \<Rightarrow> cbor_value list \<Rightarrow> bool" where
  "sameClaim a b = (case (a, b) of
     (CborMap ps, CborMap qs) \<Rightarrow> length ps = length qs \<and> same_pairs ps qs b
   | (CborArray xs, CborArray ys) \<Rightarrow> length xs = length ys \<and> same_items xs ys
   | (CborBytes x, CborBytes y) \<Rightarrow> x = y
   | (CborText x, CborText y) \<Rightarrow> x = y
   | (CborUint x, CborUint y) \<Rightarrow> x = y
   | (CborNegInt x, CborNegInt y) \<Rightarrow> x = y
   | (CborBool x, CborBool y) \<Rightarrow> x = y
   | (CborFloat x, CborFloat y) \<Rightarrow> float_eq x y
   | (CborTag t x, CborTag u y) \<Rightarrow> t = u \<and> sameClaim x y
   | (CborNull, CborNull) \<Rightarrow> True
   | (CborUndefined, CborUndefined) \<Rightarrow> True
   | _ \<Rightarrow> False)"
| "same_pairs [] qs full = True"
| "same_pairs ((k, v) # ps) [] full = False"
| "same_pairs ((k, v) # ps) ((k', v') # qs) full =
    ((case asText k of
        None \<Rightarrow> sameClaim k k' \<and> sameClaim v v'
      | Some name \<Rightarrow> (case lookupText full name of None \<Rightarrow> False | Some other \<Rightarrow> sameClaim v other))
     \<and> same_pairs ps qs full)"
| "same_items [] ys = True"
| "same_items (x # xs) [] = False"
| "same_items (x # xs) (y # ys) = (sameClaim x y \<and> same_items xs ys)"
  by pat_completeness auto

termination
  by (relation "measure (case_sum (\<lambda>(a, b). 2 * size a)
      (case_sum (\<lambda>(ps, qs, f). 2 * size_list (size_prod size size) ps) (\<lambda>(xs, ys). 2 * size_list size xs)))") auto

declare sameClaim.simps [simp del]

definition allZero :: "bytes \<Rightarrow> bool" where
  "allZero b \<longleftrightarrow> (\<forall>c \<in> set b. c = 0)"

definition decodeCBORStrict :: "bytes \<Rightarrow> strict_error + cbor_value" where
  "decodeCBORStrict b = (case decodeCBOR b of
     Inl e \<Rightarrow> Inl (NotDecoded e)
   | Inr (v, n) \<Rightarrow> if n \<noteq> length b \<and> \<not> allZero (drop n b) then Inl (TrailingData (length b - n)) else Inr v)"

definition has_suffix :: "string \<Rightarrow> string \<Rightarrow> bool" where
  "has_suffix s suf \<longleftrightarrow> length suf \<le> length s \<and> drop (length s - length suf) s = suf"

text \<open>The walk of \<open>locateClaimAndSignature\<close> over the two captured variables.\<close>

type_synonym found = "cbor_value option \<times> cbor_value option"

definition note_key :: "cbor_value \<Rightarrow> cbor_value \<Rightarrow> found \<Rightarrow> found" where
  "note_key k val f = (let name = (case asText k of None \<Rightarrow> '''' | Some n \<Rightarrow> n) in
     if has_suffix name ''c2pa.claim'' \<or> name = ''claim'' then (Some val, snd f)
     else if has_suffix name ''c2pa.signature'' \<or> name = ''claim_signature'' \<or> name = ''signature'' then (fst f, Some val)
     else f)"

function walk :: "cbor_value \<Rightarrow> nat \<Rightarrow> found \<Rightarrow> found"
  and walk_pairs :: "(cbor_value \<times> cbor_value) list \<Rightarrow> nat \<Rightarrow> found \<Rightarrow> found"
  and walk_items :: "cbor_value list \<Rightarrow> nat \<Rightarrow> found \<Rightarrow> found" where
  "walk v depth f =
    (if depth > maxCBORNesting \<or> (fst f \<noteq> None \<and> snd f \<noteq> None) then f
     else (case v of
         CborMap ps \<Rightarrow> walk_pairs ps depth f
       | CborArray xs \<Rightarrow> walk_items xs depth f
       | CborTag t x \<Rightarrow> walk x (depth + 1) f
       | _ \<Rightarrow> f))"
| "walk_pairs [] depth f = f"
| "walk_pairs ((k, val) # ps) depth f = walk_pairs ps depth (walk val (depth + 1) (note_key k val f))"
| "walk_items [] depth f = f"
| "walk_items (x # xs) depth f = walk_items xs depth (walk x (depth + 1) f)"
  by pat_completeness auto

termination
  by (relation "measure (case_sum (\<lambda>(v, d, f). 2 * size v)
      (case_sum (\<lambda>(ps, d, f). 2 * size_list (size_prod size size) ps) (\<lambda>(xs, d, f). 2 * size_list size xs)))") auto

declare walk.simps [simp del]

definition locateClaimAndSignature :: "cbor_value \<Rightarrow> found" where
  "locateClaimAndSignature m = walk m 0 (None, None)"


subsection \<open>The hard binding\<close>

record byteRange =
  range_start :: nat
  range_length :: nat

text \<open>The loop of \<open>excludeRanges\<close>: \<open>prev\<close> is the end of the last region left out.\<close>

fun exclude_from :: "bytes \<Rightarrow> nat \<Rightarrow> byteRange list \<Rightarrow> cbor_error + bytes" where
  "exclude_from asset prev [] = slice asset prev (length asset)"
| "exclude_from asset prev (r # rs) =
    (if range_start r < prev \<or> range_start r > length asset then exclude_from asset prev rs
     else bindE (slice asset prev (range_start r)) (\<lambda>part.
          bindE (exclude_from asset (min (range_start r + range_length r) (length asset)) rs) (\<lambda>rest. Inr (part @ rest))))"

definition excludeRanges :: "bytes \<Rightarrow> byteRange list \<Rightarrow> cbor_error + bytes" where
  "excludeRanges asset ranges = (if ranges = [] then Inr asset else exclude_from asset 0 ranges)"

definition contains :: "string \<Rightarrow> string \<Rightarrow> bool" where
  "contains s sub \<longleftrightarrow> sub \<in> set (map (take (length sub)) (map (\<lambda>i. drop i s) [0..<length s + 1]))"

text \<open>The digest a hard-binding assertion carries, when it is one and carries any.\<close>

definition binding_hash :: "cbor_value \<Rightarrow> bytes option" where
  "binding_hash a = (let name = (case lookupText a ''url'' of None \<Rightarrow> '''' | Some url \<Rightarrow> (case asText url of None \<Rightarrow> '''' | Some n \<Rightarrow> n)) in
     if \<not> contains name ''c2pa.hash.data'' \<and> \<not> contains name ''c2pa.hash.boxes'' then None
     else (case lookupText a ''hash'' of None \<Rightarrow> None
       | Some h \<Rightarrow> (case asBytes h of None \<Rightarrow> None | Some want \<Rightarrow> if want = [] then None else Some want)))"

fun check_bindings :: "crypto \<Rightarrow> bytes \<Rightarrow> byteRange list \<Rightarrow> cbor_value list \<Rightarrow> c2pa_result \<Rightarrow> cbor_error + bool \<times> c2pa_result" where
  "check_bindings cr asset exclusions [] res = Inr (False, noted NotTied res)"
| "check_bindings cr asset exclusions (a # as) res = (case binding_hash a of
     None \<Rightarrow> check_bindings cr asset exclusions as res
   | Some want \<Rightarrow> bindE (excludeRanges asset exclusions) (\<lambda>rest.
       if Digest cr SHA256 rest = want then Inr (True, res) else Inr (False, noted OtherAsset res)))"

definition verifyHardBinding :: "crypto \<Rightarrow> cbor_value \<Rightarrow> bytes \<Rightarrow> byteRange list \<Rightarrow> c2pa_result \<Rightarrow> cbor_error + bool \<times> c2pa_result" where
  "verifyHardBinding cr claim asset exclusions res =
    (case (case lookupText claim ''assertions'' of None \<Rightarrow> lookupText claim ''created_assertions'' | Some a \<Rightarrow> Some a) of
       None \<Rightarrow> Inr (False, noted NoAssertions res)
     | Some assertions \<Rightarrow> (case assertions of
         CborArray as \<Rightarrow> check_bindings cr asset exclusions as res
       | _ \<Rightarrow> Inr (False, res)))"

subsection \<open>Containers\<close>

definition index :: "bytes \<Rightarrow> nat \<Rightarrow> cbor_error + 8 word" where
  "index b i = (if i < length b then Inr (b ! i) else Inl Panicked)"

definition number_at :: "bytes \<Rightarrow> nat \<Rightarrow> nat \<Rightarrow> cbor_error + nat" where
  "number_at b i j = bindE (slice b i j) (\<lambda>s. Inr (big_endian s))"

definition name_at :: "bytes \<Rightarrow> nat \<Rightarrow> nat \<Rightarrow> cbor_error + string" where
  "name_at b i j = bindE (slice b i j) (\<lambda>s. Inr (go_string s))"

text \<open>
  The walk over JUMBF boxes from offset \<open>i\<close>; the captured \<open>found\<close> is \<open>None\<close> whenever the walk goes on,
  so it is its result. Nesting stops at 17 levels.
\<close>

function jumbf_walk :: "bytes \<Rightarrow> nat \<Rightarrow> nat \<Rightarrow> cbor_error + bytes option" where
  "jumbf_walk b depth i =
    (if depth > 16 \<or> i + 8 > length b then Inr None
     else bindE (number_at b i (i + 4)) (\<lambda>size'.
       bindE (name_at b (i + 4) (i + 8)) (\<lambda>boxType.
       let size = (if size' = 0 then length b - i else size') in
       if size < 8 \<or> i + size > length b then Inr None
       else bindE (slice b (i + 8) (i + size)) (\<lambda>content.
         if boxType = ''cbor'' then Inr (Some content)
         else if boxType = ''jumb'' then
           bindE (jumbf_walk content (depth + 1) 0) (\<lambda>found.
             case found of Some f \<Rightarrow> Inr (Some f) | None \<Rightarrow> jumbf_walk b depth (i + size))
         else jumbf_walk b depth (i + size)))))"
  by pat_completeness auto

termination
  by (relation "measures [\<lambda>(b, depth, i). length b, \<lambda>(b, depth, i). length b - i]") (auto simp: slice_eq_Inr)

declare jumbf_walk.simps [simp del]

definition unwrapJUMBF :: "bytes \<Rightarrow> cbor_error + bytes" where
  "unwrapJUMBF b = bindE (jumbf_walk b 0 0) (\<lambda>found. case found of
     Some f \<Rightarrow> Inr f
   | None \<Rightarrow> Inr (if b \<noteq> [] \<and> drop_bit 5 (hd b) = 5 then b else []))"

type_synonym located = "bytes \<times> byteRange list"

text \<open>The segments of a JPEG file from offset \<open>i\<close>: what the APP11 ones hold, and where they are.\<close>

function jpeg_segments :: "bytes \<Rightarrow> nat \<Rightarrow> bytes \<Rightarrow> byteRange list \<Rightarrow> cbor_error + located" where
  "jpeg_segments asset i store ranges =
    (if i + 4 > length asset then Inr (store, ranges)
     else bindE (index asset i) (\<lambda>c.
       if c \<noteq> 0xFF then jpeg_segments asset (i + 1) store ranges
       else bindE (index asset (i + 1)) (\<lambda>marker.
         if marker = 0xD8 \<or> (marker \<ge> 0xD0 \<and> marker \<le> 0xD9) then jpeg_segments asset (i + 2) store ranges
         else if marker = 0xDA then Inr (store, ranges)
         else bindE (number_at asset (i + 2) (i + 4)) (\<lambda>segLen.
           if segLen < 2 \<or> i + 2 + segLen > length asset then Inr (store, ranges)
           else bindE (slice asset (i + 4) (i + 2 + segLen)) (\<lambda>body.
             if marker = 0xEB \<and> length body > 8 \<and> go_string (take 2 body) = ''JP''
             then jpeg_segments asset (i + (2 + segLen)) (store @ drop 8 body)
                    (ranges @ [\<lparr>range_start = i, range_length = 2 + segLen\<rparr>])
             else jpeg_segments asset (i + (2 + segLen)) store ranges)))))"
  by pat_completeness auto

termination by (relation "measure (\<lambda>(asset, i, s, r). length asset - i)") auto

declare jpeg_segments.simps [simp del]

definition findJPEGManifest :: "bytes \<Rightarrow> cbor_error + located" where
  "findJPEGManifest asset = bindE (jpeg_segments asset 2 [] []) (\<lambda>(store, ranges).
     if store = [] then Inr ([], []) else bindE (unwrapJUMBF store) (\<lambda>s. Inr (s, ranges)))"

function png_chunks :: "bytes \<Rightarrow> nat \<Rightarrow> cbor_error + located" where
  "png_chunks asset i =
    (if i + 12 > length asset then Inr ([], [])
     else bindE (number_at asset i (i + 4)) (\<lambda>len.
       if i + 12 + len > length asset then Inr ([], [])
       else bindE (name_at asset (i + 4) (i + 8)) (\<lambda>chunkType.
         if chunkType = ''caBX'' then
           bindE (slice asset (i + 8) (i + 8 + len)) (\<lambda>data.
           bindE (unwrapJUMBF data) (\<lambda>s. Inr (s, [\<lparr>range_start = i, range_length = 12 + len\<rparr>])))
         else if chunkType = ''IEND'' then Inr ([], [])
         else png_chunks asset (i + (12 + len)))))"
  by pat_completeness auto

termination by (relation "measure (\<lambda>(asset, i). length asset - i)") auto

declare png_chunks.simps [simp del]

definition findPNGManifest :: "bytes \<Rightarrow> cbor_error + located" where
  "findPNGManifest asset = png_chunks asset 8"

definition c2paUUID :: bytes where
  "c2paUUID = [0xD8, 0xFE, 0xC3, 0xD6, 0x1B, 0x0E, 0x48, 0x3C, 0x92, 0x97, 0x58, 0x28, 0x87, 0x7E, 0xC4, 0x81]"

text \<open>The condition is evaluated left to right: the identifier is sliced only where there are 24 bytes.\<close>

function bmff_boxes :: "bytes \<Rightarrow> nat \<Rightarrow> cbor_error + located" where
  "bmff_boxes asset i =
    (if i + 8 > length asset then Inr ([], [])
     else bindE (number_at asset i (i + 4)) (\<lambda>size'.
       bindE (name_at asset (i + 4) (i + 8)) (\<lambda>boxType.
       let size = (if size' = 0 then length asset - i else size') in
       if size < 8 \<or> i + size > length asset then Inr ([], [])
       else bindE (if boxType = ''uuid'' \<and> i + 24 \<le> length asset then slice asset (i + 8) (i + 24) else Inr []) (\<lambda>uuid.
         if uuid = c2paUUID then
           bindE (slice asset (i + 24) (i + size)) (\<lambda>content.
           bindE (unwrapJUMBF content) (\<lambda>s. Inr (s, [\<lparr>range_start = i, range_length = size\<rparr>])))
         else bmff_boxes asset (i + size)))))"
  by pat_completeness auto

termination by (relation "measure (\<lambda>(asset, i). length asset - i)") auto

declare bmff_boxes.simps [simp del]

definition findBMFFManifest :: "bytes \<Rightarrow> cbor_error + located" where
  "findBMFFManifest asset = bmff_boxes asset 0"

definition is_jpeg :: "bytes \<Rightarrow> bool" where
  "is_jpeg asset \<longleftrightarrow> take 3 asset = [0xFF, 0xD8, 0xFF]"

definition is_png :: "bytes \<Rightarrow> bool" where
  "is_png asset \<longleftrightarrow> take 8 asset = [0x89, 0x50, 0x4E, 0x47, 0x0D, 0x0A, 0x1A, 0x0A]"

definition findManifestStore :: "bytes \<Rightarrow> cbor_error + located" where
  "findManifestStore asset =
    (if is_jpeg asset then findJPEGManifest asset
     else if is_png asset then findPNGManifest asset
     else if 12 < length asset then
       bindE (name_at asset 4 8) (\<lambda>brand. if brand = ''ftyp'' then findBMFFManifest asset else Inr ([], []))
     else Inr ([], []))"

subsection \<open>\<open>ExtractC2PA\<close>\<close>

definition generator_of :: "cbor_value \<Rightarrow> string" where
  "generator_of claim =
    (case lookupText claim ''claim_generator'' of
       Some gen \<Rightarrow> (case asText gen of None \<Rightarrow> '''' | Some s \<Rightarrow> s)
     | None \<Rightarrow> (case lookupText claim ''claim_generator_info'' of
         Some (CborArray (g # _)) \<Rightarrow> (case lookupText g ''name'' of
             Some n \<Rightarrow> (case asText n of None \<Rightarrow> '''' | Some s \<Rightarrow> s) | None \<Rightarrow> '''')
       | _ \<Rightarrow> ''''))"

text \<open>What follows the verification of the signature: everything is read from the signed payload.\<close>

definition read_claim :: "crypto \<Rightarrow> bytes \<Rightarrow> byteRange list \<Rightarrow> cbor_value option \<Rightarrow> bytes \<Rightarrow> c2pa_result \<Rightarrow> cbor_error + c2pa_result" where
  "read_claim cr asset exclusions storedClaim signedPayload res =
    (case decodeCBORStrict signedPayload of
       Inl e \<Rightarrow> Inr (noted (ClaimNotParsed e) (res\<lparr>Intact := False\<rparr>))
     | Inr claim \<Rightarrow>
       if (case storedClaim of None \<Rightarrow> False | Some c \<Rightarrow> \<not> sameClaim c claim)
       then Inr (noted ClaimDiffers (res\<lparr>Intact := False\<rparr>))
       else bindE (verifyHardBinding cr claim asset exclusions (res\<lparr>Generator := generator_of claim\<rparr>)) (\<lambda>(ok, res).
            Inr (res\<lparr>BindingValid := ok\<rparr>)))"

definition ExtractC2PA :: "crypto \<Rightarrow> bytes \<Rightarrow> cbor_error + c2pa_result" where
  "ExtractC2PA cr asset =
     bindE (findManifestStore asset) (\<lambda>(store, exclusions).
     if store = [] then Inr no_result
     else let res = no_result\<lparr>Present := True\<rparr> in
       (case decodeCBORStrict store of
          Inl e \<Rightarrow> Inr (noted (NotParsed e) res)
        | Inr manifest \<Rightarrow>
          let (storedClaim, sig) = locateClaimAndSignature manifest in
          (case sig of
             None \<Rightarrow> Inr (noted NoSignature res)
           | Some s \<Rightarrow>
             let (verified, signedPayload, issuer, alg, err) = verifyCOSESign1 cr s;
                 res = res\<lparr>Issuer := issuer, SignatureAlg := alg\<rparr> in
             (case err of
                Some e \<Rightarrow> Inr (noted (NotVerified e) res)
              | None \<Rightarrow>
                if \<not> verified then Inr (noted Altered res)
                else read_claim cr asset exclusions storedClaim signedPayload (res\<lparr>Intact := True\<rparr>)))))"


subsection \<open>Which files make the reader panic\<close>

definition fine :: "cbor_error + 'a \<Rightarrow> bool" where
  "fine r \<longleftrightarrow> (\<exists>x. r = Inr x)"

lemma fine_simps [simp]: "fine (Inr x)" "\<not> fine (Inl e)"
  by (simp_all add: fine_def)

lemma fine_bindE: "fine m \<Longrightarrow> (\<And>x. m = Inr x \<Longrightarrow> fine (f x)) \<Longrightarrow> fine (bindE m f)"
  by (auto simp: fine_def)

lemma fine_if: "(c \<Longrightarrow> fine x) \<Longrightarrow> (\<not> c \<Longrightarrow> fine y) \<Longrightarrow> fine (if c then x else y)"
  by simp

lemma fine_option: "(r = None \<Longrightarrow> fine x) \<Longrightarrow> (\<And>y. r = Some y \<Longrightarrow> fine (f y)) \<Longrightarrow> fine (case r of None \<Rightarrow> x | Some y \<Rightarrow> f y)"
  by (cases r) simp_all

lemma fine_reads:
  "i \<le> j \<Longrightarrow> j \<le> length b \<Longrightarrow> fine (slice b i j)"
  "i \<le> j \<Longrightarrow> j \<le> length b \<Longrightarrow> fine (number_at b i j)"
  "i \<le> j \<Longrightarrow> j \<le> length b \<Longrightarrow> fine (name_at b i j)"
  "i < length b \<Longrightarrow> fine (index b i)"
  by (simp_all add: slice_def number_at_def name_at_def index_def)

lemma fine_jumbf: "fine (jumbf_walk b depth i)"
proof (induction "length b" arbitrary: b depth i rule: less_induct)
  case nested: less
  show ?case
  proof (induction "length b - i" arbitrary: i rule: less_induct)
    case less
    show ?case
      unfolding jumbf_walk.simps [of b depth i] Let_def
      by (intro fine_if fine_bindE fine_option fine_reads fine_simps) (auto intro: less.hyps nested simp: slice_eq_Inr)
  qed
qed

lemma fine_unwrap: "fine (unwrapJUMBF b)"
  unfolding unwrapJUMBF_def by (intro fine_bindE fine_jumbf) (simp split: option.split)

lemma fine_jpeg: "fine (jpeg_segments asset i store ranges)"
proof (induction "length asset - i" arbitrary: i store ranges rule: less_induct)
  case less
  show ?case
    unfolding jpeg_segments.simps [of asset i]
    by (intro fine_if fine_bindE fine_reads fine_simps less.hyps) auto
qed

lemma fine_png: "fine (png_chunks asset i)"
proof (induction "length asset - i" arbitrary: i rule: less_induct)
  case less
  show ?case
    unfolding png_chunks.simps [of asset i]
    by (intro fine_if fine_bindE fine_reads fine_unwrap fine_simps less.hyps) auto
qed

text \<open>
  A box of type \<open>uuid\<close> that carries the C2PA identifier but is too short to contain it: the length
  field says fewer than 24 bytes.
\<close>

definition short_box :: "bytes \<Rightarrow> nat \<Rightarrow> bool" where
  "short_box asset i \<longleftrightarrow> i + 24 \<le> length asset \<and> big_endian (take 4 (drop i asset)) \<in> {8..<24}
     \<and> go_string (take 4 (drop (i + 4) asset)) = ''uuid'' \<and> take 16 (drop (i + 8) asset) = c2paUUID"

lemma c2paUUID_nonempty: "c2paUUID \<noteq> []"
  by (simp add: c2paUUID_def)

lemma bmff_panics:
  "bmff_boxes asset i = Inl e \<Longrightarrow> e = Panicked \<and> (\<exists>j. short_box asset j)"
proof (induction "length asset - i" arbitrary: i rule: less_induct)
  case less
  let ?s = "big_endian (take 4 (drop i asset))" and ?t = "go_string (take 4 (drop (i + 4) asset))"
  define size where "size = (if ?s = 0 then length asset - i else ?s)"
  have i: "i + 8 \<le> length asset" using less.prems by (auto simp: bmff_boxes.simps [of asset i] split: if_splits)
  then have n: "number_at asset i (i + 4) = Inr ?s" "name_at asset (i + 4) (i + 8) = Inr ?t"
    by (simp_all add: number_at_def name_at_def slice_def)
  note run = less.prems [unfolded bmff_boxes.simps [of asset i] n bindE_simps Let_def, folded size_def]
  have s: "8 \<le> size" "i + size \<le> length asset" using run i by (auto split: if_splits)
  define uuid where "uuid = (if ?t = ''uuid'' \<and> i + 24 \<le> length asset then take 16 (drop (i + 8) asset) else [])"
  have u: "(if ?t = ''uuid'' \<and> i + 24 \<le> length asset then slice asset (i + 8) (i + 24) else Inr []) = Inr uuid"
    by (simp add: uuid_def slice_def)
  show ?case
  proof (cases "uuid = c2paUUID")
    case True
    then have c: "?t = ''uuid''" "i + 24 \<le> length asset" "take 16 (drop (i + 8) asset) = c2paUUID"
      using c2paUUID_nonempty by (auto simp: uuid_def split: if_splits)
    have r: "bindE (slice asset (i + 24) (i + size)) (\<lambda>content.
           bindE (unwrapJUMBF content) (\<lambda>s. Inr (s, [\<lparr>range_start = i, range_length = size\<rparr>]))) = Inl e"
      using run i s u True by simp
    have "size < 24"
    proof (rule ccontr)
      assume "\<not> size < 24"
      then have "fine (bindE (slice asset (i + 24) (i + size)) (\<lambda>content.
           bindE (unwrapJUMBF content) (\<lambda>s. Inr (s, [\<lparr>range_start = i, range_length = size\<rparr>]))))"
        using s(2) by (intro fine_bindE fine_reads fine_unwrap fine_simps) simp_all
      then show False using r by simp
    qed
    moreover have "e = Panicked" using r \<open>size < 24\<close> by (simp add: slice_def)
    ultimately show ?thesis using c s by (auto simp: short_box_def size_def split: if_splits)
  next
    case False
    then have "bmff_boxes asset (i + size) = Inl e" using run i s u by simp
    then show ?thesis using s by (intro less.hyps [of "i + size"]) simp_all
  qed
qed

lemma find_panics:
  "findManifestStore asset = Inl e \<Longrightarrow> e = Panicked \<and> (\<exists>j. short_box asset j) \<and> \<not> is_jpeg asset \<and> \<not> is_png asset"
proof -
  assume f: "findManifestStore asset = Inl e"
  have "fine (findJPEGManifest asset)" unfolding findJPEGManifest_def
    by (intro fine_bindE fine_jpeg) (auto intro!: fine_bindE fine_unwrap)
  then have j: "\<not> is_jpeg asset" using f by (auto simp: findManifestStore_def fine_def)
  have "fine (findPNGManifest asset)" unfolding findPNGManifest_def by (rule fine_png)
  then have p: "\<not> is_png asset" using f j by (auto simp: findManifestStore_def fine_def)
  have "findBMFFManifest asset = Inl e"
    using f j p by (auto simp: findManifestStore_def name_at_def slice_def split: if_splits)
  then show ?thesis using bmff_panics [of asset 0 e] j p by (simp add: findBMFFManifest_def)
qed

text \<open>The exclusions of a located manifest are ordered, disjoint and inside the file.\<close>

fun ranges_from :: "nat \<Rightarrow> nat \<Rightarrow> byteRange list \<Rightarrow> bool" where
  "ranges_from n prev [] \<longleftrightarrow> prev \<le> n"
| "ranges_from n prev (r # rs) \<longleftrightarrow> prev \<le> range_start r \<and> range_start r + range_length r \<le> n \<and> ranges_from n (range_start r + range_length r) rs"

lemma ranges_from_le: "ranges_from n prev rs \<Longrightarrow> prev \<le> n"
  by (induction rs arbitrary: prev) (auto dest: order_trans)

lemma exclude_ranges:
  "ranges_from (length asset) prev rs \<Longrightarrow>
   \<exists>rest. exclude_from asset prev rs = Inr rest \<and> length rest + (\<Sum>r\<leftarrow>rs. range_length r) = length asset - prev"
proof (induction rs arbitrary: prev)
  case (Cons r rs)
  then have p: "prev \<le> range_start r" "range_start r + range_length r \<le> length asset"
    and rs: "ranges_from (length asset) (range_start r + range_length r) rs" by simp_all
  from Cons.IH [OF rs] obtain rest where "exclude_from asset (range_start r + range_length r) rs = Inr rest"
    "length rest + (\<Sum>r\<leftarrow>rs. range_length r) = length asset - (range_start r + range_length r)" by blast
  then show ?case using p by (simp add: slice_def min_absorb1)
qed (simp add: slice_def)

lemma ranges_mono: "ranges_from n p rs \<Longrightarrow> n \<le> m \<Longrightarrow> ranges_from m p rs"
  by (induction rs arbitrary: p) auto

lemma ranges_snoc: "ranges_from i p rs \<Longrightarrow> i \<le> range_start r \<Longrightarrow> range_start r + range_length r \<le> n \<Longrightarrow> ranges_from n p (rs @ [r])"
  by (induction rs arbitrary: p) auto

lemma jpeg_step:
  obtains (stop) "jpeg_segments asset i store ranges = Inr (store, ranges)"
    | (skip) j where "i < j" "j \<le> length asset" "jpeg_segments asset i store ranges = jpeg_segments asset j store ranges"
    | (part) l body where "0 < l" "i + l \<le> length asset"
        "jpeg_segments asset i store ranges = jpeg_segments asset (i + l) (store @ body) (ranges @ [\<lparr>range_start = i, range_length = l\<rparr>])"
proof (cases "i + 4 > length asset")
  case True
  then show ?thesis by (intro stop) (simp add: jpeg_segments.simps [of asset i])
next
  case False
  define segLen where "segLen = big_endian (take 2 (drop (i + 2) asset))"
  have "index asset i = Inr (asset ! i)" "index asset (i + 1) = Inr (asset ! (i + 1))" "number_at asset (i + 2) (i + 4) = Inr segLen"
    using False by (simp_all add: index_def number_at_def slice_def segLen_def)
  note step = jpeg_segments.simps [of asset i store ranges, unfolded this bindE_simps]
  let ?m = "asset ! (i + 1)"
  consider "asset ! i \<noteq> 0xFF" | "asset ! i = 0xFF" "?m = 0xD8 \<or> (?m \<ge> 0xD0 \<and> ?m \<le> 0xD9)"
    | "asset ! i = 0xFF" "\<not> (?m = 0xD8 \<or> (?m \<ge> 0xD0 \<and> ?m \<le> 0xD9))" "?m = 0xDA \<or> segLen < 2 \<or> i + 2 + segLen > length asset"
    | "asset ! i = 0xFF" "\<not> (?m = 0xD8 \<or> (?m \<ge> 0xD0 \<and> ?m \<le> 0xD9))" "?m \<noteq> 0xDA" "2 \<le> segLen" "i + 2 + segLen \<le> length asset"
    by linarith
  then show ?thesis
  proof cases
    case 1
    show ?thesis by (rule skip [of "i + 1"]) (use False 1 step in simp_all)
  next
    case 2
    then have "jpeg_segments asset i store ranges = jpeg_segments asset (i + 2) store ranges" using step False by (simp only: if_True if_False simp_thms)
    then show ?thesis using False by (intro skip [of "i + 2"]) simp_all
  next
    case 3
    have "jpeg_segments asset i store ranges = Inr (store, ranges)"
    proof (cases "?m = 0xDA")
      case True
      then show ?thesis using step False 3(1,2) by (simp only: if_True if_False simp_thms)
    next
      case f: False
      then have "segLen < 2 \<or> i + 2 + segLen > length asset" using 3(3) by simp
      then show ?thesis using step False 3(1,2) f by (simp only: if_True if_False simp_thms)
    qed
    then show ?thesis by (rule stop)
  next
    case 4
    define body where "body = take (segLen - 2) (drop (i + 4) asset)"
    have "slice asset (i + 4) (i + 2 + segLen) = Inr body" using 4 by (simp add: slice_def body_def)
    then have r: "jpeg_segments asset i store ranges = (if ?m = 0xEB \<and> length body > 8 \<and> go_string (take 2 body) = ''JP''
             then jpeg_segments asset (i + (2 + segLen)) (store @ drop 8 body)
                    (ranges @ [\<lparr>range_start = i, range_length = 2 + segLen\<rparr>])
             else jpeg_segments asset (i + (2 + segLen)) store ranges)"
      using step 4 False by (simp only: if_True if_False simp_thms not_less [symmetric] bindE_simps)
    show ?thesis
    proof (cases "?m = 0xEB \<and> length body > 8 \<and> go_string (take 2 body) = ''JP''")
      case True
      then show ?thesis using r 4 by (intro part [of "2 + segLen" "drop 8 body"]) simp_all
    next
      case f: False
      have "jpeg_segments asset i store ranges = jpeg_segments asset (i + (2 + segLen)) store ranges" using r by (simp only: f if_False)
      then show ?thesis using 4 by (intro skip [of "i + (2 + segLen)"]) simp_all
    qed
  qed
qed

lemma jpeg_ranges:
  "jpeg_segments asset i store ranges = Inr (s, rs) \<Longrightarrow> ranges_from i 0 ranges \<Longrightarrow> i \<le> length asset \<Longrightarrow> ranges_from (length asset) 0 rs"
proof (induction "length asset - i" arbitrary: i store ranges rule: less_induct)
  case less
  show ?case
  proof (cases rule: jpeg_step [of asset i store ranges])
    case stop
    then show ?thesis using less.prems ranges_mono by auto
  next
    case (skip j)
    then show ?thesis using less.prems ranges_mono [OF less.prems(2), of j] by (intro less.hyps [of j store ranges]) simp_all
  next
    case (part l body)
    then show ?thesis using less.prems ranges_snoc [OF less.prems(2), of "\<lparr>range_start = i, range_length = l\<rparr>" "i + l"]
      by (intro less.hyps [of "i + l" "store @ body"]) simp_all
  qed
qed

lemma png_ranges: "png_chunks asset i = Inr (s, rs) \<Longrightarrow> ranges_from (length asset) 0 rs"
proof (induction "length asset - i" arbitrary: i rule: less_induct)
  case less
  define len where "len = big_endian (take 4 (drop i asset))"
  show ?case
  proof (cases "i + 12 + len > length asset")
    case True
    then show ?thesis using less.prems by (auto simp: png_chunks.simps [of asset i] number_at_def slice_def len_def split: if_splits)
  next
    case False
    then have n: "number_at asset i (i + 4) = Inr len" by (simp add: number_at_def slice_def len_def)
    have "png_chunks asset (i + (12 + len)) = Inr (s, rs) \<Longrightarrow> ranges_from (length asset) 0 rs"
      using False by (intro less.hyps [of "i + (12 + len)"]) simp_all
    then show ?thesis using less.prems n False by (auto simp: png_chunks.simps [of asset i] split: if_splits)
  qed
qed

lemma bmff_ranges: "bmff_boxes asset i = Inr (s, rs) \<Longrightarrow> ranges_from (length asset) 0 rs"
proof (induction "length asset - i" arbitrary: i rule: less_induct)
  case less
  define size where "size = (let n = big_endian (take 4 (drop i asset)) in if n = 0 then length asset - i else n)"
  show ?case
  proof (cases "i + 8 > length asset \<or> size < 8 \<or> i + size > length asset")
    case True
    then show ?thesis using less.prems by (auto simp: bmff_boxes.simps [of asset i] number_at_def name_at_def slice_def size_def Let_def split: if_splits)
  next
    case False
    then have n: "number_at asset i (i + 4) = Inr (big_endian (take 4 (drop i asset)))" by (simp add: number_at_def slice_def)
    have "bmff_boxes asset (i + size) = Inr (s, rs) \<Longrightarrow> ranges_from (length asset) 0 rs"
      using False by (intro less.hyps [of "i + size"]) auto
    moreover have "rs = [\<lparr>range_start = i, range_length = size\<rparr>] \<or> bmff_boxes asset (i + size) = Inr (s, rs)"
      using less.prems [unfolded bmff_boxes.simps [of asset i] n bindE_simps, folded size_def [unfolded Let_def]] False
      by (auto simp: Let_def size_def [symmetric] split: if_splits)
    ultimately show ?thesis using False by auto
  qed
qed

lemma find_ranges: "findManifestStore asset = Inr (store, rs) \<Longrightarrow> ranges_from (length asset) 0 rs"
proof -
  assume f: "findManifestStore asset = Inr (store, rs)"
  have "ranges_from (length asset) 0 rs" if j: "findJPEGManifest asset = Inr (store, rs)" "is_jpeg asset"
  proof -
    have "length (take 3 asset) = 3" using j(2) by (simp add: is_jpeg_def)
    then have "2 \<le> length asset" by simp
    then show ?thesis using j(1) jpeg_ranges [of asset 2 "[]" "[]"] by (auto simp: findJPEGManifest_def split: if_splits)
  qed
  then show ?thesis using f png_ranges [of asset 8] bmff_ranges [of asset 0]
    by (auto simp: findManifestStore_def findPNGManifest_def findBMFFManifest_def split: if_splits)
qed

lemma fine_exclude: "findManifestStore asset = Inr (store, rs) \<Longrightarrow> fine (excludeRanges asset rs)"
  using exclude_ranges [OF find_ranges] by (fastforce simp: excludeRanges_def)

lemma fine_bindings: "fine (excludeRanges asset rs) \<Longrightarrow> fine (check_bindings cr asset rs as res)"
  by (induction as) (auto intro!: fine_bindE split: option.split)

lemma fine_binding: "fine (excludeRanges asset rs) \<Longrightarrow> fine (verifyHardBinding cr claim asset rs res)"
  by (auto simp: verifyHardBinding_def fine_bindings split: option.split cbor_value.split)

lemma fine_claim: "fine (excludeRanges asset rs) \<Longrightarrow> fine (read_claim cr asset rs stored payload res)"
  by (auto simp: read_claim_def fine_binding intro!: fine_bindE split: sum.split)

lemma fine_extract: "findManifestStore asset = Inr (store, rs) \<Longrightarrow> fine (ExtractC2PA cr asset)"
  using fine_claim [OF fine_exclude]
  by (auto simp: ExtractC2PA_def Let_def split: sum.split option.split prod.split)


text \<open>The file: an \<open>ftyp\<close> box of 16 bytes, then a \<open>uuid\<close> box that says 16 bytes and goes on with the identifier.\<close>

definition crash_file :: bytes where
  "crash_file = [0, 0, 0, 16, 0x66, 0x74, 0x79, 0x70, 0x61, 0x76, 0x69, 0x66, 0, 0, 0, 0,
     0, 0, 0, 16, 0x75, 0x75, 0x69, 0x64] @ c2paUUID"

lemma crash_file_panics: "findManifestStore crash_file = Inl Panicked"
  by code_simp

lemma c2pa_crash: "ExtractC2PA cr crash_file = Inl Panicked"
  by (simp add: ExtractC2PA_def crash_file_panics)


subsection \<open>What a signature covers\<close>

lemma sig_structure_decodes:
  assumes "length protected < 2 ^ 64" and "length payload < 2 ^ 64"
  shows "decodeCBOR (sig_structure protected payload) = Inr (CborArray [CborText ''Signature1'', CborBytes protected, CborBytes [], CborBytes payload],
     length (sig_structure protected payload))"
proof -
  have "list_all2 (encodes (0 + 1)) [encodeCBORText ''Signature1'', encodeCBORBytes protected, encodeCBORBytes [], encodeCBORBytes payload]
     [CborText ''Signature1'', CborBytes protected, CborBytes [], CborBytes payload]"
    using assms by (auto intro!: encodes_text encodes_bytes simp: maxCBORNesting_def)
  then have "encodes 0 (sig_structure protected payload) (CborArray [CborText ''Signature1'', CborBytes protected, CborBytes [], CborBytes payload])"
    unfolding sig_structure_def by (intro encodes_array) simp_all
  from this [unfolded encodes_def, THEN spec, of "[]"] show ?thesis by (simp add: decodeCBOR_def)
qed

text \<open>the bytes a COSE signature is computed over determine the protected headers and the
  payload, so a signature over one pair is a signature over no other.\<close>

theorem signed_bytes:
  assumes "sig_structure h p = sig_structure h' p'" and "length h < 2 ^ 64" "length p < 2 ^ 64" "length h' < 2 ^ 64" "length p' < 2 ^ 64"
  shows "h = h' \<and> p = p'"
  using sig_structure_decodes [OF assms(2,3)] sig_structure_decodes [OF assms(4,5)] unfolding assms(1) by simp

lemma signed_bytes_witness: "sig_structure [1] [2] = sig_structure [1] [2] \<and> ([1] :: bytes) = [1] \<and> ([2] :: bytes) = [2]"
  using signed_bytes [of "[1]" "[2]" "[1]" "[2]"] by simp

subsection \<open>What a valid binding means\<close>

text \<open>A certificate whose key verifies a signature over these protected headers and this payload, with the algorithm the headers name.\<close>

definition vouched :: "crypto \<Rightarrow> certificate \<Rightarrow> bytes \<Rightarrow> bytes \<Rightarrow> bool" where
  "vouched cr cert protected payload \<longleftrightarrow> (\<exists>headers n alg algID signature der.
     decodeCBOR protected = Inr (headers, n) \<and> lookup headers coseHeaderAlg = Some alg \<and> asInt alg = Some algID
     \<and> ParseCertificate cr der = Inr cert \<and> verifySignature cr cert algID (sig_structure protected payload) signature = Inr True)"

lemma check_signature_ok:
  assumes "check_signature cr pb protected u item sig = (True, payload, issuer, alg, None)"
  shows "\<exists>algV algID der cert. lookup protected coseHeaderAlg = Some algV \<and> asInt algV = Some algID \<and> ParseCertificate cr der = Inr cert
    \<and> issuer = certificateSubject cert \<and> verifySignature cr cert algID (sig_structure pb payload) sig = Inr True"
  using assms by (auto simp: check_signature_def Let_def split: option.splits list.splits sum.splits if_splits)

lemma verify_ok:
  assumes "verifyCOSESign1 cr v = (True, payload, issuer, alg, None)"
  shows "\<exists>cert protected. vouched cr cert protected payload \<and> issuer = certificateSubject cert"
proof -
  obtain pb sig protected u item where c: "check_signature cr pb protected u item sig = (True, payload, issuer, alg, None)"
    and p: "(if pb = [] then Inr (CborUint 0) else bindE (decodeCBOR pb) (\<lambda>(h, _). Inr h)) = Inr protected"
    using assms by (auto simp: verifyCOSESign1_def split: sum.splits cbor_value.splits list.splits option.splits)
  from check_signature_ok [OF c] obtain algV algID der cert where s: "lookup protected coseHeaderAlg = Some algV" "asInt algV = Some algID"
    "ParseCertificate cr der = Inr cert" "issuer = certificateSubject cert" "verifySignature cr cert algID (sig_structure pb payload) sig = Inr True"
    by blast
  have "pb \<noteq> []" using p s(1) by (auto split: if_splits)
  then obtain n where "decodeCBOR pb = Inr (protected, n)" using p by auto
  then have "vouched cr cert pb payload" unfolding vouched_def using s by blast
  then show ?thesis using s(4) by blast
qed

definition assertions_of :: "cbor_value \<Rightarrow> cbor_value list" where
  "assertions_of claim = (case (case lookupText claim ''assertions'' of None \<Rightarrow> lookupText claim ''created_assertions'' | Some a \<Rightarrow> Some a) of
     Some (CborArray as) \<Rightarrow> as | _ \<Rightarrow> [])"

lemma check_bindings_True:
  "check_bindings cr asset rs as res = Inr (True, res') \<Longrightarrow>
   res' = res \<and> (\<exists>a \<in> set as. \<exists>rest. excludeRanges asset rs = Inr rest \<and> binding_hash a = Some (Digest cr SHA256 rest))"
  by (induction as) (auto split: option.splits if_splits)

lemma verifyHardBinding_True:
  "verifyHardBinding cr claim asset rs res = Inr (True, res') \<Longrightarrow>
   res' = res \<and> (\<exists>a \<in> set (assertions_of claim). \<exists>rest. excludeRanges asset rs = Inr rest \<and> binding_hash a = Some (Digest cr SHA256 rest))"
  by (auto simp: verifyHardBinding_def assertions_of_def dest!: check_bindings_True split: option.splits cbor_value.splits)

text \<open>C16: a manifest is reported as bound to a file only if some certificate's key verifies a
  signature over a payload which, read as a claim, asserts the SHA-256 of this very file with the
  located manifest's regions left out, and these regions are all that is left out. The issuer and
  the generator reported are that certificate's subject and what that signed claim says.\<close>

theorem binding_sound:
  assumes "ExtractC2PA cr asset = Inr res" and "BindingValid res"
  shows "Present res \<and> Intact res \<and> (\<exists>store regions cert protected payload claim a rest.
      findManifestStore asset = Inr (store, regions) \<and> vouched cr cert protected payload \<and> decodeCBORStrict payload = Inr claim
      \<and> a \<in> set (assertions_of claim) \<and> binding_hash a = Some (Digest cr SHA256 rest) \<and> excludeRanges asset regions = Inr rest
      \<and> length rest + (\<Sum>r\<leftarrow>regions. range_length r) = length asset
      \<and> Issuer res = certificateSubject cert \<and> Generator res = generator_of claim)"
proof -
  obtain store regions where f: "findManifestStore asset = Inr (store, regions)" using assms(1) by (auto simp: ExtractC2PA_def)
  obtain stored s payload issuer alg where v: "verifyCOSESign1 cr s = (True, payload, issuer, alg, None)"
    and r: "read_claim cr asset regions stored payload (no_result\<lparr>Present := True, Issuer := issuer, SignatureAlg := alg, Intact := True\<rparr>) = Inr res"
    using assms f by (auto simp: ExtractC2PA_def Let_def no_result_def noted_def split: sum.splits option.splits prod.splits if_splits)
  obtain cert protected where c: "vouched cr cert protected payload" "issuer = certificateSubject cert" using verify_ok [OF v] by blast
  obtain claim res' where d: "decodeCBORStrict payload = Inr claim" and b: "verifyHardBinding cr claim asset regions
      (no_result\<lparr>Present := True, Issuer := issuer, SignatureAlg := alg, Intact := True, Generator := generator_of claim\<rparr>) = Inr (True, res')"
    and res: "res = res'\<lparr>BindingValid := True\<rparr>"
    using r assms(2) by (auto simp: read_claim_def noted_def no_result_def split: sum.splits if_splits)
  from verifyHardBinding_True [OF b] obtain a rest where a: "a \<in> set (assertions_of claim)" "excludeRanges asset regions = Inr rest"
    "binding_hash a = Some (Digest cr SHA256 rest)" and res': "res' = no_result\<lparr>Present := True, Issuer := issuer, SignatureAlg := alg, Intact := True, Generator := generator_of claim\<rparr>"
    by blast
  have "length rest + (\<Sum>r\<leftarrow>regions. range_length r) = length asset"
    using exclude_ranges [OF find_ranges [OF f]] a(2) by (auto simp: excludeRanges_def split: if_splits)
  moreover have "Present res" "Intact res" "Issuer res = certificateSubject cert" "Generator res = generator_of claim"
    by (simp_all add: res res' c(2))
  ultimately show ?thesis using f c(1) d a by blast
qed


text \<open>A file with a manifest that verifies: a PNG whose only chunk is a manifest signed by a signer whose
  signature is the last byte of the message, over a claim that asserts the length of the rest.\<close>

definition demo_crypto :: crypto where
  "demo_crypto = \<lparr>ParseCertificate = (\<lambda>der. Inr \<lparr>PublicKey = Ed25519Key der, CommonName = ''signer'', Organization = [], SubjectString = ''''\<rparr>),
     Digest = (\<lambda>d b. [word_of_nat (length b)]), EcdsaVerify = (\<lambda>_ _ _ _. False), UnmarshalRS = (\<lambda>_. None), VerifyPSS = (\<lambda>_ _ _ _. False),
     VerifyPKCS1v15 = (\<lambda>_ _ _ _. False), Ed25519Verify = (\<lambda>key msg signature. signature = drop (length msg - 1) msg)\<rparr>"

definition demo_claim :: bytes where
  "demo_claim = [0xA1, 0x6A] @ go_bytes ''assertions'' @ [0x81, 0xA2, 0x63] @ go_bytes ''url'' @ [0x6E] @ go_bytes ''c2pa.hash.data''
     @ [0x64] @ go_bytes ''hash'' @ [0x41, 8]"

definition demo_manifest :: bytes where
  "demo_manifest = [0xA1, 0x69] @ go_bytes ''signature'' @ [0x84, 0x47, 0xA2, 0x01, 0x27, 0x18, 0x21, 0x41, 0x00, 0xA0, 0x58, 40] @ demo_claim @ [0x41, 8]"

definition demo_asset :: bytes where
  "demo_asset = [0x89, 0x50, 0x4E, 0x47, 0x0D, 0x0A, 0x1A, 0x0A, 0, 0, 0, 73] @ go_bytes ''caBX'' @ [0, 0, 0, 73] @ go_bytes ''cbor'' @ demo_manifest @ [0, 0, 0, 0]"

definition demo_protected :: bytes where
  "demo_protected = [0xA2, 0x01, 0x27, 0x18, 0x21, 0x41, 0x00]"

definition demo_message :: cbor_value where
  "demo_message = CborArray [CborBytes demo_protected, CborMap [], CborBytes demo_claim, CborBytes [8]]"

lemma demo_found: "findManifestStore demo_asset = Inr (demo_manifest, [\<lparr>range_start = 8, range_length = 85\<rparr>])"
  by code_simp

lemma demo_decoded: "decodeCBORStrict demo_manifest = Inr (CborMap [(CborText ''signature'', demo_message)])"
  by code_simp

lemma demo_located: "locateClaimAndSignature (CborMap [(CborText ''signature'', demo_message)]) = (None, Some demo_message)"
  by code_simp

lemma demo_headers: "decodeCBOR demo_protected = Inr (CborMap [(CborUint 1, CborNegInt (- 8)), (CborUint 33, CborBytes [0])], 7)"
proof -
  have "decodeCBORAt [0x27, 0x18, 0x21, 0x41, 0x00] 1 = Inr (CborNegInt (- 8), 1)"
    by (simp add: decodeCBORAt.simps maxCBORNesting_def decodeArgument_def decode_neg_def drop_bit_eq_div slice_def)
  moreover have "decodeCBORAt [0x01, 0x27, 0x18, 0x21, 0x41, 0x00] 1 = Inr (CborUint 1, 1)"
    "decodeCBORAt [0x18, 0x21, 0x41, 0x00] 1 = Inr (CborUint 33, 2)" "decodeCBORAt [0x41, 0x00] 1 = Inr (CborBytes [0], 2)"
    by code_simp+
  ultimately have "decode_pairs demo_protected 0 1 (Suc (Suc 0)) = Inr ([(CborUint 1, CborNegInt (- 8)), (CborUint 33, CborBytes [0])], 7)"
    by (simp add: demo_protected_def slice_def)
  then have "decode_pairs demo_protected 0 1 2 = Inr ([(CborUint 1, CborNegInt (- 8)), (CborUint 33, CborBytes [0])], 7)"
    by (simp add: numeral_2_eq_2)
  then show ?thesis
    by (simp add: decodeCBOR_def decodeCBORAt.simps [of _ 0] demo_protected_def maxCBORNesting_def decodeArgument_def checkCount_def maxCBORElements_def
      drop_bit_eq_div slice_def)
qed

lemma demo_sig: "sig_structure demo_protected demo_claim = [0x84, 0x6A] @ go_bytes ''Signature1'' @ [0x47] @ demo_protected @ [0x40, 0x58, 40] @ demo_claim"
  by code_simp

lemma demo_verified: "verifyCOSESign1 demo_crypto demo_message = (True, demo_claim, ''signer'', ''EdDSA'', None)"
proof -
  have ne: "demo_protected \<noteq> []" "demo_claim \<noteq> []" by (simp_all add: demo_protected_def demo_claim_def)
  have "verifySignature demo_crypto \<lparr>PublicKey = Ed25519Key [0], CommonName = ''signer'', Organization = [], SubjectString = ''''\<rparr>
     (- 8) (sig_structure demo_protected demo_claim) [8] = Inr True"
    unfolding demo_sig by (simp add: demo_crypto_def verifySignature_def demo_claim_def)
  then show ?thesis using ne
    by (simp add: verifyCOSESign1_def cose_message_def demo_message_def demo_headers check_signature_def coseHeaderAlg_def coseHeaderX5Chain_def as_uint_def
      findX5Chain_def chain_of_def coseAlgName_def certificateSubject_def Let_def demo_crypto_def)
qed

lemma demo_read: "map_sum id BindingValid (read_claim demo_crypto demo_asset [\<lparr>range_start = 8, range_length = 85\<rparr>] None demo_claim res) = Inr True"
proof -
  have "decodeCBORStrict demo_claim = Inr (CborMap [(CborText ''assertions'', CborArray [CborMap [(CborText ''url'', CborText ''c2pa.hash.data''),
      (CborText ''hash'', CborBytes [8])]])])" by code_simp
  moreover have "excludeRanges demo_asset [\<lparr>range_start = 8, range_length = 85\<rparr>] = Inr [0x89, 0x50, 0x4E, 0x47, 0x0D, 0x0A, 0x1A, 0x0A]"
    by code_simp
  moreover have "binding_hash (CborMap [(CborText ''url'', CborText ''c2pa.hash.data''), (CborText ''hash'', CborBytes [8])]) = Some [8]"
    by code_simp
  ultimately show ?thesis by (simp add: read_claim_def verifyHardBinding_def demo_crypto_def)
qed

lemma demo_bound: "\<exists>res. ExtractC2PA demo_crypto demo_asset = Inr res \<and> BindingValid res"
proof -
  have "demo_manifest \<noteq> []" by (simp add: demo_manifest_def)
  then show ?thesis using demo_read [of "no_result\<lparr>Present := True, Issuer := ''signer'', SignatureAlg := ''EdDSA'', Intact := True\<rparr>"]
    by (auto simp: ExtractC2PA_def demo_found demo_decoded demo_located demo_verified Let_def map_sum_def split: sum.splits)
qed

lemma binding_sound_witness: "\<exists>cert protected payload. vouched demo_crypto cert protected payload"
  using demo_bound binding_sound [of demo_crypto demo_asset] by blast

end
