(* ===== verification/Spec2Isabelle.thy ===== *)
theory Spec2Isabelle
  imports Tax Ids RateLimit Ranking Store Outbox AuditLog OrderProofs C2pa
begin

text \<open>
  A model of the marketplace backend (Go, under \<open>src/\<close>) and the theorems that make it correct.
\<close>

end
